(* ===== verification/Prelude.thy ===== *)
theory Prelude
  imports Complex_Main "HOL-Library.Multiset"
begin

text \<open>
  Shared vocabulary of the development: Python exceptions as values, the result type and its
  sequencing, the numpy vector operations the algorithms use (on lists of reals), decimal
  rendering of numbers, and the list and sum lemmas the component theories rely on.

  Python's \<open>float\<close> is modelled by \<^typ>\<open>real\<close>: arithmetic is exact, and \<open>nan\<close>, infinities and
  rounding are outside the model. Python's \<open>int\<close> is \<^typ>\<open>int\<close> (or \<^typ>\<open>nat\<close> for counts).
\<close>

named_theorems result_simps "sequencing of fallible steps"
named_theorems vec_simps "lengths and elements of numpy vector operations"

section \<open>Errors and results\<close>

datatype py_error =
    IndexError
  | KeyError string
  | ZeroDivisionError
  | ValueError string
  | RuntimeError string
  | AttributeError
  | TypeError
  | SolverError string

type_synonym 'a result = "py_error + 'a"

fun rbind :: "'e + 'a \<Rightarrow> ('a \<Rightarrow> 'e + 'b) \<Rightarrow> 'e + 'b" where
  "rbind (Inl e) f = Inl e"
| "rbind (Inr x) f = f x"

fun rmapM :: "('a \<Rightarrow> 'e + 'b) \<Rightarrow> 'a list \<Rightarrow> 'e + 'b list" where
  "rmapM f [] = Inr []"
| "rmapM f (x # xs) = rbind (f x) (\<lambda>y. rbind (rmapM f xs) (\<lambda>ys. Inr (y # ys)))"

section \<open>Vectors\<close>

type_synonym vec = "real list"
type_synonym matrix = "real list list"

definition vscale :: "vec \<Rightarrow> real \<Rightarrow> vec" where
  "vscale v k = map (\<lambda>x. x * k) v"

definition vadd :: "vec \<Rightarrow> vec \<Rightarrow> vec" where
  "vadd u v = map2 (+) u v"

definition vsub :: "vec \<Rightarrow> vec \<Rightarrow> vec" where
  "vsub u v = map2 (-) u v"

definition vmin :: "vec \<Rightarrow> vec \<Rightarrow> vec" where
  "vmin u v = map2 min u v"

definition zeros :: "nat \<Rightarrow> vec" where
  "zeros n = replicate n 0"

definition zeros_like :: "vec \<Rightarrow> vec" where
  "zeros_like v = zeros (length v)"

text \<open>The second component of \<open>shape\<close> of a matrix given by its rows.\<close>

definition shape1 :: "matrix \<Rightarrow> nat" where
  "shape1 m = (case m of [] \<Rightarrow> 0 | r # _ \<Rightarrow> length r)"

definition mscale :: "matrix \<Rightarrow> real \<Rightarrow> matrix" where
  "mscale m k = map (\<lambda>r. vscale r k) m"

definition madd :: "matrix \<Rightarrow> matrix \<Rightarrow> matrix" where
  "madd a b = map2 vadd a b"

section \<open>Decimal rendering\<close>

definition digit_char :: "nat \<Rightarrow> char" where
  "digit_char d = char_of (48 + d)"

fun show_nat :: "nat \<Rightarrow> string" where
  "show_nat n = (if n < 10 then [digit_char n] else show_nat (n div 10) @ [digit_char (n mod 10)])"

declare show_nat.simps [simp del]

definition show_int :: "int \<Rightarrow> string" where
  "show_int i = (if i < 0 then CHR ''-'' # show_nat (nat (- i)) else show_nat (nat i))"

text \<open>\<open>", ".join(parts)\<close> and its kin.\<close>

fun join :: "string \<Rightarrow> string list \<Rightarrow> string" where
  "join sep [] = []"
| "join sep [x] = x"
| "join sep (x # y # xs) = x @ sep @ join sep (y # xs)"

text \<open>
  \<open>round(x, 2)\<close>: the nearest hundredth, ties to the even one. The model keeps the number of
  hundredths; \<open>show_hundredths\<close> is the \<open>str\<close> of the rounded float (at least one decimal, no
  trailing zero), in the range below \<open>1e16\<close> where \<open>repr\<close> uses positional notation.
\<close>

definition round_half_even :: "real \<Rightarrow> int" where
  "round_half_even x =
     (let f = \<lfloor>x\<rfloor>; d = x - of_int f in
      if d < 1 / 2 then f else if 1 / 2 < d then f + 1
      else if even f then f else f + 1)"

definition py_round2 :: "real \<Rightarrow> int" where
  "py_round2 x = round_half_even (x * 100)"

definition show_hundredths :: "int \<Rightarrow> string" where
  "show_hundredths h =
     (let a = nat \<bar>h\<bar>; w = a div 100; c = a mod 100 in
      (if h < 0 then ''-'' else '''') @ show_nat w @ ''.'' @ [digit_char (c div 10)] @
      (if c mod 10 = 0 then '''' else [digit_char (c mod 10)]))"

section \<open>Insertion-ordered dictionaries\<close>

text \<open>
  A Python \<open>dict\<close> is an association list in insertion order with distinct keys; assigning an
  existing key keeps its position. Lookup is \<^const>\<open>map_of\<close>.
\<close>

type_synonym 'v dict = "(string \<times> 'v) list"

fun dict_set :: "'k \<Rightarrow> 'v \<Rightarrow> ('k \<times> 'v) list \<Rightarrow> ('k \<times> 'v) list" where
  "dict_set k v [] = [(k, v)]"
| "dict_set k v ((k', v') # d) = (if k = k' then (k, v) # d else (k', v') # dict_set k v d)"

definition dict_keys :: "('k \<times> 'v) list \<Rightarrow> 'k list" where
  "dict_keys d = map fst d"

definition dict_values :: "('k \<times> 'v) list \<Rightarrow> 'v list" where
  "dict_values d = map snd d"

lemma map_of_dict_set [simp]: "map_of (dict_set k v d) = (map_of d)(k \<mapsto> v)"
  by (induction d) auto

lemma dict_keys_set:
  "dict_keys (dict_set k v d) = (if k \<in> set (dict_keys d) then dict_keys d else dict_keys d @ [k])"
  by (induction d) (auto simp: dict_keys_def rev_image_eqI)

lemma distinct_dict_set: "distinct (dict_keys d) \<Longrightarrow> distinct (dict_keys (dict_set k v d))"
  by (simp add: dict_keys_set)

lemma dict_keys_dom: "set (dict_keys d) = dom (map_of d)"
  by (simp add: dict_keys_def dom_map_of_conv_image_fst)

section \<open>JSON values\<close>

datatype json =
    JNull
  | JBool bool
  | JInt int
  | JFloat real
  | JStr string
  | JList "json list"
  | JObj "(string \<times> json) list"

section \<open>Lemmas on results\<close>

lemma rbind_Inr_iff [result_simps]:
  "rbind r f = Inr y \<longleftrightarrow> (\<exists>x. r = Inr x \<and> f x = Inr y)"
  by (cases r) auto

lemma rbind_Inl_iff [result_simps]:
  "rbind r f = Inl e \<longleftrightarrow> r = Inl e \<or> (\<exists>x. r = Inr x \<and> f x = Inl e)"
  by (cases r) auto

lemma rmapM_Inr_iff: "rmapM f xs = Inr ys \<longleftrightarrow> list_all2 (\<lambda>x y. f x = Inr y) xs ys"
  by (induction xs arbitrary: ys) (auto simp: result_simps list_all2_Cons1)

lemma rmapM_total:
  "(\<And>x. x \<in> set xs \<Longrightarrow> f x = Inr (g x)) \<Longrightarrow> rmapM f xs = Inr (map g xs)"
  by (induction xs) auto

lemma rmapM_exists:
  assumes "\<And>x. x \<in> set xs \<Longrightarrow> \<exists>y. f x = Inr y \<and> P x y"
  shows "\<exists>ys. rmapM f xs = Inr ys \<and> list_all2 P xs ys"
  using assms
proof (induction xs)
  case Nil
  show ?case by simp
next
  case (Cons x xs)
  obtain y where y: "f x = Inr y" "P x y" using Cons.prems by force
  obtain ys where "rmapM f xs = Inr ys" "list_all2 P xs ys" using Cons by force
  with y show ?case by (intro exI [of _ "y # ys"]) simp
qed

lemma rmapM_Inl:
  "xs \<noteq> [] \<Longrightarrow> (\<And>x. x \<in> set xs \<Longrightarrow> f x = Inl e) \<Longrightarrow> rmapM f xs = Inl e"
  by (cases xs) auto

section \<open>Lemmas on vectors\<close>

lemma vec_lengths [vec_simps, simp]:
  "length (vscale u k) = length u"
  "length (vadd u v) = min (length u) (length v)"
  "length (vsub u v) = min (length u) (length v)"
  "length (vmin u v) = min (length u) (length v)"
  "length (zeros n) = n"
  "length (zeros_like u) = length u"
  by (simp_all add: vscale_def vadd_def vsub_def vmin_def zeros_def zeros_like_def)

lemma vec_nth [vec_simps, simp]:
  "t < length u \<Longrightarrow> vscale u k ! t = u ! t * k"
  "t < length u \<Longrightarrow> t < length v \<Longrightarrow> vadd u v ! t = u ! t + v ! t"
  "t < length u \<Longrightarrow> t < length v \<Longrightarrow> vsub u v ! t = u ! t - v ! t"
  "t < length u \<Longrightarrow> t < length v \<Longrightarrow> vmin u v ! t = min (u ! t) (v ! t)"
  "t < n \<Longrightarrow> zeros n ! t = 0"
  "t < length u \<Longrightarrow> zeros_like u ! t = 0"
  by (simp_all add: vscale_def vadd_def vsub_def vmin_def zeros_def zeros_like_def)

lemma sum_list_nth_lessThan: "sum_list (v :: real list) = (\<Sum>t<length v. v ! t)"
  by (simp add: sum_list_sum_nth atLeast0LessThan)

lemma sum_list_const_map: "sum_list (map (\<lambda>x. k) xs) = of_nat (length xs) * (k :: real)"
  by (induction xs) (simp_all add: algebra_simps)

lemma sum_list_mult_right: "sum_list (map (\<lambda>x. f x * k) xs) = sum_list (map f xs) * (k :: real)"
  by (induction xs) (simp_all add: algebra_simps)

lemma sum_list_divide_right: "sum_list (map (\<lambda>x. f x / k) xs) = sum_list (map f xs) / (k :: real)"
  by (induction xs) (simp_all add: add_divide_distrib)

lemma sum_list_diff_map:
  "sum_list (map (\<lambda>x. f x - g x) xs) = sum_list (map f xs) - sum_list (map g xs :: real list)"
  by (induction xs) simp_all

lemma sum_list_nonneg_real: "(\<And>x. x \<in> set xs \<Longrightarrow> 0 \<le> f x) \<Longrightarrow> 0 \<le> sum_list (map f xs :: real list)"
  by (induction xs) auto

lemma sum_list_zero_iff:
  "(\<And>x. x \<in> set xs \<Longrightarrow> 0 \<le> f x) \<Longrightarrow>
   (sum_list (map f xs :: real list) = 0) = (\<forall>x\<in>set xs. f x = 0)"
  by (rule sum_list_nonneg_eq_0_iff [of "map f xs", simplified]) auto

text \<open>Sums over consumers and over time steps commute.\<close>

lemma sum_list_sum_swap:
  "sum_list (map (\<lambda>x. \<Sum>t<T. g x t) xs) = (\<Sum>t<T. sum_list (map (\<lambda>x. g x t) xs) :: real)"
  by (induction xs) (simp_all add: sum.distrib)

lemma sum_list_map_rows:
  assumes "\<And>x. x \<in> set xs \<Longrightarrow> length (f x) = T"
  shows "sum_list (map (\<lambda>x. sum_list (f x)) xs) = (\<Sum>t<T. sum_list (map (\<lambda>x. f x ! t) xs) :: real)"
proof -
  have "map (\<lambda>x. sum_list (f x)) xs = map (\<lambda>x. \<Sum>t<T. f x ! t) xs"
    using assms by (simp add: sum_list_nth_lessThan)
  then show ?thesis by (simp only: sum_list_sum_swap)
qed

end
