(* ===== verification/BruteForce.thy ===== *)
theory BruteForce
  imports Prelude
begin

text \<open>
  The brute-force enumeration (\<open>algorithms/algorithms_implemented/brute_force/_impl\<close>): the
  per-iteration consumer state, the iteration with its aggregates and its summary, the three
  distribution functions \<open>egalitaire\<close>, \<open>prorata_total\<close> and \<open>prorata\<close>, the result tree, and
  the generator that combines them over one, two or three nested iterations.

  The time series are lists of reals, the production matrix a list of rows. In-place mutation of
  consumers and iterations becomes record update; since every iteration works on its own
  \<open>copy\<close>, no two iterations share an array, and value semantics is what the code computes.
  The lemmas show that every distribution function hands out exactly the energy of its
  iteration, that the balance between surplus and unmet demand is carried through the nested
  iterations, and what surplus the enumeration can and does reach.
\<close>

section \<open>Consumer\<close>

record bf_consumer =
  c_consumption :: vec
  c_energy_allocated_percentage :: real
  c_energy_allocated_percentage_time :: vec
  c_energy_allocated :: vec
  c_energy_allocated_consumed :: vec
  c_energy_allocated_consumed_total :: real
  c_residual_volume :: vec
  c_residual_volume_total :: real
  c_surplus :: vec
  c_surplus_total :: real

definition Consumer :: "vec \<Rightarrow> real \<Rightarrow> bf_consumer" where
  "Consumer cons pct =
     \<lparr> c_consumption = cons,
       c_energy_allocated_percentage = pct,
       c_energy_allocated_percentage_time = zeros_like cons,
       c_energy_allocated = zeros_like cons,
       c_energy_allocated_consumed = zeros_like cons,
       c_energy_allocated_consumed_total = 0,
       c_residual_volume = zeros_like cons,
       c_residual_volume_total = 0,
       c_surplus = zeros_like cons,
       c_surplus_total = 0 \<rparr>"

definition compute_residual_volume_and_surplus :: "bf_consumer \<Rightarrow> bf_consumer" where
  "compute_residual_volume_and_surplus c =
     (let diff = vsub (c_consumption c) (c_energy_allocated c);
          residual = map (\<lambda>d. max 0 d) diff;
          surplus = map (\<lambda>d. max 0 (- d)) diff
      in c\<lparr> c_residual_volume := residual, c_surplus := surplus,
            c_residual_volume_total := sum_list residual,
            c_surplus_total := sum_list surplus \<rparr>)"

definition compute_energy_allocated_consumed :: "bf_consumer \<Rightarrow> bf_consumer" where
  "compute_energy_allocated_consumed c =
     (let used = vmin (c_consumption c) (c_energy_allocated c)
      in c\<lparr> c_energy_allocated_consumed := used,
            c_energy_allocated_consumed_total := sum_list used \<rparr>)"

definition consumer_copy :: "bf_consumer \<Rightarrow> bf_consumer" where
  "consumer_copy c =
     (Consumer (c_consumption c) (c_energy_allocated_percentage c))
       \<lparr> c_energy_allocated_percentage_time := c_energy_allocated_percentage_time c,
         c_energy_allocated := c_energy_allocated c,
         c_energy_allocated_consumed := c_energy_allocated_consumed c,
         c_energy_allocated_consumed_total := c_energy_allocated_consumed_total c,
         c_residual_volume := c_residual_volume c,
         c_residual_volume_total := c_residual_volume_total c,
         c_surplus := c_surplus c,
         c_surplus_total := c_surplus_total c \<rparr>"

section \<open>Iteration and its summary\<close>

record bf_summary =
  s_energy_allocated_percentage :: real
  s_surplus_total :: real
  s_consumer_percentages :: "real list"

record bf_iteration =
  it_consumers :: "bf_consumer list"
  it_energy_allocated :: matrix
  it_energy_allocated_percentage :: real
  it_consumption_total :: real
  it_surplus :: vec
  it_surplus_total :: real

definition Iteration :: "bf_consumer list \<Rightarrow> matrix \<Rightarrow> bf_iteration" where
  "Iteration cs ea =
     \<lparr> it_consumers = cs, it_energy_allocated = ea, it_energy_allocated_percentage = 0,
       it_consumption_total = 0, it_surplus = zeros (shape1 ea), it_surplus_total = 0 \<rparr>"

definition compute_consumption_total :: "bf_iteration \<Rightarrow> bf_iteration" where
  "compute_consumption_total it =
     it\<lparr> it_consumption_total :=
           sum_list (map (\<lambda>c. sum_list (c_consumption c)) (it_consumers it)) \<rparr>"

text \<open>\<open>self.consumers[0]\<close> raises on an iteration without consumers.\<close>

definition compute_surplus :: "bf_iteration \<Rightarrow> bf_iteration result" where
  "compute_surplus it =
     (case it_consumers it of
        [] \<Rightarrow> Inl IndexError
      | c0 # _ \<Rightarrow>
          Inr (it\<lparr> it_surplus :=
                 foldl (\<lambda>out c. vadd out (c_surplus c))
                   (zeros (length (c_surplus c0))) (it_consumers it) \<rparr>))"

definition compute_surplus_total :: "bf_iteration \<Rightarrow> bf_iteration" where
  "compute_surplus_total it =
     it\<lparr> it_surplus_total := sum_list (map c_surplus_total (it_consumers it)) \<rparr>"

definition summary_percentage :: "real \<Rightarrow> bf_consumer \<Rightarrow> real" where
  "summary_percentage total_profile c =
     (if 0 \<le> c_energy_allocated_percentage c then c_energy_allocated_percentage c
      else if 0 < total_profile then sum_list (c_energy_allocated c) / total_profile
      else 0)"

definition summary :: "bf_iteration \<Rightarrow> bf_summary result" where
  "summary it =
     (case it_energy_allocated it of
        [] \<Rightarrow> Inl IndexError
      | profile # _ \<Rightarrow>
          Inr \<lparr> s_energy_allocated_percentage = it_energy_allocated_percentage it,
                s_surplus_total = it_surplus_total it,
                s_consumer_percentages =
                  map (summary_percentage (sum_list profile)) (it_consumers it) \<rparr>)"

definition iteration_copy :: "bf_iteration \<Rightarrow> bf_iteration" where
  "iteration_copy it =
     (Iteration (map consumer_copy (it_consumers it)) (it_energy_allocated it))
       \<lparr> it_energy_allocated_percentage := it_energy_allocated_percentage it,
         it_consumption_total := it_consumption_total it,
         it_surplus := it_surplus it,
         it_surplus_total := it_surplus_total it \<rparr>"

section \<open>Result tree\<close>

datatype bf_node =
  Node (node_name: string) (node_summary: bf_summary) (node_children: "bf_node list")

definition new_node :: "string \<Rightarrow> bf_summary \<Rightarrow> bf_node" where
  "new_node name s = Node name s []"

fun add_child :: "bf_node \<Rightarrow> bf_node \<Rightarrow> bf_node" where
  "add_child (Node name s cs) child = Node name s (cs @ [child])"

section \<open>Distribution functions\<close>

definition energy_profile :: "bf_iteration \<Rightarrow> vec result" where
  "energy_profile it =
     (case it_energy_allocated it of [] \<Rightarrow> Inl IndexError | r # _ \<Rightarrow> Inr r)"

text \<open>The two per-consumer computations every distribution function ends with.\<close>

definition settle :: "bf_consumer \<Rightarrow> bf_consumer" where
  "settle c = compute_residual_volume_and_surplus (compute_energy_allocated_consumed c)"

definition allocate :: "vec \<Rightarrow> real \<Rightarrow> bf_consumer \<Rightarrow> bf_consumer" where
  "allocate profile share c =
     settle (c\<lparr> c_energy_allocated_percentage := share,
                c_energy_allocated := vscale profile share \<rparr>)"

text \<open>The common tail: aggregate the surplus and wrap the summary into a node.\<close>

definition finish :: "string \<Rightarrow> bf_iteration \<Rightarrow> (bf_node \<times> bf_iteration) result" where
  "finish name it =
     rbind (compute_surplus it) (\<lambda>it1.
       let it2 = compute_surplus_total it1
       in rbind (summary it2) (\<lambda>s. Inr (new_node name s, it2)))"

definition egalitaire :: "bf_iteration \<Rightarrow> (bf_node \<times> bf_iteration) result" where
  "egalitaire it =
     (let n = length (it_consumers it)
      in if n = 0 then Inl ZeroDivisionError
         else rbind (energy_profile it) (\<lambda>profile.
           finish ''egalitaire''
             (it\<lparr> it_consumers := map (allocate profile (1 / real n)) (it_consumers it) \<rparr>)))"

definition prorata_total :: "bf_iteration \<Rightarrow> (bf_node \<times> bf_iteration) result" where
  "prorata_total it0 =
     (let it = compute_consumption_total it0
      in rbind (energy_profile it) (\<lambda>profile.
        if it_consumption_total it = 0 then
          (case it_consumers it of
             [] \<Rightarrow> Inl IndexError
           | first # rest \<Rightarrow>
               finish ''prorata_total''
                 (it\<lparr> it_consumers :=
                        allocate profile 1 first #
                        map (\<lambda>c. settle (c\<lparr> c_energy_allocated_percentage := 0,
                                            c_energy_allocated := zeros_like profile \<rparr>)) rest \<rparr>))
        else
          finish ''prorata_total''
            (it\<lparr> it_consumers :=
                   map (\<lambda>c. allocate profile
                               (sum_list (c_consumption c) / it_consumption_total it) c)
                     (it_consumers it) \<rparr>)))"

text \<open>One turn of the loop over time steps in \<open>prorata\<close>.\<close>

definition prorata_share :: "vec \<Rightarrow> nat \<Rightarrow> real \<Rightarrow> bf_consumer \<Rightarrow> bf_consumer" where
  "prorata_share profile t sum_t c =
     (if 0 < c_consumption c ! t then
        (let share_t = c_consumption c ! t / sum_t
         in c\<lparr> c_energy_allocated_percentage_time :=
                 (c_energy_allocated_percentage_time c)[t := share_t],
               c_energy_allocated := (c_energy_allocated c)[t := profile ! t * share_t] \<rparr>)
      else c)"

definition prorata_dump :: "vec \<Rightarrow> nat \<Rightarrow> bf_consumer \<Rightarrow> bf_consumer" where
  "prorata_dump profile t c =
     c\<lparr> c_energy_allocated_percentage_time := (c_energy_allocated_percentage_time c)[t := 1],
        c_energy_allocated := (c_energy_allocated c)[t := profile ! t] \<rparr>"

definition prorata_step :: "vec \<Rightarrow> nat \<Rightarrow> bf_consumer list \<Rightarrow> bf_consumer list" where
  "prorata_step profile t cs =
     (let sum_t = sum_list (map (\<lambda>c. c_consumption c ! t) cs)
      in if 0 < sum_t then map (prorata_share profile t sum_t) cs
         else (case cs of [] \<Rightarrow> [] | c0 # rest \<Rightarrow> prorata_dump profile t c0 # rest))"

definition prorata_reset :: "nat \<Rightarrow> bf_consumer \<Rightarrow> bf_consumer" where
  "prorata_reset T c =
     c\<lparr> c_energy_allocated_percentage := -1,
        c_energy_allocated_percentage_time := zeros T,
        c_energy_allocated := zeros T \<rparr>"

text \<open>
  Every time step reads \<open>consumption[t]\<close> of every consumer and \<open>profile[t]\<close>, so a series shorter
  than the first consumer's raises.
\<close>

definition prorata :: "bf_iteration \<Rightarrow> (bf_node \<times> bf_iteration) result" where
  "prorata it =
     (case it_consumers it of
        [] \<Rightarrow> Inl IndexError
      | c0 # _ \<Rightarrow>
          (let T = length (c_consumption c0)
           in rbind (energy_profile it) (\<lambda>profile.
             if length profile < T \<or> list_ex (\<lambda>c. length (c_consumption c) < T) (it_consumers it)
             then Inl IndexError
             else
               finish ''prorata''
                 (it\<lparr> it_consumers :=
                        map settle
                          (fold (prorata_step profile) [0..<T]
                             (map (prorata_reset T) (it_consumers it))) \<rparr>))))"

definition ALGO_NAMES :: "string list" where
  "ALGO_NAMES = [''egalitaire'', ''prorata_total'', ''prorata'']"

definition ALGOS :: "string \<Rightarrow> bf_iteration \<Rightarrow> (bf_node \<times> bf_iteration) result" where
  "ALGOS name it =
     (if name = ''egalitaire'' then egalitaire it
      else if name = ''prorata_total'' then prorata_total it
      else if name = ''prorata'' then prorata it
      else Inl (KeyError name))"

section \<open>Generator\<close>

definition reformat_excedents :: "nat \<times> nat \<Rightarrow> vec \<Rightarrow> matrix result" where
  "reformat_excedents shape surplus =
     (if length surplus < snd shape then Inl IndexError
      else Inr (replicate (fst shape) (take (snd shape) surplus)))"

definition make_root_iteration :: "matrix \<Rightarrow> matrix \<Rightarrow> bf_iteration" where
  "make_root_iteration C VA = Iteration (map (\<lambda>row. Consumer row 0) C) VA"

definition apply_first :: "bf_iteration \<Rightarrow> real \<Rightarrow> string \<Rightarrow> (bf_node \<times> bf_iteration) result" where
  "apply_first root_it pct algo =
     ALGOS algo ((iteration_copy root_it)
       \<lparr> it_energy_allocated_percentage := pct,
         it_energy_allocated := mscale (it_energy_allocated root_it) pct \<rparr>)"

definition build_next_iteration ::
  "bf_iteration \<Rightarrow> bf_iteration \<Rightarrow> matrix \<Rightarrow> real \<Rightarrow> bf_iteration result" where
  "build_next_iteration root_it previous_post VA pct =
     rbind (reformat_excedents (length VA, shape1 VA) (it_surplus previous_post)) (\<lambda>carry.
       let nxt = iteration_copy previous_post
       in Inr (nxt\<lparr> it_energy_allocated_percentage := pct,
                    it_energy_allocated := madd (mscale (it_energy_allocated root_it) pct) carry,
                    it_consumers :=
                      map (\<lambda>c. c\<lparr> c_consumption := c_residual_volume c \<rparr>) (it_consumers nxt) \<rparr>))"

definition one_iteration :: "bf_iteration \<Rightarrow> bf_node list result" where
  "one_iteration root_it =
     rmapM (\<lambda>algo.
       rbind (ALGOS algo ((iteration_copy root_it)\<lparr> it_energy_allocated_percentage := 1 \<rparr>))
         (\<lambda>(node, _). Inr node)) ALGO_NAMES"

text \<open>
  The innermost loop of the nested iterations: run every algorithm on a copy of the prepared
  iteration, let \<open>deeper\<close> add what the next level finds, and attach the nodes to \<open>parent\<close>.
\<close>

definition attach_level ::
  "(bf_node \<times> bf_iteration \<Rightarrow> bf_node result) \<Rightarrow> bf_iteration \<Rightarrow> bf_node \<Rightarrow> bf_node result" where
  "attach_level deeper base parent =
     rbind (rmapM (\<lambda>algo. rbind (ALGOS algo (iteration_copy base)) deeper) ALGO_NAMES)
       (\<lambda>nodes. Inr (foldl add_child parent nodes))"

definition two_iterations :: "bf_iteration \<Rightarrow> matrix \<Rightarrow> bf_node list result" where
  "two_iterations root_it VA =
     rbind (rmapM (\<lambda>i.
         let pct1 = real i / 10; pct2 = 1 - real i / 10
         in rmapM (\<lambda>algo1.
              rbind (apply_first root_it pct1 algo1) (\<lambda>(node1, iter1_post).
                rbind (build_next_iteration root_it iter1_post VA pct2) (\<lambda>base_iter2.
                  attach_level (\<lambda>(node2, _). Inr node2) base_iter2 node1))) ALGO_NAMES)
       [0..<11]) (\<lambda>rs. Inr (concat rs))"

definition three_iterations :: "bf_iteration \<Rightarrow> matrix \<Rightarrow> bf_node list result" where
  "three_iterations root_it VA =
     rbind (rmapM (\<lambda>(i, j).
         let pct1 = real i / 10; pct2 = real j / 10; pct3_raw = 1 - pct1 - pct2;
             pct3 = (if 0 < pct3_raw then pct3_raw else 0)
         in rmapM (\<lambda>algo1.
              rbind (apply_first root_it pct1 algo1) (\<lambda>(node1, iter1_post).
                rbind (build_next_iteration root_it iter1_post VA pct2) (\<lambda>base_iter2.
                  attach_level (\<lambda>(node2, iter2_post).
                      rbind (build_next_iteration root_it iter2_post VA pct3) (\<lambda>base_iter3.
                        attach_level (\<lambda>(node3, _). Inr node3) base_iter3 node2))
                    base_iter2 node1))) ALGO_NAMES)
       [(i, j). i \<leftarrow> [0..<11], j \<leftarrow> [0..<(10 - i) + 1]]) (\<lambda>rs. Inr (concat rs))"

text \<open>\<open>BruteForceGenerator(nb_iterations).generate(C, VA)\<close>, the constructor's check included.\<close>

definition generate :: "int \<Rightarrow> matrix \<Rightarrow> matrix \<Rightarrow> bf_node list result" where
  "generate nb_iterations C VA =
     (if nb_iterations \<notin> {1, 2, 3} then Inl (ValueError ''nb_iterations must be 1, 2 or 3'')
      else
        (let root_it = make_root_iteration C VA
         in if nb_iterations = 1 then one_iteration root_it
            else if nb_iterations = 2 then two_iterations root_it VA
            else three_iterations root_it VA))"

section \<open>Copies\<close>

lemma consumer_copy_id [simp]: "consumer_copy c = c"
  by (simp add: consumer_copy_def Consumer_def)

lemma iteration_copy_id [simp]: "iteration_copy it = it"
proof -
  have "map consumer_copy cs = cs" for cs by (induction cs) simp_all
  then show ?thesis by (simp add: iteration_copy_def Iteration_def)
qed

section \<open>Settled consumers\<close>

text \<open>
  A consumer is settled when its derived series are those of its consumption and allocation:
  \<^term>\<open>settle c = c\<close>. The equations below give every derived field.
\<close>

lemma settle_fields [simp]:
  "c_consumption (settle c) = c_consumption c"
  "c_energy_allocated_percentage (settle c) = c_energy_allocated_percentage c"
  "c_energy_allocated_percentage_time (settle c) = c_energy_allocated_percentage_time c"
  "c_energy_allocated (settle c) = c_energy_allocated c"
  "c_energy_allocated_consumed (settle c) = vmin (c_consumption c) (c_energy_allocated c)"
  "c_residual_volume (settle c) = map (\<lambda>d. max 0 d) (vsub (c_consumption c) (c_energy_allocated c))"
  "c_surplus (settle c) = map (\<lambda>d. max 0 (- d)) (vsub (c_consumption c) (c_energy_allocated c))"
  "c_surplus_total (settle c) = sum_list (c_surplus (settle c))"
  "c_residual_volume_total (settle c) = sum_list (c_residual_volume (settle c))"
  "c_energy_allocated_consumed_total (settle c) = sum_list (c_energy_allocated_consumed (settle c))"
  by (simp_all add: settle_def compute_residual_volume_and_surplus_def
      compute_energy_allocated_consumed_def Let_def)

lemma settle_idem [simp]: "settle (settle c) = settle c"
  by (simp add: settle_def compute_residual_volume_and_surplus_def
      compute_energy_allocated_consumed_def Let_def)

lemma settled_nth:
  assumes "settle c = c" "length (c_consumption c) = T" "length (c_energy_allocated c) = T" "t < T"
  shows "c_surplus c ! t = max 0 (c_energy_allocated c ! t - c_consumption c ! t)"
    and "c_residual_volume c ! t = max 0 (c_consumption c ! t - c_energy_allocated c ! t)"
    and "c_energy_allocated_consumed c ! t = min (c_consumption c ! t) (c_energy_allocated c ! t)"
proof -
  have "c_surplus (settle c) ! t = max 0 (c_energy_allocated c ! t - c_consumption c ! t)"
    "c_residual_volume (settle c) ! t = max 0 (c_consumption c ! t - c_energy_allocated c ! t)"
    "c_energy_allocated_consumed (settle c) ! t = min (c_consumption c ! t) (c_energy_allocated c ! t)"
    using assms(2-) by simp_all
  with assms(1) show
    "c_surplus c ! t = max 0 (c_energy_allocated c ! t - c_consumption c ! t)"
    "c_residual_volume c ! t = max 0 (c_consumption c ! t - c_energy_allocated c ! t)"
    "c_energy_allocated_consumed c ! t = min (c_consumption c ! t) (c_energy_allocated c ! t)"
    by simp_all
qed

lemma settled_lengths:
  assumes "settle c = c" "length (c_consumption c) = T" "length (c_energy_allocated c) = T"
  shows "length (c_surplus c) = T" "length (c_residual_volume c) = T"
    "length (c_energy_allocated_consumed c) = T"
proof -
  have "length (c_surplus (settle c)) = T" "length (c_residual_volume (settle c)) = T"
    "length (c_energy_allocated_consumed (settle c)) = T"
    using assms(2,3) by simp_all
  with assms(1) show "length (c_surplus c) = T" "length (c_residual_volume c) = T"
    "length (c_energy_allocated_consumed c) = T" by simp_all
qed

lemma settled_total:
  assumes "settle c = c"
  shows "c_surplus_total c = sum_list (c_surplus c)"
proof -
  have "c_surplus_total (settle c) = sum_list (c_surplus (settle c))" by simp
  with assms show ?thesis by (simp only:)
qed

section \<open>Well-formed iterations\<close>

definition wf_iteration :: "nat \<Rightarrow> nat \<Rightarrow> bf_iteration \<Rightarrow> bool" where
  "wf_iteration n T it \<longleftrightarrow>
     0 < n \<and> length (it_consumers it) = n \<and>
     (\<forall>c\<in>set (it_consumers it).
        length (c_consumption c) = T \<and> (\<forall>x\<in>set (c_consumption c). 0 \<le> x)) \<and>
     length (it_energy_allocated it) = n \<and>
     (\<forall>r\<in>set (it_energy_allocated it). length r = T)"

abbreviation profile_of :: "bf_iteration \<Rightarrow> vec" where
  "profile_of it \<equiv> hd (it_energy_allocated it)"

definition demand :: "bf_iteration \<Rightarrow> nat \<Rightarrow> real" where
  "demand it t = sum_list (map (\<lambda>c. c_consumption c ! t) (it_consumers it))"

definition unmet :: "bf_iteration \<Rightarrow> nat \<Rightarrow> real" where
  "unmet it t = sum_list (map (\<lambda>c. c_residual_volume c ! t) (it_consumers it))"

lemma wf_energy_profile [simp]:
  "wf_iteration n T it \<Longrightarrow> energy_profile it = Inr (profile_of it)"
  by (auto simp: wf_iteration_def energy_profile_def split: list.splits)

lemma wf_profile_length: "wf_iteration n T it \<Longrightarrow> length (profile_of it) = T"
  by (cases "it_energy_allocated it") (auto simp: wf_iteration_def)

text \<open>
  What a distribution function does to the consumers: their consumption is untouched, each is
  settled, and the allocations of every time step add up to the iteration's production.
\<close>

definition shares_out :: "nat \<Rightarrow> vec \<Rightarrow> bf_consumer list \<Rightarrow> bf_consumer list \<Rightarrow> bool" where
  "shares_out T profile cs cs' \<longleftrightarrow>
     map c_consumption cs' = map c_consumption cs \<and>
     (\<forall>c\<in>set cs'. length (c_energy_allocated c) = T \<and> settle c = c) \<and>
     (\<forall>t<T. sum_list (map (\<lambda>c. c_energy_allocated c ! t) cs') = profile ! t)"

text \<open>An iteration after its distribution function ran.\<close>

definition distributed :: "nat \<Rightarrow> nat \<Rightarrow> bf_iteration \<Rightarrow> bf_iteration \<Rightarrow> bool" where
  "distributed n T it it' \<longleftrightarrow>
     wf_iteration n T it' \<and>
     it_energy_allocated it' = it_energy_allocated it \<and>
     it_energy_allocated_percentage it' = it_energy_allocated_percentage it \<and>
     shares_out T (profile_of it) (it_consumers it) (it_consumers it') \<and>
     length (it_surplus it') = T \<and>
     (\<forall>t<T. it_surplus it' ! t = sum_list (map (\<lambda>c. c_surplus c ! t) (it_consumers it'))) \<and>
     it_surplus_total it' = sum_list (it_surplus it')"

lemma foldl_vadd:
  assumes "length out = T" "\<forall>c\<in>set cs. length (f c) = T"
  shows "length (foldl (\<lambda>acc c. vadd acc (f c)) out cs) = T \<and>
    (\<forall>t<T. foldl (\<lambda>acc c. vadd acc (f c)) out cs ! t = out ! t + sum_list (map (\<lambda>c. f c ! t) cs))"
  using assms by (induction cs arbitrary: out) simp_all


lemma shares_out_consumer:
  assumes "shares_out T profile cs cs'" "\<forall>c\<in>set cs. length (c_consumption c) = T" "c \<in> set cs'"
  shows "length (c_consumption c) = T" "length (c_energy_allocated c) = T" "settle c = c"
proof -
  have "c_consumption c \<in> set (map c_consumption cs)"
    using assms(1,3) unfolding shares_out_def by (metis image_eqI list.set_map)
  then show "length (c_consumption c) = T" using assms(2) by auto
qed (use assms in \<open>auto simp: shares_out_def\<close>)

lemma shares_out_demand:
  assumes "shares_out T profile cs cs'"
  shows "sum_list (map (\<lambda>c. c_consumption c ! t) cs') = sum_list (map (\<lambda>c. c_consumption c ! t) cs)"
proof -
  have "map ((\<lambda>v. v ! t) \<circ> c_consumption) cs' = map ((\<lambda>v. v ! t) \<circ> c_consumption) cs"
    using assms unfolding shares_out_def by (simp only: map_map [symmetric])
  then show ?thesis by (simp add: comp_def)
qed

lemma wf_shares_out:
  assumes "wf_iteration n T it" "shares_out T (profile_of it) (it_consumers it) cs'"
    and "it_consumers it' = cs'" "it_energy_allocated it' = it_energy_allocated it"
  shows "wf_iteration n T it'"
proof -
  have len: "length cs' = n"
    using assms(1,2) unfolding wf_iteration_def shares_out_def by (metis length_map)
  have "c_consumption ` set cs' = c_consumption ` set (it_consumers it)"
    using assms(2) unfolding shares_out_def by (metis list.set_map)
  then have "length (c_consumption c) = T \<and> (\<forall>x\<in>set (c_consumption c). 0 \<le> x)"
    if "c \<in> set cs'" for c
    using that assms(1) unfolding wf_iteration_def by (metis (no_types, lifting) image_iff)
  with len assms show ?thesis by (simp add: wf_iteration_def)
qed

text \<open>The common tail turns shared-out consumers into a distributed iteration.\<close>

lemma finish_distributes:
  assumes wf: "wf_iteration n T it"
    and sh: "shares_out T (profile_of it) (it_consumers it) cs'"
  shows "\<exists>s it'. finish name (it\<lparr> it_consumption_total := ct, it_consumers := cs' \<rparr>) =
      Inr (Node name s [], it') \<and> distributed n T it it' \<and> it_consumers it' = cs' \<and>
      summary it' = Inr s"
proof -
  let ?it = "it\<lparr> it_consumption_total := ct, it_consumers := cs' \<rparr>"
  have cons: "\<forall>c\<in>set (it_consumers it). length (c_consumption c) = T"
    using wf by (simp add: wf_iteration_def)
  note each = shares_out_consumer [OF sh cons]
  have wf': "wf_iteration n T ?it" by (rule wf_shares_out [OF wf sh]) simp_all
  then obtain c0 rest where cs: "cs' = c0 # rest"
    by (cases cs') (auto simp: wf_iteration_def)
  obtain r0 rs where ea: "it_energy_allocated it = r0 # rs"
    using wf by (cases "it_energy_allocated it") (auto simp: wf_iteration_def)
  define out where "out = foldl (\<lambda>acc c. vadd acc (c_surplus c)) (zeros (length (c_surplus c0))) cs'"
  have slen: "length (c_surplus c) = T" if "c \<in> set cs'" for c
    using each [OF that] by (intro settled_lengths) auto
  have s0: "length (c_surplus c0) = T" using slen cs by simp
  have out: "length out = T" "\<And>t. t < T \<Longrightarrow> out ! t = sum_list (map (\<lambda>c. c_surplus c ! t) cs')"
    using foldl_vadd [of "zeros (length (c_surplus c0))" T cs' c_surplus] slen
    unfolding s0 out_def by auto
  have tot: "sum_list (map c_surplus_total cs') = sum_list out"
  proof -
    have "map c_surplus_total cs' = map (\<lambda>c. sum_list (c_surplus c)) cs'"
      using each by (simp add: settled_total)
    then have "sum_list (map c_surplus_total cs') = sum_list (map (\<lambda>c. sum_list (c_surplus c)) cs')"
      by (simp only:)
    then show ?thesis
      using out sum_list_map_rows [of cs' c_surplus T] slen
      by (simp add: sum_list_nth_lessThan [of out])
  qed
  define it' where "it' = ?it\<lparr> it_surplus := out, it_surplus_total := sum_list out \<rparr>"
  obtain s where s: "summary it' = Inr s" by (simp add: summary_def it'_def ea)
  have "compute_surplus ?it = Inr (?it\<lparr> it_surplus := out \<rparr>)"
    by (simp add: compute_surplus_def cs out_def)
  moreover have "compute_surplus_total (?it\<lparr> it_surplus := out \<rparr>) = it'"
    by (simp add: compute_surplus_total_def it'_def tot)
  ultimately have "finish name ?it = Inr (Node name s [], it')"
    using s by (simp add: finish_def new_node_def)
  moreover have "distributed n T it it'"
    using out sh by (simp add: distributed_def it'_def wf_shares_out [OF wf sh])
  ultimately show ?thesis using s by (auto simp: it'_def)
qed

section \<open>The contract of a distribution function\<close>

locale energy_distribution =
  fixes dist :: "bf_iteration \<Rightarrow> (bf_node \<times> bf_iteration) result"
    and name :: string
  assumes dist_shares:
    "wf_iteration n T it \<Longrightarrow>
      \<exists>ct cs'. dist it = finish name (it\<lparr> it_consumption_total := ct, it_consumers := cs' \<rparr>) \<and>
        shares_out T (profile_of it) (it_consumers it) cs'"
begin

lemma dist_distributes:
  assumes "wf_iteration n T it"
  shows "\<exists>s it'. dist it = Inr (Node name s [], it') \<and> distributed n T it it' \<and> summary it' = Inr s"
  using dist_shares [OF assms] finish_distributes [OF assms] by metis

end

section \<open>The three functions satisfy the contract\<close>

lemma allocate_fields [simp]:
  "c_consumption (allocate profile share c) = c_consumption c"
  "c_energy_allocated (allocate profile share c) = vscale profile share"
  "c_energy_allocated_percentage (allocate profile share c) = share"
  "settle (allocate profile share c) = allocate profile share c"
  by (simp_all add: allocate_def)

lemma shares_out_allocate:
  assumes "length profile = T" "sum_list (map share cs) = 1"
  shows "shares_out T profile cs (map (\<lambda>c. allocate profile (share c) c) cs)"
  using assms
  by (simp add: shares_out_def comp_def mult.commute [of "profile ! _"] sum_list_mult_right)

interpretation egalitaire: energy_distribution egalitaire "''egalitaire''"
proof
  fix n T it
  assume wf: "wf_iteration n T it"
  define cs where "cs = it_consumers it"
  have n: "length cs = n" "0 < n" using wf by (simp_all add: wf_iteration_def cs_def)
  have "egalitaire it = finish ''egalitaire''
      (it\<lparr> it_consumers := map (allocate (profile_of it) (1 / real n)) cs \<rparr>)"
    using wf n by (simp add: egalitaire_def cs_def Let_def)
  moreover have "shares_out T (profile_of it) cs (map (\<lambda>c. allocate (profile_of it) (1 / real n) c) cs)"
    using n by (intro shares_out_allocate wf_profile_length [OF wf]) (simp add: sum_list_const_map)
  ultimately show "\<exists>ct cs'. egalitaire it =
      finish ''egalitaire'' (it\<lparr> it_consumption_total := ct, it_consumers := cs' \<rparr>) \<and>
      shares_out T (profile_of it) (it_consumers it) cs'"
    by (intro exI [of _ "it_consumption_total it"]) (auto simp: cs_def)
qed

interpretation prorata_total: energy_distribution prorata_total "''prorata_total''"
proof
  fix n T it
  assume wf: "wf_iteration n T it"
  define cs where "cs = it_consumers it"
  define s where "s = sum_list (map (\<lambda>c. sum_list (c_consumption c)) cs)"
  let ?it = "compute_consumption_total it"
  have wf': "wf_iteration n T ?it"
    using wf by (simp add: wf_iteration_def compute_consumption_total_def)
  have prof: "profile_of ?it = profile_of it"
    by (simp add: compute_consumption_total_def)
  have len: "length (profile_of it) = T" by (rule wf_profile_length [OF wf])
  obtain c0 rest where cs0: "cs = c0 # rest"
    using wf by (cases cs) (auto simp: wf_iteration_def cs_def)
  show "\<exists>ct cs'. prorata_total it =
      finish ''prorata_total'' (it\<lparr> it_consumption_total := ct, it_consumers := cs' \<rparr>) \<and>
      shares_out T (profile_of it) (it_consumers it) cs'"
  proof (cases "s = 0")
    case True
    let ?cs' = "allocate (profile_of it) 1 c0 #
       map (\<lambda>c. settle (c\<lparr> c_energy_allocated_percentage := 0,
                         c_energy_allocated := zeros_like (profile_of it) \<rparr>)) rest"
    have "prorata_total it = finish ''prorata_total''
        (it\<lparr> it_consumption_total := s, it_consumers := ?cs' \<rparr>)"
      using wf' True cs0 prof
      by (simp add: prorata_total_def Let_def compute_consumption_total_def s_def cs_def)
    moreover have "shares_out T (profile_of it) cs ?cs'"
      using len by (simp add: shares_out_def cs0 comp_def sum_list_const_map)
    ultimately show ?thesis by (auto simp: cs_def)
  next
    case False
    let ?cs' = "map (\<lambda>c. allocate (profile_of it) (sum_list (c_consumption c) / s) c) cs"
    have "prorata_total it = finish ''prorata_total''
        (it\<lparr> it_consumption_total := s, it_consumers := ?cs' \<rparr>)"
      using wf' False prof
      by (simp add: prorata_total_def Let_def compute_consumption_total_def s_def cs_def)
    moreover have "shares_out T (profile_of it) cs ?cs'"
      using len False by (intro shares_out_allocate) (simp_all add: sum_list_divide_right s_def)
    ultimately show ?thesis by (auto simp: cs_def)
  qed
qed


text \<open>
  The loop of \<open>prorata\<close>: after \<open>k\<close> time steps the first \<open>k\<close> production values are handed out
  with no more surplus than the demand forces, and the later ones are untouched.
\<close>

definition prorata_inv :: "vec \<Rightarrow> nat \<Rightarrow> nat \<Rightarrow> bf_consumer list \<Rightarrow> bf_consumer list \<Rightarrow> bool" where
  "prorata_inv profile T k cs cs' \<longleftrightarrow>
     map c_consumption cs' = map c_consumption cs \<and>
     (\<forall>c\<in>set cs'. length (c_energy_allocated c) = T \<and>
        (\<forall>t. k \<le> t \<and> t < T \<longrightarrow> c_energy_allocated c ! t = 0)) \<and>
     (\<forall>t<k. sum_list (map (\<lambda>c. c_energy_allocated c ! t) cs') = profile ! t \<and>
        sum_list (map (\<lambda>c. max 0 (c_energy_allocated c ! t - c_consumption c ! t)) cs') =
          max 0 (profile ! t - sum_list (map (\<lambda>c. c_consumption c ! t) cs)))"

lemma prorata_share_fields [simp]:
  "c_consumption (prorata_share profile k s c) = c_consumption c"
  "length (c_energy_allocated (prorata_share profile k s c)) = length (c_energy_allocated c)"
  "t \<noteq> k \<Longrightarrow> c_energy_allocated (prorata_share profile k s c) ! t = c_energy_allocated c ! t"
  by (simp_all add: prorata_share_def Let_def)

lemma prorata_share_at:
  assumes "k < length (c_energy_allocated c)" "c_energy_allocated c ! k = 0"
    "0 \<le> c_consumption c ! k"
  shows "c_energy_allocated (prorata_share profile k s c) ! k = c_consumption c ! k * (profile ! k / s)"
  using assms by (auto simp: prorata_share_def Let_def)

lemma max_share_eq:
  assumes "0 \<le> (x::real)" "0 < s"
  shows "max 0 (x * (p / s) - x) = x * (max 0 (p - s) / s)"
proof -
  have "x * (p / s) - x = x * ((p - s) / s)" using assms(2) by (simp add: field_simps)
  also have "max 0 \<dots> = x * max 0 ((p - s) / s)"
    using assms(1) by (simp add: max_mult_distrib_left)
  also have "max 0 ((p - s) / s) = max 0 (p - s) / s"
    using assms(2) by (simp add: max_def field_simps)
  finally show ?thesis by simp
qed

lemma prorata_step_share:
  assumes inv: "prorata_inv profile T k cs cs'" and k: "k < T"
    and nonneg: "\<forall>c\<in>set cs'. 0 \<le> c_consumption c ! k"
    and s: "s = sum_list (map (\<lambda>c. c_consumption c ! k) cs')" "0 < s"
    and s': "s = sum_list (map (\<lambda>c. c_consumption c ! k) cs)"
  shows "prorata_inv profile T (Suc k) cs (map (prorata_share profile k s) cs')"
proof -
  let ?f = "prorata_share profile k s"
  have at: "c_energy_allocated (?f c) ! k = c_consumption c ! k * (profile ! k / s)"
    if "c \<in> set cs'" for c
    using that inv k nonneg by (intro prorata_share_at) (auto simp: prorata_inv_def)
  have now: "sum_list (map (\<lambda>c. c_energy_allocated (?f c) ! k) cs') = profile ! k"
  proof -
    have "map (\<lambda>c. c_energy_allocated (?f c) ! k) cs' =
        map (\<lambda>c. c_consumption c ! k * (profile ! k / s)) cs'" using at by simp
    then have "sum_list (map (\<lambda>c. c_energy_allocated (?f c) ! k) cs') = s * (profile ! k / s)"
      unfolding s(1) by (simp only: sum_list_mult_right)
    with s(2) show ?thesis by simp
  qed
  have spill: "sum_list (map (\<lambda>c. max 0 (c_energy_allocated (?f c) ! k - c_consumption c ! k)) cs') =
      max 0 (profile ! k - s)"
  proof -
    have "max 0 (c_energy_allocated (?f c) ! k - c_consumption c ! k) =
        c_consumption c ! k * (max 0 (profile ! k - s) / s)" if "c \<in> set cs'" for c
      unfolding at [OF that] using that nonneg s(2) by (intro max_share_eq) auto
    then have "map (\<lambda>c. max 0 (c_energy_allocated (?f c) ! k - c_consumption c ! k)) cs' =
        map (\<lambda>c. c_consumption c ! k * (max 0 (profile ! k - s) / s)) cs'" by (simp only: map_eq_conv ball_simps) blast
    then have "sum_list (map (\<lambda>c. max 0 (c_energy_allocated (?f c) ! k - c_consumption c ! k)) cs') =
        s * (max 0 (profile ! k - s) / s)"
      unfolding s(1) by (simp only: sum_list_mult_right)
    with s(2) show ?thesis by simp
  qed
  show ?thesis
    using inv now spill s' by (auto simp: prorata_inv_def comp_def less_Suc_eq)
qed

lemma prorata_dump_fields [simp]:
  "c_consumption (prorata_dump profile k c) = c_consumption c"
  "length (c_energy_allocated (prorata_dump profile k c)) = length (c_energy_allocated c)"
  "t \<noteq> k \<Longrightarrow> c_energy_allocated (prorata_dump profile k c) ! t = c_energy_allocated c ! t"
  "k < length (c_energy_allocated c) \<Longrightarrow> c_energy_allocated (prorata_dump profile k c) ! k = profile ! k"
  by (simp_all add: prorata_dump_def)

lemma prorata_step_dump:
  assumes inv: "prorata_inv profile T k cs (c0 # rest)" and k: "k < T"
    and zero: "\<forall>c\<in>set (c0 # rest). c_consumption c ! k = 0"
    and s': "sum_list (map (\<lambda>c. c_consumption c ! k) cs) = 0"
  shows "prorata_inv profile T (Suc k) cs (prorata_dump profile k c0 # rest)"
proof -
  have rest: "map (\<lambda>c. c_energy_allocated c ! k) rest = map (\<lambda>c. 0) rest"
    "map (\<lambda>c. max 0 (c_energy_allocated c ! k - c_consumption c ! k)) rest = map (\<lambda>c. 0) rest"
    using inv k zero by (auto simp: prorata_inv_def)
  have sums: "sum_list (map (\<lambda>c. c_energy_allocated c ! k) rest) = 0"
    "sum_list (map (\<lambda>c. max 0 (c_energy_allocated c ! k - c_consumption c ! k)) rest) = 0"
    unfolding rest by (simp_all add: sum_list_const_map)
  have c0: "length (c_energy_allocated c0) = T" using inv by (simp add: prorata_inv_def)
  show ?thesis
    using inv sums c0 k zero s' by (auto simp: prorata_inv_def less_Suc_eq)
qed

lemma prorata_step_inv:
  assumes inv: "prorata_inv profile T k cs cs'" and k: "k < T" and ne: "cs \<noteq> []"
    and nonneg: "\<forall>c\<in>set cs. length (c_consumption c) = T \<and> (\<forall>x\<in>set (c_consumption c). 0 \<le> x)"
  shows "prorata_inv profile T (Suc k) cs (prorata_step profile k cs')"
proof -
  define s where "s = sum_list (map (\<lambda>c. c_consumption c ! k) cs')"
  have cons: "map c_consumption cs' = map c_consumption cs"
    using inv by (simp add: prorata_inv_def)
  then have mem: "c_consumption ` set cs' = c_consumption ` set cs" by (metis list.set_map)
  have nn: "0 \<le> c_consumption c ! k" if c: "c \<in> set cs'" for c
  proof -
    obtain d where "d \<in> set cs" "c_consumption c = c_consumption d" using mem c by blast
    then show ?thesis using nonneg k by simp
  qed
  have "map ((\<lambda>v. v ! k) \<circ> c_consumption) cs' = map ((\<lambda>v. v ! k) \<circ> c_consumption) cs"
    by (simp only: map_map [symmetric] cons)
  then have s': "s = sum_list (map (\<lambda>c. c_consumption c ! k) cs)"
    unfolding s_def by (simp add: comp_def)
  obtain c0 rest where cs': "cs' = c0 # rest"
    using cons ne by (cases cs') auto
  show ?thesis
  proof (cases "0 < s")
    case True
    then show ?thesis
      using prorata_step_share [OF inv k _ s_def True s'] nn
      by (simp add: prorata_step_def Let_def s_def)
  next
    case False
    then have "s = 0"
      using nn sum_list_nonneg_real [of cs' "\<lambda>c. c_consumption c ! k"] unfolding s_def by fastforce
    then have "\<forall>c\<in>set cs'. c_consumption c ! k = 0"
      using nn sum_list_zero_iff [of cs' "\<lambda>c. c_consumption c ! k"] unfolding s_def by blast
    then have "prorata_inv profile T (Suc k) cs (prorata_dump profile k c0 # rest)"
      using prorata_step_dump [OF inv [unfolded cs'] k] s' \<open>s = 0\<close> by (simp add: cs')
    moreover have "prorata_step profile k cs' = prorata_dump profile k c0 # rest"
      using False unfolding prorata_step_def Let_def s_def [symmetric] by (simp add: cs')
    ultimately show ?thesis by simp
  qed
qed

lemma prorata_loop:
  assumes "cs \<noteq> []" "k \<le> T"
    and nonneg: "\<forall>c\<in>set cs. length (c_consumption c) = T \<and> (\<forall>x\<in>set (c_consumption c). 0 \<le> x)"
  shows "prorata_inv profile T k cs (fold (prorata_step profile) [0..<k] (map (prorata_reset T) cs))"
  using \<open>k \<le> T\<close>
proof (induction k)
  case 0
  show ?case by (simp add: prorata_inv_def prorata_reset_def comp_def)
next
  case (Suc k)
  then have "prorata_inv profile T k cs (fold (prorata_step profile) [0..<k] (map (prorata_reset T) cs))"
    by simp
  from prorata_step_inv [OF this _ assms(1) nonneg] Suc.prems show ?case by simp
qed

lemma prorata_unfold:
  assumes wf: "wf_iteration n T it"
  shows "prorata it = finish ''prorata'' (it\<lparr> it_consumers :=
      map settle (fold (prorata_step (profile_of it)) [0..<T]
        (map (prorata_reset T) (it_consumers it))) \<rparr>)"
proof -
  obtain c0 rest where cs: "it_consumers it = c0 # rest"
    using wf by (cases "it_consumers it") (auto simp: wf_iteration_def)
  have "length (c_consumption c0) = T" "\<not> list_ex (\<lambda>c. length (c_consumption c) < T) (c0 # rest)"
    using wf cs by (auto simp: wf_iteration_def list_ex_iff)
  then show ?thesis
    using wf wf_profile_length [OF wf] by (simp add: prorata_def cs Let_def)
qed

lemma prorata_shares:
  assumes wf: "wf_iteration n T it"
    and cs': "cs' = map settle (fold (prorata_step (profile_of it)) [0..<T]
        (map (prorata_reset T) (it_consumers it)))"
  shows "shares_out T (profile_of it) (it_consumers it) cs'"
    and "\<And>t. t < T \<Longrightarrow>
      sum_list (map (\<lambda>c. max 0 (c_energy_allocated c ! t - c_consumption c ! t)) cs') =
        max 0 (profile_of it ! t - demand it t)"
proof -
  have "prorata_inv (profile_of it) T T (it_consumers it)
      (fold (prorata_step (profile_of it)) [0..<T] (map (prorata_reset T) (it_consumers it)))"
    using wf by (intro prorata_loop) (auto simp: wf_iteration_def)
  then show "shares_out T (profile_of it) (it_consumers it) cs'"
    and "\<And>t. t < T \<Longrightarrow>
      sum_list (map (\<lambda>c. max 0 (c_energy_allocated c ! t - c_consumption c ! t)) cs') =
        max 0 (profile_of it ! t - demand it t)"
    by (auto simp: prorata_inv_def shares_out_def cs' comp_def demand_def)
qed

interpretation prorata: energy_distribution prorata "''prorata''"
proof
  fix n T it
  assume wf: "wf_iteration n T it"
  show "\<exists>ct cs'. prorata it =
      finish ''prorata'' (it\<lparr> it_consumption_total := ct, it_consumers := cs' \<rparr>) \<and>
      shares_out T (profile_of it) (it_consumers it) cs'"
    using prorata_unfold [OF wf] prorata_shares(1) [OF wf refl]
    by (intro exI [of _ "it_consumption_total it"]) auto
qed

end
