(* ===== verification/BruteForceGenerator.thy ===== *)
theory BruteForceGenerator
  imports BruteForce
begin

text \<open>
  Correctness of the brute-force enumeration: the energy balance of one iteration, its transport
  through \<^const>\<open>build_next_iteration\<close>, and the shape of the trees \<^const>\<open>generate\<close> returns.
  The abstract specification is \<open>min_surplus\<close>, the surplus no allocation can avoid, together with
  \<open>plans\<close>, the energy shares the sweep visits.
\<close>

section \<open>Specification\<close>

text \<open>The production that exceeds the whole demand of its time step, summed over time.\<close>

definition min_surplus :: "matrix \<Rightarrow> matrix \<Rightarrow> real" where
  "min_surplus C VA = (\<Sum>t<shape1 VA. max 0 (hd VA ! t - sum_list (map (\<lambda>row. row ! t) C)))"

definition plans :: "int \<Rightarrow> real list list" where
  "plans nb =
     (if nb = 1 then [[1]]
      else if nb = 2 then map (\<lambda>i. [real i / 10, 1 - real i / 10]) [0..<11]
      else map (\<lambda>(i, j). [real i / 10, real j / 10, 1 - real i / 10 - real j / 10])
             [(i, j). i \<leftarrow> [0..<11], j \<leftarrow> [0..<(10 - i) + 1]])"

text \<open>
  A result tree over the shares \<open>plan\<close>: one level per share, three children per inner node, and
  at the leaves a surplus of at least \<open>B\<close>, reached by \<open>prorata\<close>.
\<close>

fun level_ok :: "real \<Rightarrow> real list \<Rightarrow> string \<Rightarrow> bf_node \<Rightarrow> bool" where
  "level_ok B [] algo nd = False"
| "level_ok B [q] algo (Node name s cs) =
     (name = algo \<and> s_energy_allocated_percentage s = q \<and> cs = [] \<and>
      B \<le> s_surplus_total s \<and> (algo = ''prorata'' \<longrightarrow> s_surplus_total s = B))"
| "level_ok B (q # q' # qs) algo (Node name s cs) =
     (name = algo \<and> s_energy_allocated_percentage s = q \<and>
      list_all2 (level_ok B (q' # qs)) ALGO_NAMES cs)"

section \<open>The balance of one iteration\<close>

lemma distributed_consumer:
  assumes "distributed n T it it'" "wf_iteration n T it" "c \<in> set (it_consumers it')"
  shows "length (c_consumption c) = T" "length (c_energy_allocated c) = T" "settle c = c"
  using assms shares_out_consumer [of T "profile_of it" "it_consumers it" "it_consumers it'" c]
  by (auto simp: distributed_def wf_iteration_def)

lemma distributed_surplus_nonneg:
  assumes "distributed n T it it'" "wf_iteration n T it" "t < T"
  shows "0 \<le> it_surplus it' ! t" "0 \<le> unmet it' t"
proof -
  have each: "0 \<le> c_surplus c ! t" "0 \<le> c_residual_volume c ! t" if "c \<in> set (it_consumers it')" for c
    using settled_nth [of c T t] distributed_consumer [OF assms(1,2) that] assms(3) by simp_all
  have "it_surplus it' ! t = sum_list (map (\<lambda>c. c_surplus c ! t) (it_consumers it'))"
    using assms(1,3) by (simp add: distributed_def)
  then show "0 \<le> it_surplus it' ! t" using each(1) by (simp add: sum_list_nonneg_real)
  show "0 \<le> unmet it' t" using each(2) by (simp add: unmet_def sum_list_nonneg_real)
qed

lemma distributed_consumed:
  assumes d: "distributed n T it it'" and wf: "wf_iteration n T it" and t: "t < T"
  shows "sum_list (map (\<lambda>c. c_energy_allocated_consumed c ! t) (it_consumers it')) +
    it_surplus it' ! t = profile_of it ! t"
proof -
  let ?cs = "it_consumers it'"
  have "c_energy_allocated_consumed c ! t = c_energy_allocated c ! t - c_surplus c ! t"
    if "c \<in> set ?cs" for c
    using settled_nth [of c T t] distributed_consumer [OF d wf that] t by (simp add: min_def max_def)
  then have "map (\<lambda>c. c_energy_allocated_consumed c ! t) ?cs =
      map (\<lambda>c. c_energy_allocated c ! t - c_surplus c ! t) ?cs" by simp
  then have "sum_list (map (\<lambda>c. c_energy_allocated_consumed c ! t) ?cs) =
      sum_list (map (\<lambda>c. c_energy_allocated c ! t) ?cs) - sum_list (map (\<lambda>c. c_surplus c ! t) ?cs)"
    by (simp only: sum_list_diff_map)
  then show ?thesis using d t by (simp add: distributed_def shares_out_def)
qed

lemma distributed_balance:
  assumes d: "distributed n T it it'" and wf: "wf_iteration n T it" and t: "t < T"
  shows "it_surplus it' ! t - unmet it' t = profile_of it ! t - demand it t"
proof -
  let ?cs = "it_consumers it'"
  have "c_surplus c ! t - c_residual_volume c ! t = c_energy_allocated c ! t - c_consumption c ! t"
    if "c \<in> set ?cs" for c
    using settled_nth [of c T t] distributed_consumer [OF d wf that] t by (simp add: max_def)
  then have "map (\<lambda>c. c_surplus c ! t - c_residual_volume c ! t) ?cs =
      map (\<lambda>c. c_energy_allocated c ! t - c_consumption c ! t) ?cs" by simp
  then have "sum_list (map (\<lambda>c. c_surplus c ! t) ?cs) - unmet it' t =
      sum_list (map (\<lambda>c. c_energy_allocated c ! t) ?cs) - demand it' t"
    unfolding unmet_def demand_def by (simp only: sum_list_diff_map [symmetric])
  moreover have "demand it' t = demand it t"
    using d shares_out_demand unfolding distributed_def demand_def by blast
  ultimately show ?thesis using d t by (simp add: distributed_def shares_out_def)
qed

section \<open>A distribution that leaves no avoidable surplus\<close>

locale minimal_distribution = energy_distribution +
  assumes dist_minimal:
    "wf_iteration n T it \<Longrightarrow> dist it = Inr (nd, it') \<Longrightarrow> t < T \<Longrightarrow>
      it_surplus it' ! t = max 0 (profile_of it ! t - demand it t)"
begin

lemma dist_surplus_total:
  assumes "wf_iteration n T it" "dist it = Inr (nd, it')"
  shows "it_surplus_total it' = (\<Sum>t<T. max 0 (profile_of it ! t - demand it t))"
proof -
  obtain s it'' where "dist it = Inr (Node name s [], it'')" "distributed n T it it''"
    using dist_distributes [OF assms(1)] by blast
  with assms(2) have d: "distributed n T it it'" by simp
  then have "it_surplus_total it' = (\<Sum>t<T. it_surplus it' ! t)"
    by (simp add: distributed_def sum_list_nth_lessThan)
  then show ?thesis using dist_minimal [OF assms] by simp
qed

end

interpretation prorata_min: minimal_distribution prorata "''prorata''"
proof
  fix n T it nd it' and t :: nat
  assume wf: "wf_iteration n T it" and p: "prorata it = Inr (nd, it')" and t: "t < T"
  let ?cs = "map settle (fold (prorata_step (profile_of it)) [0..<T]
      (map (prorata_reset T) (it_consumers it)))"
  have "\<exists>s it''. prorata it = Inr (Node ''prorata'' s [], it'') \<and> distributed n T it it'' \<and>
      it_consumers it'' = ?cs"
    using finish_distributes [OF wf prorata_shares(1) [OF wf refl], of "''prorata''" "it_consumption_total it"]
    by (auto simp: prorata_unfold [OF wf])
  with p have d: "distributed n T it it'" and cs: "it_consumers it' = ?cs" by auto
  have "c_surplus c ! t = max 0 (c_energy_allocated c ! t - c_consumption c ! t)"
    if "c \<in> set (it_consumers it')" for c
    using settled_nth [of c T t] distributed_consumer [OF d wf that] t by simp
  then have "map (\<lambda>c. c_surplus c ! t) (it_consumers it') =
      map (\<lambda>c. max 0 (c_energy_allocated c ! t - c_consumption c ! t)) (it_consumers it')" by simp
  moreover have "it_surplus it' ! t = sum_list (map (\<lambda>c. c_surplus c ! t) (it_consumers it'))"
    using d t by (simp add: distributed_def)
  ultimately show "it_surplus it' ! t = max 0 (profile_of it ! t - demand it t)"
    using prorata_shares(2) [OF wf cs t] by (simp only:)
qed

section \<open>Stages of the enumeration\<close>

text \<open>
  An iteration that received the share \<open>p\<close> of the root's production so far: its production minus
  its demand is what the root's production, scaled by \<open>p\<close>, leaves of the root's demand.
\<close>

definition stage :: "nat \<Rightarrow> nat \<Rightarrow> bf_iteration \<Rightarrow> real \<Rightarrow> bf_iteration \<Rightarrow> bool" where
  "stage n T root_it p it \<longleftrightarrow> wf_iteration n T it \<and>
     (\<forall>t<T. profile_of it ! t - demand it t = profile_of root_it ! t * p - demand root_it t)"

definition floor_surplus :: "nat \<Rightarrow> bf_iteration \<Rightarrow> real \<Rightarrow> real" where
  "floor_surplus T root_it p = (\<Sum>t<T. max 0 (profile_of root_it ! t * p - demand root_it t))"

lemma stage_first:
  assumes "wf_iteration n T root_it"
  shows "stage n T root_it p (root_it\<lparr> it_energy_allocated_percentage := p,
      it_energy_allocated := mscale (it_energy_allocated root_it) p \<rparr>)"
  using assms
  by (cases "it_energy_allocated root_it")
     (auto simp: stage_def wf_iteration_def mscale_def demand_def)

lemma stage_whole:
  assumes "wf_iteration n T root_it"
  shows "stage n T root_it 1 (root_it\<lparr> it_energy_allocated_percentage := p \<rparr>)"
  using assms by (auto simp: stage_def wf_iteration_def demand_def)

lemma stage_next:
  assumes root_it: "wf_iteration n T root_it" and st: "stage n T root_it p it"
    and d: "distributed n T it post"
  shows "\<exists>nxt. build_next_iteration root_it post (it_energy_allocated root_it) q = Inr nxt \<and>
    stage n T root_it (p + q) nxt \<and> it_energy_allocated_percentage nxt = q"
proof -
  let ?VA = "it_energy_allocated root_it"
  have wf: "wf_iteration n T it" using st by (simp add: stage_def)
  have T: "shape1 ?VA = T" and n: "length ?VA = n" "0 < n"
    using root_it by (auto simp: shape1_def wf_iteration_def split: list.splits)
  have len: "length (it_surplus post) = T" using d by (simp add: distributed_def)
  define nxt where "nxt = post\<lparr> it_energy_allocated_percentage := q,
    it_energy_allocated := madd (mscale ?VA q) (replicate n (it_surplus post)),
    it_consumers := map (\<lambda>c. c\<lparr> c_consumption := c_residual_volume c \<rparr>) (it_consumers post) \<rparr>"
  have build: "build_next_iteration root_it post ?VA q = Inr nxt"
    using len by (simp add: build_next_iteration_def reformat_excedents_def T n nxt_def)
  have res: "length (c_residual_volume c) = T \<and> (\<forall>x\<in>set (c_residual_volume c). 0 \<le> x)"
    if "c \<in> set (it_consumers post)" for c
    using settled_lengths(2) [of c T] settled_nth(2) [of c T] distributed_consumer [OF d wf that]
    by (auto simp: in_set_conv_nth)
  have wf': "wf_iteration n T nxt"
    using d n root_it res len
    by (auto simp: wf_iteration_def distributed_def nxt_def madd_def mscale_def vadd_def set_zip)
  have prof: "profile_of nxt ! t = profile_of root_it ! t * q + it_surplus post ! t" if "t < T" for t
    using that n len wf_profile_length [OF root_it]
    by (cases ?VA; cases n) (auto simp: nxt_def madd_def mscale_def)
  have dem: "demand nxt t = unmet post t" for t
    by (simp add: demand_def unmet_def nxt_def comp_def)
  have "profile_of nxt ! t - demand nxt t = profile_of root_it ! t * (p + q) - demand root_it t"
    if "t < T" for t
  proof -
    have "profile_of it ! t - demand it t = profile_of root_it ! t * p - demand root_it t"
      using st that by (simp add: stage_def)
    then show ?thesis
      using prof [OF that] dem [of t] distributed_balance [OF d wf that]
      unfolding distrib_left by linarith
  qed
  then show ?thesis using build wf' by (auto simp: stage_def nxt_def)
qed

lemma summary_figures:
  "summary it = Inr s \<Longrightarrow>
    s_energy_allocated_percentage s = it_energy_allocated_percentage it \<and>
    s_surplus_total s = it_surplus_total it"
  by (auto simp: summary_def split: list.splits)

lemma distributed_floor:
  assumes st: "stage n T root_it p it" and d: "distributed n T it it'"
  shows "floor_surplus T root_it p \<le> it_surplus_total it'"
proof -
  have wf: "wf_iteration n T it" using st by (simp add: stage_def)
  have "max 0 (profile_of root_it ! t * p - demand root_it t) \<le> it_surplus it' ! t" if "t < T" for t
    using distributed_balance [OF d wf that] distributed_surplus_nonneg [OF d wf that] st that
    by (simp add: stage_def)
  then have "floor_surplus T root_it p \<le> (\<Sum>t<T. it_surplus it' ! t)"
    unfolding floor_surplus_def by (intro sum_mono) simp
  then show ?thesis using d by (simp add: distributed_def sum_list_nth_lessThan)
qed

lemma stage_algo:
  assumes st: "stage n T root_it p it" and "algo \<in> set ALGO_NAMES"
  shows "\<exists>s post. ALGOS algo it = Inr (Node algo s [], post) \<and> distributed n T it post \<and>
    s_energy_allocated_percentage s = it_energy_allocated_percentage it \<and>
    floor_surplus T root_it p \<le> s_surplus_total s \<and>
    (algo = ''prorata'' \<longrightarrow> s_surplus_total s = floor_surplus T root_it p)"
proof -
  have wf: "wf_iteration n T it" using st by (simp add: stage_def)
  consider "algo = ''egalitaire''" | "algo = ''prorata_total''" | "algo = ''prorata''"
    using assms(2) by (auto simp: ALGO_NAMES_def)
  then obtain s post where alg: "ALGOS algo it = Inr (Node algo s [], post)"
    and d: "distributed n T it post" and s: "summary post = Inr s"
    using egalitaire.dist_distributes [OF wf] prorata_total.dist_distributes [OF wf]
      prorata.dist_distributes [OF wf]
    by cases (auto simp: ALGOS_def)
  have pct: "it_energy_allocated_percentage post = it_energy_allocated_percentage it"
    using d by (simp add: distributed_def)
  have min: "s_surplus_total s = floor_surplus T root_it p" if "algo = ''prorata''"
  proof -
    have "it_surplus_total post = (\<Sum>t<T. max 0 (profile_of it ! t - demand it t))"
      using prorata_min.dist_surplus_total [OF wf] alg that by (simp add: ALGOS_def)
    also have "\<dots> = floor_surplus T root_it p"
      using st by (simp add: stage_def floor_surplus_def)
    finally show ?thesis using summary_figures [OF s] by simp
  qed
  show ?thesis
    using alg d pct min distributed_floor [OF st d] summary_figures [OF s] by auto
qed


section \<open>Trees\<close>

lemma foldl_add_child: "foldl add_child (Node name s cs) ns = Node name s (cs @ ns)"
  by (induction ns arbitrary: cs) simp_all

lemma attach_level_ok:
  assumes "\<And>algo. algo \<in> set ALGO_NAMES \<Longrightarrow>
      \<exists>nd. rbind (ALGOS algo base) deeper = Inr nd \<and> Q algo nd"
  shows "\<exists>nds. attach_level deeper base (Node name s []) = Inr (Node name s nds) \<and>
      list_all2 Q ALGO_NAMES nds"
  using rmapM_exists [of ALGO_NAMES "\<lambda>algo. rbind (ALGOS algo base) deeper" Q] assms
  by (auto simp: attach_level_def foldl_add_child)

text \<open>The last level: leaves over an iteration that holds everything but the last share.\<close>

lemma leaf_level:
  assumes "stage n T root_it 1 base" "it_energy_allocated_percentage base = q"
    and "algo \<in> set ALGO_NAMES"
  shows "\<exists>nd. rbind (ALGOS algo base) (\<lambda>(node, _). Inr node) = Inr nd \<and>
    level_ok (floor_surplus T root_it 1) [q] algo nd"
  using stage_algo [OF assms(1,3)] assms(2) by auto

text \<open>An inner level: run \<open>algo\<close>, build the next iteration, hang \<open>deeper\<close> below the node.\<close>

lemma inner_level:
  assumes root_it: "wf_iteration n T root_it" and st: "stage n T root_it p it"
    and q: "it_energy_allocated_percentage it = q" and algo: "algo \<in> set ALGO_NAMES"
    and deeper: "\<And>base algo'. stage n T root_it (p + q') base \<Longrightarrow>
      it_energy_allocated_percentage base = q' \<Longrightarrow> algo' \<in> set ALGO_NAMES \<Longrightarrow>
      \<exists>nd. rbind (ALGOS algo' base) deeper = Inr nd \<and> level_ok B (q' # qs) algo' nd"
  shows "\<exists>nd. rbind (ALGOS algo it) (\<lambda>(node, post).
      rbind (build_next_iteration root_it post (it_energy_allocated root_it) q')
        (\<lambda>base. attach_level deeper base node)) = Inr nd \<and> level_ok B (q # q' # qs) algo nd"
proof -
  obtain s post where alg: "ALGOS algo it = Inr (Node algo s [], post)"
    and d: "distributed n T it post" and pct: "s_energy_allocated_percentage s = q"
    using stage_algo [OF st algo] q by blast
  obtain base where base: "build_next_iteration root_it post (it_energy_allocated root_it) q' = Inr base"
    "stage n T root_it (p + q') base" "it_energy_allocated_percentage base = q'"
    using stage_next [OF root_it st d] by blast
  obtain nds where "attach_level deeper base (Node algo s []) = Inr (Node algo s nds)"
    "list_all2 (level_ok B (q' # qs)) ALGO_NAMES nds"
    using attach_level_ok [of base deeper "level_ok B (q' # qs)" algo s] deeper [OF base(2,3)] by blast
  then show ?thesis using alg base(1) pct by auto
qed

lemma wf_root_iteration:
  assumes "C \<noteq> []" "length VA = length C" "shape1 VA = T"
    and "\<forall>r\<in>set VA. length r = T" "\<forall>r\<in>set C. length r = T \<and> (\<forall>x\<in>set r. 0 \<le> x)"
  shows "wf_iteration (length C) T (make_root_iteration C VA)"
    and "floor_surplus T (make_root_iteration C VA) 1 = min_surplus C VA"
  using assms
  by (auto simp: wf_iteration_def make_root_iteration_def Iteration_def Consumer_def
      floor_surplus_def min_surplus_def demand_def comp_def)

definition forest_ok :: "real \<Rightarrow> real list list \<Rightarrow> bf_node list \<Rightarrow> bool" where
  "forest_ok B ps nodes \<longleftrightarrow>
     (\<exists>groups. nodes = concat groups \<and>
       list_all2 (\<lambda>plan. list_all2 (level_ok B plan) ALGO_NAMES) ps groups)"

lemma forestI:
  assumes "\<And>x. x \<in> set xs \<Longrightarrow> \<exists>g. f x = Inr g \<and> list_all2 (level_ok B (plan x)) ALGO_NAMES g"
  shows "\<exists>nodes. rbind (rmapM f xs) (\<lambda>rs. Inr (concat rs)) = Inr nodes \<and>
    forest_ok B (map plan xs) nodes"
  using rmapM_exists [of xs f "\<lambda>x. list_all2 (level_ok B (plan x)) ALGO_NAMES"] assms
  by (auto simp: forest_ok_def list_all2_map1)

lemma one_iteration_ok:
  assumes wf: "wf_iteration n T root_it"
  shows "\<exists>nodes. one_iteration root_it = Inr nodes \<and>
    forest_ok (floor_surplus T root_it 1) [[1]] nodes"
proof -
  have "\<exists>nodes. one_iteration root_it = Inr nodes \<and>
      list_all2 (level_ok (floor_surplus T root_it 1) [1]) ALGO_NAMES nodes"
    unfolding one_iteration_def
    by (rule rmapM_exists) (simp add: leaf_level [OF stage_whole [OF wf]])
  then obtain nodes where "one_iteration root_it = Inr nodes"
    "list_all2 (level_ok (floor_surplus T root_it 1) [1]) ALGO_NAMES nodes" by blast
  then show ?thesis
    by (intro exI [of _ nodes]) (simp add: forest_ok_def exI [of _ "[nodes]"])
qed

lemma two_iterations_ok:
  assumes wf: "wf_iteration n T root_it"
  shows "\<exists>nodes. two_iterations root_it (it_energy_allocated root_it) = Inr nodes \<and>
    forest_ok (floor_surplus T root_it 1) (plans 2) nodes"
proof -
  let ?B = "floor_surplus T root_it 1"
  have "\<exists>nodes. two_iterations root_it (it_energy_allocated root_it) = Inr nodes \<and>
      forest_ok ?B (map (\<lambda>i. [real i / 10, 1 - real i / 10]) [0..<11]) nodes"
    unfolding two_iterations_def Let_def
  proof (rule forestI, rule rmapM_exists)
    fix i :: nat and algo1 assume algo1: "algo1 \<in> set ALGO_NAMES"
    have leaf: "\<exists>nd. rbind (ALGOS algo' base) (\<lambda>(node2, _). Inr node2) = Inr nd \<and>
        level_ok ?B [1 - real i / 10] algo' nd"
      if "stage n T root_it (real i / 10 + (1 - real i / 10)) base"
        "it_energy_allocated_percentage base = 1 - real i / 10" "algo' \<in> set ALGO_NAMES" for base algo'
      using that by (intro leaf_level) simp_all
    show "\<exists>nd. rbind (apply_first root_it (real i / 10) algo1) (\<lambda>(node1, iter1_post).
        rbind (build_next_iteration root_it iter1_post (it_energy_allocated root_it) (1 - real i / 10))
          (\<lambda>base_iter2. attach_level (\<lambda>(node2, _). Inr node2) base_iter2 node1)) = Inr nd \<and>
        level_ok ?B [real i / 10, 1 - real i / 10] algo1 nd"
      unfolding apply_first_def iteration_copy_id
      by (rule inner_level [OF wf stage_first [OF wf] _ algo1 leaf]) simp_all
  qed
  then show ?thesis by (simp add: plans_def)
qed

lemma three_iterations_ok:
  assumes wf: "wf_iteration n T root_it"
  shows "\<exists>nodes. three_iterations root_it (it_energy_allocated root_it) = Inr nodes \<and>
    forest_ok (floor_surplus T root_it 1) (plans 3) nodes"
proof -
  let ?B = "floor_surplus T root_it 1"
  let ?ij = "[(i, j). i \<leftarrow> [0..<11], j \<leftarrow> [0..<(10 - i) + 1]] :: (nat \<times> nat) list"
  let ?q = "\<lambda>i j. 1 - real i / 10 - real j / 10"
  have "\<exists>nodes. three_iterations root_it (it_energy_allocated root_it) = Inr nodes \<and>
      forest_ok ?B (map (\<lambda>(i, j). [real i / 10, real j / 10, ?q i j]) ?ij) nodes"
    unfolding three_iterations_def
  proof (rule forestI)
    fix x assume "x \<in> set ?ij"
    then obtain i j where x: "x = (i, j)" and le: "i + j \<le> 10" by force
    have q3: "(if 0 < ?q i j then ?q i j else 0) = ?q i j" using le by auto
    have leaf: "\<exists>nd. rbind (ALGOS algo' base) (\<lambda>(node3, _). Inr node3) = Inr nd \<and>
        level_ok ?B [?q i j] algo' nd"
      if "stage n T root_it (real i / 10 + real j / 10 + ?q i j) base"
        "it_energy_allocated_percentage base = ?q i j" "algo' \<in> set ALGO_NAMES" for base algo'
      using that by (intro leaf_level) simp_all
    have inner: "\<exists>nd. rbind (ALGOS algo' base) (\<lambda>(node2, iter2_post).
          rbind (build_next_iteration root_it iter2_post (it_energy_allocated root_it) (?q i j))
            (\<lambda>base_iter3. attach_level (\<lambda>(node3, _). Inr node3) base_iter3 node2)) = Inr nd \<and>
        level_ok ?B [real j / 10, ?q i j] algo' nd"
      if "stage n T root_it (real i / 10 + real j / 10) base"
        "it_energy_allocated_percentage base = real j / 10" "algo' \<in> set ALGO_NAMES" for base algo'
      by (rule inner_level [OF wf that leaf])
    show "\<exists>g. (case x of (i, j) \<Rightarrow>
          let pct1 = real i / 10; pct2 = real j / 10; pct3_raw = 1 - pct1 - pct2;
              pct3 = if 0 < pct3_raw then pct3_raw else 0
          in rmapM (\<lambda>algo1. rbind (apply_first root_it pct1 algo1) (\<lambda>(node1, iter1_post).
               rbind (build_next_iteration root_it iter1_post (it_energy_allocated root_it) pct2)
                 (\<lambda>base_iter2. attach_level (\<lambda>(node2, iter2_post).
                    rbind (build_next_iteration root_it iter2_post (it_energy_allocated root_it) pct3)
                      (\<lambda>base_iter3. attach_level (\<lambda>(node3, _). Inr node3) base_iter3 node2))
                    base_iter2 node1))) ALGO_NAMES) = Inr g \<and>
        list_all2 (level_ok ?B (case x of (i, j) \<Rightarrow> [real i / 10, real j / 10, ?q i j])) ALGO_NAMES g"
      unfolding x prod.case Let_def q3 apply_first_def iteration_copy_id
      by (intro rmapM_exists inner_level [OF wf stage_first [OF wf] _ _ inner]) simp_all
  qed
  then show ?thesis by (simp add: plans_def)
qed

lemma generate_forest:
  assumes "C \<noteq> []" "length VA = length C" "shape1 VA = T"
    and "\<forall>r\<in>set VA. length r = T" "\<forall>r\<in>set C. length r = T \<and> (\<forall>x\<in>set r. 0 \<le> x)"
    and nb: "nb \<in> {1, 2, 3}"
  shows "\<exists>nodes. generate nb C VA = Inr nodes \<and> forest_ok (min_surplus C VA) (plans nb) nodes"
proof -
  note wf = wf_root_iteration(1) [OF assms(1-5)] and B = wf_root_iteration(2) [OF assms(1-5)]
  have ea: "it_energy_allocated (make_root_iteration C VA) = VA"
    by (simp add: make_root_iteration_def Iteration_def)
  show ?thesis
    using nb one_iteration_ok [OF wf] two_iterations_ok [OF wf] three_iterations_ok [OF wf]
    by (auto simp: generate_def Let_def B ea plans_def)
qed

section \<open>Counting\<close>

lemma list_all2_in_set2: "list_all2 P xs ys \<Longrightarrow> y \<in> set ys \<Longrightarrow> \<exists>x\<in>set xs. P x y"
  by (induction rule: list_all2_induct) auto

fun node_count :: "bf_node \<Rightarrow> nat" where
  "node_count (Node name s cs) = Suc (sum_list (map node_count cs))"

fun leaf_count :: "bf_node \<Rightarrow> nat" where
  "leaf_count (Node name s cs) = (if cs = [] then 1 else sum_list (map leaf_count cs))"

lemma list_all2_sum:
  "list_all2 P xs ys \<Longrightarrow> (\<And>x y. P x y \<Longrightarrow> f y = (k::nat)) \<Longrightarrow> sum_list (map f ys) = length xs * k"
  by (induction rule: list_all2_induct) (simp_all add: mult.commute)

lemma level_counts:
  "level_ok B (q # qs) algo nd \<Longrightarrow>
    leaf_count nd = 3 ^ length qs \<and> 2 * node_count nd = 3 ^ Suc (length qs) - 1"
proof (induction qs arbitrary: q algo nd)
  case Nil
  then show ?case by (cases nd) simp
next
  case (Cons q' qs)
  obtain name s cs where nd: "nd = Node name s cs" by (cases nd)
  with Cons.prems have all: "list_all2 (level_ok B (q' # qs)) ALGO_NAMES cs" by simp
  have leaves: "sum_list (map leaf_count cs) = length ALGO_NAMES * 3 ^ length qs"
    by (rule list_all2_sum [OF all]) (simp add: Cons.IH)
  have "sum_list (map (\<lambda>nd. 2 * node_count nd) cs) = length ALGO_NAMES * (3 ^ Suc (length qs) - 1)"
    by (rule list_all2_sum [OF all]) (simp only: Cons.IH)
  moreover have pos: "(1::nat) \<le> 3 ^ length qs" by simp
  ultimately have "2 * sum_list (map node_count cs) = 3 ^ Suc (Suc (length qs)) - 3"
    by (simp add: ALGO_NAMES_def sum_list_const_mult [symmetric])
  then have "2 * node_count nd = 3 ^ Suc (Suc (length qs)) - 1"
    using pos unfolding nd node_count.simps power_Suc by arith
  moreover have "cs \<noteq> []" using all by (auto simp: ALGO_NAMES_def)
  ultimately show ?case using leaves by (simp add: nd ALGO_NAMES_def)
qed

lemma forest_sum:
  assumes "forest_ok B ps nodes"
    and "\<And>plan algo nd. plan \<in> set ps \<Longrightarrow> level_ok B plan algo nd \<Longrightarrow> f nd = (k::nat)"
  shows "sum_list (map f nodes) = length ps * (3 * k)"
proof -
  obtain groups where nodes: "nodes = concat groups"
    and all: "list_all2 (\<lambda>plan. list_all2 (level_ok B plan) ALGO_NAMES) ps groups"
    using assms(1) by (auto simp: forest_ok_def)
  have "sum_list (map f g) = 3 * k" if g: "g \<in> set groups" for g
  proof -
    obtain plan where "plan \<in> set ps" "list_all2 (level_ok B plan) ALGO_NAMES g"
      using list_all2_in_set2 [OF all g] by blast
    then have "sum_list (map f g) = length ALGO_NAMES * k"
      by (intro list_all2_sum assms(2))
    then show ?thesis by (simp add: ALGO_NAMES_def)
  qed
  then have "sum_list (map (\<lambda>g. sum_list (map f g)) groups) = length groups * (3 * k)"
    by (induction groups) auto
  moreover have "sum_list (map f (concat groups)) = sum_list (map (\<lambda>g. sum_list (map f g)) groups)"
    by (induction groups) simp_all
  ultimately show ?thesis using nodes list_all2_lengthD [OF all] by simp
qed

lemma length_plans: "length (plans 1) = 1" "length (plans 2) = 11" "length (plans 3) = 66"
  by (simp_all add: plans_def upt_rec)

lemma plan_props:
  assumes "nb \<in> {1, 2, 3}" "plan \<in> set (plans nb)"
  shows "length plan = nat nb" "sum_list plan = 1" "\<forall>q\<in>set plan. 0 \<le> q \<and> q \<le> 1"
  using assms by (auto simp: plans_def split: if_splits)

end
