(* ===== verification/AlgorithmBase.thy ===== *)
theory AlgorithmBase
  imports Prelude
begin

text \<open>
  The algorithm framework: the data and result schemas of \<open>algorithms/base.py\<close>, validation of
  algorithm inputs against a declared schema, the registry of \<open>algorithms/registry.py\<close> and the
  package discovery of \<open>algorithms/__init__.py\<close>.

  Pydantic itself is not part of the repository. What the code relies on is a parameter: \<open>as_int\<close>
  and \<open>as_float\<close> say which JSON values its lax mode accepts as numbers. The checks the sources
  declare (required fields, defaults, bounds, \<open>extra="forbid"\<close>) are written out.
\<close>

section \<open>Raw data and results\<close>

record raw_data =
  rd_C :: matrix
  rd_VA :: matrix
  rd_consumer_names :: "string list"

record consumer_result =
  cr_name :: string
  cr_energy_allocated_percentage :: real

record iteration_result =
  ir_number :: nat
  ir_energy_allocated_percentage :: real
  ir_surplus_total :: real
  ir_consumers :: "consumer_result list"

record key_result =
  kr_name :: string
  kr_description :: string
  kr_iterations :: "iteration_result list"

record algorithm_result =
  ar_keys :: "key_result list"

section \<open>Input schemas\<close>

datatype input_value = VInt int | VFloat real

datatype field_type =
    IntField (ge: "int option") (le: "int option")
  | FloatField real real

record input_field =
  fld_name :: string
  fld_type :: field_type
  fld_default :: "input_value option"

type_synonym input_schema = "input_field list"
type_synonym inputs = "(string \<times> input_value) list"

record coercion =
  as_int :: "json \<Rightarrow> int option"
  as_float :: "json \<Rightarrow> real option"

fun validate_field :: "coercion \<Rightarrow> field_type \<Rightarrow> json \<Rightarrow> input_value result" where
  "validate_field co (IntField lo hi) j =
     (case as_int co j of
        None \<Rightarrow> Inl (ValueError ''int_parsing'')
      | Some i \<Rightarrow>
          if (case lo of None \<Rightarrow> False | Some l \<Rightarrow> i < l) then Inl (ValueError ''greater_than_equal'')
          else if (case hi of None \<Rightarrow> False | Some h \<Rightarrow> h < i) then Inl (ValueError ''less_than_equal'')
          else Inr (VInt i))"
| "validate_field co (FloatField lo hi) j =
     (case as_float co j of
        None \<Rightarrow> Inl (ValueError ''float_parsing'')
      | Some x \<Rightarrow>
          if x < lo then Inl (ValueError ''greater_than_equal'')
          else if hi < x then Inl (ValueError ''less_than_equal'')
          else Inr (VFloat x))"

text \<open>\<open>input_schema.model_validate(obj)\<close> under \<open>ConfigDict(extra="forbid")\<close>.\<close>

definition model_validate :: "coercion \<Rightarrow> input_schema \<Rightarrow> json \<Rightarrow> inputs result" where
  "model_validate co schema obj =
     (case obj of
        JObj kvs \<Rightarrow>
          if \<not> set (dict_keys kvs) \<subseteq> set (map fld_name schema)
          then Inl (ValueError ''extra_forbidden'')
          else rmapM (\<lambda>f.
            (case map_of kvs (fld_name f) of
               Some j \<Rightarrow> rbind (validate_field co (fld_type f) j) (\<lambda>v. Inr (fld_name f, v))
             | None \<Rightarrow>
                 (case fld_default f of
                    None \<Rightarrow> Inl (ValueError ''missing'')
                  | Some v \<Rightarrow> Inr (fld_name f, v)))) schema
      | _ \<Rightarrow> Inl (ValueError ''model_type''))"

definition BruteForceInput :: input_schema where
  "BruteForceInput =
     [\<lparr> fld_name = ''iterations'', fld_type = IntField (Some 1) (Some 3), fld_default = None \<rparr>]"

definition OlagsaInput :: input_schema where
  "OlagsaInput =
     [\<lparr> fld_name = ''iterations'', fld_type = IntField (Some 1) (Some 3), fld_default = None \<rparr>,
      \<lparr> fld_name = ''generations'', fld_type = IntField (Some 1) None, fld_default = Some (VInt 25) \<rparr>,
      \<lparr> fld_name = ''population_size'', fld_type = IntField (Some 2) None, fld_default = Some (VInt 50) \<rparr>,
      \<lparr> fld_name = ''crossover_rate'', fld_type = FloatField 0 1, fld_default = Some (VFloat (1 / 10)) \<rparr>,
      \<lparr> fld_name = ''inter_species_crossover_rate'', fld_type = FloatField 0 1,
         fld_default = Some (VFloat (1 / 10)) \<rparr>,
      \<lparr> fld_name = ''mutation_rate'', fld_type = FloatField 0 1, fld_default = Some (VFloat (1 / 10)) \<rparr>,
      \<lparr> fld_name = ''expected_species_count'', fld_type = IntField (Some 1) None,
         fld_default = Some (VInt 1) \<rparr>,
      \<lparr> fld_name = ''max_generations_without_improvement'', fld_type = IntField (Some 1) None,
         fld_default = Some (VInt 10) \<rparr>]"

definition input_int :: "inputs \<Rightarrow> string \<Rightarrow> int result" where
  "input_int ins k = (case map_of ins k of Some (VInt i) \<Rightarrow> Inr i | _ \<Rightarrow> Inl (KeyError k))"

definition input_float :: "inputs \<Rightarrow> string \<Rightarrow> real result" where
  "input_float ins k = (case map_of ins k of Some (VFloat x) \<Rightarrow> Inr x | _ \<Rightarrow> Inl (KeyError k))"

section \<open>Metadata\<close>

record algorithm_metadata =
  md_name :: string
  md_description :: string
  md_version :: string
  md_queue :: string
  md_input_schema :: input_schema
  md_tags :: "string list"
  md_timeout_seconds :: "int option"

definition lower_alpha :: "char \<Rightarrow> bool" where
  "lower_alpha c \<longleftrightarrow> 97 \<le> (of_char c :: nat) \<and> (of_char c :: nat) \<le> 122"

definition name_char :: "char \<Rightarrow> bool" where
  "name_char c \<longleftrightarrow> lower_alpha c \<or> (48 \<le> (of_char c :: nat) \<and> (of_char c :: nat) \<le> 57) \<or> c = CHR ''_''"

text \<open>The pattern \<open>^[a-z][a-z0-9_]*$\<close> on an algorithm's name.\<close>

definition metadata_name_ok :: "string \<Rightarrow> bool" where
  "metadata_name_ok s = (case s of [] \<Rightarrow> False | c # cs \<Rightarrow> lower_alpha c \<and> list_all name_char cs)"

definition BRUTE_FORCE_METADATA :: algorithm_metadata where
  "BRUTE_FORCE_METADATA =
     \<lparr> md_name = ''brute_force'', md_description = ''ALGORITHMS.BRUTE_FORCE.DESCRIPTION'',
       md_version = ''1.0'', md_queue = ''optimce.allocation.brute_force'',
       md_input_schema = BruteForceInput, md_tags = [''enumeration'', ''exhaustive''],
       md_timeout_seconds = None \<rparr>"

definition OLAGSA_METADATA :: algorithm_metadata where
  "OLAGSA_METADATA =
     \<lparr> md_name = ''olagsa'', md_description = ''ALGORITHMS.OLAGSA.DESCRIPTION'',
       md_version = ''1.0'', md_queue = ''optimce.allocation.olagsa'',
       md_input_schema = OlagsaInput, md_tags = [''genetic'', ''optimization''],
       md_timeout_seconds = None \<rparr>"

section \<open>Registry\<close>

text \<open>An implementation class: its metadata and its \<open>run\<close>.\<close>

record algorithm_class =
  cls_metadata :: algorithm_metadata
  cls_run :: "inputs \<Rightarrow> raw_data \<Rightarrow> algorithm_result result"

record registry =
  reg_metadata :: "algorithm_metadata dict"
  reg_implementations :: "algorithm_class dict"

definition empty_registry :: registry where
  "empty_registry = \<lparr> reg_metadata = [], reg_implementations = [] \<rparr>"

definition registry_contains :: "registry \<Rightarrow> string \<Rightarrow> bool" where
  "registry_contains r name \<longleftrightarrow> name \<in> set (dict_keys (reg_metadata r))"

definition register_metadata :: "algorithm_metadata \<Rightarrow> registry \<Rightarrow> registry result" where
  "register_metadata meta r =
     (if registry_contains r (md_name meta)
      then Inl (ValueError (''Algorithm '' @ md_name meta @ '' already registered''))
      else Inr (r\<lparr> reg_metadata := dict_set (md_name meta) meta (reg_metadata r) \<rparr>))"

definition register_implementation :: "algorithm_class \<Rightarrow> registry \<Rightarrow> registry" where
  "register_implementation cls r =
     (let name = md_name (cls_metadata cls);
          r1 = (if registry_contains r name then r
                else r\<lparr> reg_metadata := dict_set name (cls_metadata cls) (reg_metadata r) \<rparr>)
      in r1\<lparr> reg_implementations := dict_set name cls (reg_implementations r1) \<rparr>)"

definition registry_metadata :: "registry \<Rightarrow> string \<Rightarrow> algorithm_metadata result" where
  "registry_metadata r name =
     (case map_of (reg_metadata r) name of None \<Rightarrow> Inl (KeyError name) | Some m \<Rightarrow> Inr m)"

definition registry_implementation :: "registry \<Rightarrow> string \<Rightarrow> algorithm_class result" where
  "registry_implementation r name =
     (case map_of (reg_implementations r) name of None \<Rightarrow> Inl (KeyError name) | Some c \<Rightarrow> Inr c)"

definition list_all_metadata :: "registry \<Rightarrow> algorithm_metadata list" where
  "list_all_metadata r = dict_values (reg_metadata r)"

section \<open>Discovery\<close>

text \<open>
  A module under \<open>algorithms_implemented\<close>: importing the package runs its \<open>__init__\<close>, importing
  its \<open>algorithm\<close> module registers the implementation. An import runs a module's code once; a
  module whose code raised is not kept in \<open>sys.modules\<close>.
\<close>

record module_info =
  mi_name :: string
  mi_ispkg :: bool
  mi_init :: "registry \<Rightarrow> py_error option \<times> registry"
  mi_algorithm :: "registry \<Rightarrow> py_error option \<times> registry"

record import_state =
  is_registry :: registry
  is_modules :: "string list"

definition import_module ::
  "string \<Rightarrow> (registry \<Rightarrow> py_error option \<times> registry) \<Rightarrow> import_state \<Rightarrow> bool \<times> import_state" where
  "import_module name code st =
     (if name \<in> set (is_modules st) then (True, st)
      else (case code (is_registry st) of
              (None, r) \<Rightarrow> (True, st\<lparr> is_registry := r, is_modules := is_modules st @ [name] \<rparr>)
            | (Some _, r) \<Rightarrow> (False, st\<lparr> is_registry := r \<rparr>)))"

definition discover_package :: "bool \<Rightarrow> module_info \<Rightarrow> import_state \<Rightarrow> import_state" where
  "discover_package load_implementations m st =
     (if \<not> mi_ispkg m then st
      else (let (ok, st1) = import_module (mi_name m) (mi_init m) st
            in if \<not> ok then st1
               else if load_implementations
                    then snd (import_module (mi_name m @ ''.algorithm'') (mi_algorithm m) st1)
                    else st1))"

definition autodiscover :: "bool \<Rightarrow> module_info list \<Rightarrow> import_state \<Rightarrow> import_state" where
  "autodiscover load_implementations mods st = fold (discover_package load_implementations) mods st"

text \<open>The module code of a repository package: register metadata, register the class.\<close>

definition init_code :: "algorithm_metadata \<Rightarrow> registry \<Rightarrow> py_error option \<times> registry" where
  "init_code meta r =
     (case register_metadata meta r of Inl e \<Rightarrow> (Some e, r) | Inr r' \<Rightarrow> (None, r'))"

definition algorithm_code :: "algorithm_class \<Rightarrow> registry \<Rightarrow> py_error option \<times> registry" where
  "algorithm_code cls r = (None, register_implementation cls r)"

section \<open>Lemmas\<close>

lemma registry_contains_dom: "registry_contains r name \<longleftrightarrow> name \<in> dom (map_of (reg_metadata r))"
  by (simp add: registry_contains_def dict_keys_dom)

text \<open>Every implementation is listed with metadata, and no name is listed twice.\<close>

definition registry_inv :: "registry \<Rightarrow> bool" where
  "registry_inv r \<longleftrightarrow>
     distinct (dict_keys (reg_metadata r)) \<and>
     set (dict_keys (reg_implementations r)) \<subseteq> set (dict_keys (reg_metadata r)) \<and>
     (\<forall>(k, m)\<in>set (reg_metadata r). md_name m = k) \<and>
     (\<forall>(k, c)\<in>set (reg_implementations r). md_name (cls_metadata c) = k)"

lemma set_dict_set: "set (dict_set k v d) \<subseteq> insert (k, v) (set d)"
  by (induction d) (auto split: if_splits)

lemma registry_inv_empty: "registry_inv empty_registry"
  by (simp add: registry_inv_def empty_registry_def dict_keys_def)

lemma register_metadata_inv:
  "registry_inv r \<Longrightarrow> register_metadata meta r = Inr r' \<Longrightarrow> registry_inv r'"
  using set_dict_set [of "md_name meta" meta "reg_metadata r"]
  by (auto simp: registry_inv_def register_metadata_def dict_keys_set distinct_dict_set
      split: if_splits)

lemma register_implementation_inv:
  "registry_inv r \<Longrightarrow> registry_inv (register_implementation cls r)"
  using set_dict_set [of "md_name (cls_metadata cls)" "cls_metadata cls" "reg_metadata r"]
    set_dict_set [of "md_name (cls_metadata cls)" cls "reg_implementations r"]
  by (auto simp: registry_inv_def register_implementation_def registry_contains_def dict_keys_set
      distinct_dict_set Let_def)

lemma validate_field_int_range:
  assumes "validate_field co (IntField lo hi) j = Inr v"
  obtains i where "v = VInt i" "\<And>l. lo = Some l \<Longrightarrow> l \<le> i" "\<And>h. hi = Some h \<Longrightarrow> i \<le> h"
  using assms by (auto split: option.splits if_splits)

lemma model_validate_entry:
  assumes "model_validate co schema obj = Inr ins" "f \<in> set schema" "distinct (map fld_name schema)"
  shows "\<exists>v. map_of ins (fld_name f) = Some v \<and>
    (fld_default f = Some v \<or> (\<exists>j. validate_field co (fld_type f) j = Inr v))"
proof -
  obtain kvs where "obj = JObj kvs" using assms(1) by (auto simp: model_validate_def split: json.splits)
  with assms(1) have all: "list_all2 (\<lambda>f e. (case map_of kvs (fld_name f) of
        Some j \<Rightarrow> rbind (validate_field co (fld_type f) j) (\<lambda>v. Inr (fld_name f, v))
      | None \<Rightarrow> (case fld_default f of None \<Rightarrow> Inl (ValueError ''missing'')
          | Some v \<Rightarrow> Inr (fld_name f, v))) = Inr e) schema ins"
    by (auto simp: model_validate_def rmapM_Inr_iff split: if_splits)
  have "\<exists>v. map_of ins (fld_name f) = Some v \<and>
      (fld_default f = Some v \<or> (\<exists>j. validate_field co (fld_type f) j = Inr v))"
    if "distinct (map fld_name schema)" "f \<in> set schema"
    using all that
  proof (induction rule: list_all2_induct)
    case (Cons g schema e ins)
    have e: "fst e = fld_name g"
      "fld_default g = Some (snd e) \<or> (\<exists>j. validate_field co (fld_type g) j = Inr (snd e))"
      using Cons.hyps(1) by (auto simp: result_simps split: option.splits)
    show ?case
    proof (cases "f = g")
      case True
      with e show ?thesis by (cases e) auto
    next
      case False
      with Cons.prems have "f \<in> set schema" "fld_name f \<noteq> fld_name g"
        by (auto simp: image_iff)
      with Cons e show ?thesis by (cases e) auto
    qed
  qed simp
  with assms(2,3) show ?thesis by blast
qed

lemma validated_int:
  assumes "model_validate co schema obj = Inr ins" "distinct (map fld_name schema)"
    "\<lparr> fld_name = k, fld_type = IntField (Some l) hi, fld_default = d \<rparr> \<in> set schema"
    "\<And>v. d = Some v \<Longrightarrow> \<exists>i. v = VInt i \<and> l \<le> i \<and> (\<forall>h. hi = Some h \<longrightarrow> i \<le> h)"
  shows "\<exists>i. input_int ins k = Inr i \<and> l \<le> i \<and> (\<forall>h. hi = Some h \<longrightarrow> i \<le> h)"
proof -
  obtain v where v: "map_of ins k = Some v"
    "d = Some v \<or> (\<exists>j. validate_field co (IntField (Some l) hi) j = Inr v)"
    using model_validate_entry [OF assms(1,3,2)] by auto
  have "\<exists>i. v = VInt i \<and> l \<le> i \<and> (\<forall>h. hi = Some h \<longrightarrow> i \<le> h)"
    using v(2) assms(4) by (auto elim!: validate_field_int_range simp del: validate_field.simps)
  then show ?thesis using v(1) by (auto simp: input_int_def)
qed

lemma validated_float:
  assumes "model_validate co schema obj = Inr ins" "distinct (map fld_name schema)"
    "\<lparr> fld_name = k, fld_type = FloatField lo hi, fld_default = Some (VFloat d) \<rparr> \<in> set schema"
    "lo \<le> d" "d \<le> hi"
  shows "\<exists>x. input_float ins k = Inr x \<and> lo \<le> x \<and> x \<le> hi"
proof -
  obtain v where v: "map_of ins k = Some v"
    "Some (VFloat d) = Some v \<or> (\<exists>j. validate_field co (FloatField lo hi) j = Inr v)"
    using model_validate_entry [OF assms(1,3,2)] by auto
  have "\<exists>x. v = VFloat x \<and> lo \<le> x \<and> x \<le> hi"
    using v(2) assms(4,5) by (auto split: option.splits if_splits)
  then show ?thesis using v(1) by (auto simp: input_float_def)
qed

end
