(* ===== verification/BruteForceAlgorithm.thy ===== *)
theory BruteForceAlgorithm
  imports BruteForceGenerator AlgorithmBase
begin

text \<open>
  The worker entry point of the brute-force algorithm
  (\<open>algorithms_implemented/brute_force/algorithm.py\<close>): flattening of the result trees into
  allocation keys, naming, ranking by final surplus, and \<open>run\<close>.
\<close>

section \<open>Conversion helpers\<close>

text \<open>UTF-8 bytes of the French description.\<close>

definition DESCRIPTION :: string where
  "DESCRIPTION = ''Cl'' @ [CHR 0xC3, CHR 0xA9] @ '' obtenue gr'' @ [CHR 0xC3, CHR 0xA2] @
     ''ce '' @ [CHR 0xC3, CHR 0xA0] @ '' l'' @ [CHR 0x27] @ ''algorithme de brute force''"

definition consumer_label :: "string list \<Rightarrow> nat \<Rightarrow> string" where
  "consumer_label names j =
     (if j < length names \<and> names ! j \<noteq> [] then names ! j else ''Consumer '' @ show_nat j)"

definition consumer_results :: "bf_summary \<Rightarrow> string list \<Rightarrow> consumer_result list" where
  "consumer_results s names =
     map (\<lambda>(j, pct). \<lparr> cr_name = consumer_label names j, cr_energy_allocated_percentage = pct \<rparr>)
       (enumerate 0 (s_consumer_percentages s))"

definition make_iteration_result :: "bf_summary \<Rightarrow> nat \<Rightarrow> string list \<Rightarrow> iteration_result" where
  "make_iteration_result s number names =
     \<lparr> ir_number = number,
       ir_energy_allocated_percentage = s_energy_allocated_percentage s,
       ir_surplus_total = s_surplus_total s,
       ir_consumers = consumer_results s names \<rparr>"

definition final_surplus :: "key_result \<Rightarrow> real" where
  "final_surplus k = (if kr_iterations k = [] then 0 else ir_surplus_total (last (kr_iterations k)))"

definition build_key :: "iteration_result list \<Rightarrow> string list \<Rightarrow> key_result" where
  "build_key its algo_names =
     (let pct_strs = join '','' (map (\<lambda>it. show_hundredths (py_round2 (ir_energy_allocated_percentage it))) its);
          final = (if its = [] then show_hundredths 0
                   else show_hundredths (py_round2 (ir_surplus_total (last its))));
          joined = join '' - '' algo_names;
          name = (if length its = 1 then joined @ '' / Pourcentage = ('' @ pct_strs @ '')''
                  else joined @ '' / Pourcentages = ('' @ pct_strs @ '') / Surplus : '' @ final)
      in \<lparr> kr_name = name, kr_description = DESCRIPTION, kr_iterations = its \<rparr>)"

fun walk :: "string list \<Rightarrow> bf_node \<Rightarrow> iteration_result list \<Rightarrow> string list \<Rightarrow> key_result list" where
  "walk names (Node name s cs) path_iters path_names =
     (let new_iters = path_iters @ [make_iteration_result s (length path_iters + 1) names];
          new_names = path_names @ [name]
      in if cs = [] then [build_key new_iters new_names]
         else concat (map (\<lambda>c. walk names c new_iters new_names) cs))"

definition flatten_node :: "bf_node \<Rightarrow> string list \<Rightarrow> key_result list" where
  "flatten_node root_nd names = walk names root_nd [] []"

section \<open>Entry point\<close>

definition BruteForce_run :: "inputs \<Rightarrow> raw_data \<Rightarrow> algorithm_result result" where
  "BruteForce_run ins rd =
     rbind (input_int ins ''iterations'') (\<lambda>nb.
       rbind (generate nb (rd_C rd) (rd_VA rd)) (\<lambda>root_nodes.
         let keys = concat (map (\<lambda>nd. flatten_node nd (rd_consumer_names rd)) root_nodes)
         in Inr \<lparr> ar_keys = sort_key final_surplus keys \<rparr>))"

definition BruteForceAlgorithm_class :: algorithm_class where
  "BruteForceAlgorithm_class = \<lparr> cls_metadata = BRUTE_FORCE_METADATA, cls_run = BruteForce_run \<rparr>"

section \<open>Keys of a tree\<close>

lemma build_key_iterations [simp]: "kr_iterations (build_key its ns) = its"
  by (simp add: build_key_def Let_def)

lemma make_iteration_result_fields [simp]:
  "ir_number (make_iteration_result s n ns) = n"
  "ir_energy_allocated_percentage (make_iteration_result s n ns) = s_energy_allocated_percentage s"
  "ir_surplus_total (make_iteration_result s n ns) = s_surplus_total s"
  by (simp_all add: make_iteration_result_def)

lemma walk_length: "length (walk names nd its ns) = leaf_count nd"
proof (induction names nd its ns rule: walk.induct)
  case (1 names name s cs its ns)
  let ?its = "its @ [make_iteration_result s (length its + 1) names]" and ?ns = "ns @ [name]"
  have "sum_list (map (\<lambda>c. length (walk names c ?its ?ns)) cs) = sum_list (map leaf_count cs)"
    if "cs \<noteq> []"
    using "1.IH" that by (intro arg_cong [where f = sum_list] map_cong) simp_all
  then show ?case by (simp add: length_concat comp_def Let_def)
qed

lemma level_ok_nonempty: "level_ok B plan algo nd \<Longrightarrow> plan \<noteq> []"
  by (cases plan) simp_all

lemma level_prorata: "list_all2 P ALGO_NAMES cs \<Longrightarrow> \<exists>c\<in>set cs. P ''prorata'' c"
  by (auto simp: ALGO_NAMES_def list_all2_Cons1)

text \<open>The suffix a tree of shares \<open>qs\<close> adds to the iterations of its path.\<close>

definition suffix_ok :: "real \<Rightarrow> real list \<Rightarrow> iteration_result list \<Rightarrow> key_result \<Rightarrow> bool" where
  "suffix_ok B qs its k \<longleftrightarrow>
     (\<exists>new. kr_iterations k = its @ new \<and>
        map ir_energy_allocated_percentage new = qs \<and>
        map ir_number new = [Suc (length its)..<Suc (length its + length qs)] \<and>
        B \<le> ir_surplus_total (last new))"

lemma suffix_ok_Cons:
  assumes "suffix_ok B (q' # qs) (its @ [it]) k" "ir_energy_allocated_percentage it = q"
    "ir_number it = length its + 1"
  shows "suffix_ok B (q # q' # qs) its k"
proof -
  obtain new where new: "kr_iterations k = its @ it # new"
    "map ir_energy_allocated_percentage new = q' # qs"
    "map ir_number new = [Suc (Suc (length its))..<Suc (Suc (length its) + Suc (length qs))]"
    "B \<le> ir_surplus_total (last new)"
    using assms(1) by (auto simp: suffix_ok_def)
  then show ?thesis
    using assms(2,3) by (auto simp: suffix_ok_def upt_conv_Cons intro!: exI [of _ "it # new"])
qed

lemma walk_suffix:
  "level_ok B (q # qs) algo nd \<Longrightarrow> k \<in> set (walk names nd its ns) \<Longrightarrow> suffix_ok B (q # qs) its k"
proof (induction qs arbitrary: q algo nd its ns)
  case Nil
  then show ?case by (cases nd) (auto simp: suffix_ok_def Let_def)
next
  case (Cons q' qs)
  obtain name s cs where nd: "nd = Node name s cs" by (cases nd)
  with Cons.prems have q: "s_energy_allocated_percentage s = q"
    and all: "list_all2 (level_ok B (q' # qs)) ALGO_NAMES cs" by simp_all
  have "cs \<noteq> []" using all by (auto simp: ALGO_NAMES_def)
  let ?it = "make_iteration_result s (length its + 1) names"
  obtain c where c: "c \<in> set cs" "k \<in> set (walk names c (its @ [?it]) (ns @ [name]))"
    using Cons.prems(2) \<open>cs \<noteq> []\<close> by (auto simp: nd Let_def)
  obtain algo' where "level_ok B (q' # qs) algo' c"
    using list_all2_in_set2 [OF all c(1)] by blast
  then have "suffix_ok B (q' # qs) (its @ [?it]) k" using c(2) by (rule Cons.IH)
  then show ?case by (rule suffix_ok_Cons) (simp_all add: q)
qed

lemma walk_reaches:
  "level_ok B (q # qs) ''prorata'' nd \<Longrightarrow> \<exists>k\<in>set (walk names nd its ns). final_surplus k = B"
proof (induction qs arbitrary: q nd its ns)
  case Nil
  then show ?case by (cases nd) (auto simp: final_surplus_def Let_def)
next
  case (Cons q' qs)
  obtain name s cs where nd: "nd = Node name s cs" by (cases nd)
  with Cons.prems have all: "list_all2 (level_ok B (q' # qs)) ALGO_NAMES cs" by simp
  then obtain c where c: "c \<in> set cs" "level_ok B (q' # qs) ''prorata'' c"
    using level_prorata by blast
  let ?its = "its @ [make_iteration_result s (length its + 1) names]" and ?ns = "ns @ [name]"
  obtain k where "k \<in> set (walk names c ?its ?ns)" "final_surplus k = B"
    using Cons.IH [OF c(2)] by blast
  then show ?case using c(1) by (auto simp: nd Let_def)
qed

section \<open>Keys of a run\<close>

definition valid_raw_data :: "raw_data \<Rightarrow> bool" where
  "valid_raw_data rd \<longleftrightarrow>
     rd_C rd \<noteq> [] \<and> length (rd_VA rd) = length (rd_C rd) \<and>
     (\<forall>r\<in>set (rd_VA rd). length r = shape1 (rd_VA rd)) \<and>
     (\<forall>r\<in>set (rd_C rd). length r = shape1 (rd_VA rd) \<and> (\<forall>x\<in>set r. 0 \<le> x))"

lemma run_forest:
  assumes "valid_raw_data rd" "map_of ins ''iterations'' = Some (VInt nb)" "nb \<in> {1, 2, 3}"
  obtains nodes where "generate nb (rd_C rd) (rd_VA rd) = Inr nodes"
    "forest_ok (min_surplus (rd_C rd) (rd_VA rd)) (plans nb) nodes"
    "BruteForce_run ins rd = Inr \<lparr> ar_keys = sort_key final_surplus
        (concat (map (\<lambda>nd. flatten_node nd (rd_consumer_names rd)) nodes)) \<rparr>"
proof -
  obtain nodes where "generate nb (rd_C rd) (rd_VA rd) = Inr nodes"
    "forest_ok (min_surplus (rd_C rd) (rd_VA rd)) (plans nb) nodes"
    using assms(1,3) generate_forest [of "rd_C rd" "rd_VA rd" "shape1 (rd_VA rd)" nb]
    unfolding valid_raw_data_def by auto
  with assms(2) show ?thesis by (intro that) (auto simp: BruteForce_run_def input_int_def Let_def)
qed

lemma forest_node:
  assumes "forest_ok B ps nodes" "nd \<in> set nodes"
  obtains plan algo where "plan \<in> set ps" "level_ok B plan algo nd"
proof -
  obtain groups g where "g \<in> set groups" "nd \<in> set g"
    and all: "list_all2 (\<lambda>plan. list_all2 (level_ok B plan) ALGO_NAMES) ps groups"
    using assms by (auto simp: forest_ok_def)
  then obtain plan where "plan \<in> set ps" "list_all2 (level_ok B plan) ALGO_NAMES g"
    using list_all2_in_set2 [OF all] by blast
  then obtain algo where "level_ok B plan algo nd"
    using list_all2_in_set2 [OF _ \<open>nd \<in> set g\<close>, of "level_ok B plan" ALGO_NAMES] by metis
  with \<open>plan \<in> set ps\<close> show ?thesis by (rule that)
qed

lemma forest_prorata:
  assumes "forest_ok B ps nodes" "ps \<noteq> []"
  obtains plan nd where "plan \<in> set ps" "nd \<in> set nodes" "level_ok B plan ''prorata'' nd"
proof -
  obtain groups where nodes: "nodes = concat groups"
    and all: "list_all2 (\<lambda>plan. list_all2 (level_ok B plan) ALGO_NAMES) ps groups"
    using assms(1) by (auto simp: forest_ok_def)
  then obtain plan ps' g gs where ps: "ps = plan # ps'" "groups = g # gs"
    "list_all2 (level_ok B plan) ALGO_NAMES g"
    using assms(2) by (cases ps) (auto simp: list_all2_Cons1)
  from level_prorata [OF ps(3)] obtain nd where "nd \<in> set g" "level_ok B plan ''prorata'' nd" by metis
  with ps nodes show ?thesis by (intro that [of plan nd]) simp_all
qed

lemma plans_nonempty: "nb \<in> {1, 2, 3} \<Longrightarrow> plans nb \<noteq> []"
  using length_plans by (metis insert_iff list.size(3) singletonD zero_neq_numeral zero_neq_one)

lemma forest_key_suffix:
  assumes "forest_ok B (plans nb) nodes" "nb \<in> {1, 2, 3}"
    and "k \<in> set (concat (map (\<lambda>nd. flatten_node nd names) nodes))"
  obtains plan where "plan \<in> set (plans nb)" "suffix_ok B plan [] k"
proof -
  obtain nd where nd: "nd \<in> set nodes" "k \<in> set (walk names nd [] [])"
    using assms(3) by (auto simp: flatten_node_def)
  obtain plan algo where plan: "plan \<in> set (plans nb)" "level_ok B plan algo nd"
    using forest_node [OF assms(1) nd(1)] .
  then obtain q qs where p: "plan = q # qs"
    using level_ok_nonempty [OF plan(2)] by (auto simp: neq_Nil_conv)
  show ?thesis
    using plan(1) walk_suffix [OF plan(2) [unfolded p] nd(2)] by (intro that [of plan]) (simp_all add: p)
qed

lemma suffix_final:
  assumes "suffix_ok B plan [] k" "plan \<in> set (plans nb)" "nb \<in> {1, 2, 3}"
  shows "B \<le> final_surplus k"
proof -
  have "plan \<noteq> []" using plan_props(2) [OF assms(3,2)] by auto
  with assms(1) show ?thesis by (auto simp: suffix_ok_def final_surplus_def)
qed

lemma sorted_hd_min:
  "x \<in> set (sort_key f xs) \<Longrightarrow> f (hd (sort_key f xs)) \<le> f x"
  using sorted_sort_key [of f xs] by (cases "sort_key f xs") auto

section \<open>Properties\<close>

text \<open>C1. On well-formed data (at least one consumer, rectangular matrices, no negative
  consumption) and for each admissible number of iterations, a brute-force run succeeds, the first
  key it returns leaves exactly the unavoidable surplus (production beyond the total demand of its
  time step), and no returned key leaves less.\<close>

theorem brute_force_optimal:
  assumes "valid_raw_data rd" "map_of ins ''iterations'' = Some (VInt nb)" "nb \<in> {1, 2, 3}"
  shows "\<exists>res. BruteForce_run ins rd = Inr res \<and> ar_keys res \<noteq> [] \<and>
    final_surplus (hd (ar_keys res)) = min_surplus (rd_C rd) (rd_VA rd) \<and>
    (\<forall>k\<in>set (ar_keys res). min_surplus (rd_C rd) (rd_VA rd) \<le> final_surplus k)"
proof -
  let ?B = "min_surplus (rd_C rd) (rd_VA rd)"
  obtain nodes where f: "forest_ok ?B (plans nb) nodes"
    and run: "BruteForce_run ins rd = Inr \<lparr> ar_keys = sort_key final_surplus
        (concat (map (\<lambda>nd. flatten_node nd (rd_consumer_names rd)) nodes)) \<rparr>"
    using run_forest [OF assms] by blast
  let ?keys = "concat (map (\<lambda>nd. flatten_node nd (rd_consumer_names rd)) nodes)"
  obtain plan nd where "plan \<in> set (plans nb)" "nd \<in> set nodes" "level_ok ?B plan ''prorata'' nd"
    using forest_prorata [OF f plans_nonempty [OF assms(3)]] .
  then obtain k where k: "k \<in> set ?keys" "final_surplus k = ?B"
    using walk_reaches [of ?B "hd plan" "tl plan" nd] level_ok_nonempty [of ?B plan]
    by (fastforce simp: flatten_node_def)
  have ge: "?B \<le> final_surplus k'" if "k' \<in> set ?keys" for k'
    using forest_key_suffix [OF f assms(3) that] suffix_final [OF _ _ assms(3)] by metis
  let ?s = "sort_key final_surplus ?keys"
  have "?s \<noteq> []" using k by (metis empty_iff list.set(1) set_sort)
  moreover have "final_surplus (hd ?s) \<le> ?B" using sorted_hd_min [of k final_surplus ?keys] k by simp
  moreover have "?B \<le> final_surplus (hd ?s)" using ge \<open>?s \<noteq> []\<close> by (metis hd_in_set set_sort)
  ultimately show ?thesis using run ge by auto
qed

definition example_data :: raw_data where
  "example_data = \<lparr> rd_C = [[2, 0], [1, 3]], rd_VA = [[2, 5], [2, 5]], rd_consumer_names = [''A'', ''B''] \<rparr>"

lemma example_valid: "valid_raw_data example_data"
  by (simp add: valid_raw_data_def example_data_def shape1_def)

lemma example_min_surplus: "min_surplus (rd_C example_data) (rd_VA example_data) = 2"
  by (simp add: min_surplus_def example_data_def shape1_def numeral_2_eq_2)

theorem brute_force_optimal_witness:
  "\<exists>res. BruteForce_run [(''iterations'', VInt 2)] example_data = Inr res \<and> ar_keys res \<noteq> [] \<and>
     final_surplus (hd (ar_keys res)) = 2 \<and> (\<forall>k\<in>set (ar_keys res). 2 \<le> final_surplus k)"
  using brute_force_optimal [OF example_valid, of "[(''iterations'', VInt 2)]" 2]
  by (simp add: example_min_surplus)

text \<open>C15. A brute-force run returns 3, 99 or 1782 keys for one, two or three iterations, ordered by
  final surplus; every key has one entry per iteration, numbered from 1, and its energy shares lie
  between 0 and 1 and add up to the whole production.\<close>

theorem brute_force_keys:
  assumes "valid_raw_data rd" "map_of ins ''iterations'' = Some (VInt nb)" "nb \<in> {1, 2, 3}"
  shows "\<exists>res. BruteForce_run ins rd = Inr res \<and>
    length (ar_keys res) = (if nb = 1 then 3 else if nb = 2 then 99 else 1782) \<and>
    sorted (map final_surplus (ar_keys res)) \<and>
    (\<forall>k\<in>set (ar_keys res).
       map ir_number (kr_iterations k) = [1..<Suc (nat nb)] \<and>
       (\<forall>it\<in>set (kr_iterations k).
          0 \<le> ir_energy_allocated_percentage it \<and> ir_energy_allocated_percentage it \<le> 1) \<and>
       sum_list (map ir_energy_allocated_percentage (kr_iterations k)) = 1)"
proof -
  let ?B = "min_surplus (rd_C rd) (rd_VA rd)"
  obtain nodes where f: "forest_ok ?B (plans nb) nodes"
    and run: "BruteForce_run ins rd = Inr \<lparr> ar_keys = sort_key final_surplus
        (concat (map (\<lambda>nd. flatten_node nd (rd_consumer_names rd)) nodes)) \<rparr>"
    using run_forest [OF assms] by blast
  let ?keys = "concat (map (\<lambda>nd. flatten_node nd (rd_consumer_names rd)) nodes)"
  have "length ?keys = sum_list (map leaf_count nodes)"
    by (simp add: length_concat flatten_node_def walk_length comp_def)
  also have "\<dots> = length (plans nb) * (3 * 3 ^ (nat nb - 1))"
  proof (rule forest_sum [OF f])
    fix plan algo nd assume "plan \<in> set (plans nb)" "level_ok ?B plan algo nd"
    then show "leaf_count nd = 3 ^ (nat nb - 1)"
      using plan_props(1) [OF assms(3)] level_counts [of ?B "hd plan" "tl plan"] level_ok_nonempty
      by fastforce
  qed
  also have "\<dots> = (if nb = 1 then 3 else if nb = 2 then 99 else 1782)"
    using assms(3) length_plans by auto
  finally have len: "length ?keys = (if nb = 1 then 3 else if nb = 2 then 99 else 1782)" .
  have "map ir_number (kr_iterations k) = [1..<Suc (nat nb)] \<and>
      (\<forall>it\<in>set (kr_iterations k).
         0 \<le> ir_energy_allocated_percentage it \<and> ir_energy_allocated_percentage it \<le> 1) \<and>
      sum_list (map ir_energy_allocated_percentage (kr_iterations k)) = 1"
    if k: "k \<in> set ?keys" for k
  proof -
    obtain plan where p: "plan \<in> set (plans nb)" "suffix_ok ?B plan [] k"
      using forest_key_suffix [OF f assms(3) k] .
    then have m: "map ir_energy_allocated_percentage (kr_iterations k) = plan"
      "map ir_number (kr_iterations k) = [1..<Suc (length plan)]"
      by (auto simp: suffix_ok_def)
    then have "\<forall>it\<in>set (kr_iterations k). ir_energy_allocated_percentage it \<in> set plan" by auto
    with m plan_props [OF assms(3) p(1)] show ?thesis by auto
  qed
  then show ?thesis using run len by simp
qed

theorem brute_force_keys_witness:
  "\<exists>res. BruteForce_run [(''iterations'', VInt 3)] example_data = Inr res \<and>
    length (ar_keys res) = 1782 \<and> sorted (map final_surplus (ar_keys res)) \<and>
    (\<forall>k\<in>set (ar_keys res).
       map ir_number (kr_iterations k) = [1..<4] \<and>
       (\<forall>it\<in>set (kr_iterations k).
          0 \<le> ir_energy_allocated_percentage it \<and> ir_energy_allocated_percentage it \<le> 1) \<and>
       sum_list (map ir_energy_allocated_percentage (kr_iterations k)) = 1)"
  using brute_force_keys [OF example_valid, of "[(''iterations'', VInt 3)]" 3] by simp

text \<open>C16. Every distribution function, on an iteration with consumers of equal horizon and
  non-negative consumption, hands out exactly the iteration's production at every time step: what
  the consumers use plus the iteration's surplus is the production, and each consumer's use plus
  its residual volume is its consumption.\<close>

theorem distribution_conserves_energy:
  assumes "wf_iteration n T it" "algo \<in> set ALGO_NAMES"
  shows "\<exists>nd it'. ALGOS algo it = Inr (nd, it') \<and>
    (\<forall>t<T.
       sum_list (map (\<lambda>c. c_energy_allocated c ! t) (it_consumers it')) = profile_of it ! t \<and>
       sum_list (map (\<lambda>c. c_energy_allocated_consumed c ! t) (it_consumers it')) +
         it_surplus it' ! t = profile_of it ! t \<and>
       (\<forall>c\<in>set (it_consumers it').
          c_energy_allocated_consumed c ! t + c_residual_volume c ! t = c_consumption c ! t)) \<and>
    map c_consumption (it_consumers it') = map c_consumption (it_consumers it)"
proof -
  have "stage n T it 1 it" using stage_whole [OF assms(1), of "it_energy_allocated_percentage it"] by simp
  then obtain s it' where alg: "ALGOS algo it = Inr (Node algo s [], it')" and d: "distributed n T it it'"
    using stage_algo [OF _ assms(2)] by blast
  have "c_energy_allocated_consumed c ! t + c_residual_volume c ! t = c_consumption c ! t"
    if "t < T" "c \<in> set (it_consumers it')" for c t
    using settled_nth [of c T t] distributed_consumer [OF d assms(1) that(2)] that(1)
    by (simp add: min_def max_def)
  then show ?thesis
    using alg d distributed_consumed [OF d assms(1)] by (auto simp: distributed_def shares_out_def)
qed

definition example_iteration :: bf_iteration where
  "example_iteration = make_root_iteration (rd_C example_data) (rd_VA example_data)"

lemma example_wf: "wf_iteration 2 2 example_iteration"
  using wf_root_iteration(1) [of "rd_C example_data" "rd_VA example_data" 2]
  by (simp add: example_iteration_def example_data_def shape1_def numeral_2_eq_2)

theorem distribution_conserves_energy_witness:
  "\<exists>nd it'. ALGOS ''prorata'' example_iteration = Inr (nd, it') \<and>
    (\<forall>t<2.
       sum_list (map (\<lambda>c. c_energy_allocated c ! t) (it_consumers it')) =
         profile_of example_iteration ! t \<and>
       sum_list (map (\<lambda>c. c_energy_allocated_consumed c ! t) (it_consumers it')) +
         it_surplus it' ! t = profile_of example_iteration ! t \<and>
       (\<forall>c\<in>set (it_consumers it').
          c_energy_allocated_consumed c ! t + c_residual_volume c ! t = c_consumption c ! t)) \<and>
    map c_consumption (it_consumers it') = map c_consumption (it_consumers example_iteration)"
  using distribution_conserves_energy [OF example_wf, of "''prorata''"] by (simp add: ALGO_NAMES_def)

text \<open>The enumeration builds 3, 132 or 2574 nodes for one, two or three iterations, the figure
  \<open>node.py\<close> gives for its memory estimate.\<close>

theorem enumeration_node_count:
  assumes "valid_raw_data rd" "nb \<in> {1, 2, 3}"
  shows "\<exists>nodes. generate nb (rd_C rd) (rd_VA rd) = Inr nodes \<and>
    sum_list (map node_count nodes) = (if nb = 1 then 3 else if nb = 2 then 132 else 2574)"
proof -
  let ?B = "min_surplus (rd_C rd) (rd_VA rd)"
  obtain nodes where g: "generate nb (rd_C rd) (rd_VA rd) = Inr nodes" and f: "forest_ok ?B (plans nb) nodes"
    using run_forest [OF assms(1) _ assms(2), of "[(''iterations'', VInt nb)]"] by auto
  have "sum_list (map (\<lambda>nd. 2 * node_count nd) nodes) =
      length (plans nb) * (3 * (3 ^ nat nb - 1))"
  proof (rule forest_sum [OF f])
    fix plan algo nd assume p: "plan \<in> set (plans nb)" "level_ok ?B plan algo nd"
    then have "plan = hd plan # tl plan" using level_ok_nonempty by simp
    moreover have "length plan = nat nb" using plan_props(1) [OF assms(2) p(1)] .
    ultimately show "2 * node_count nd = 3 ^ nat nb - 1"
      using p(2) level_counts [of ?B "hd plan" "tl plan" algo nd] by (metis length_Cons)
  qed
  then have "2 * sum_list (map node_count nodes) = length (plans nb) * (3 * (3 ^ nat nb - 1))"
    by (simp add: sum_list_const_mult)
  then show ?thesis using g assms(2) length_plans by auto
qed

theorem enumeration_node_count_witness:
  "\<exists>nodes. generate 3 (rd_C example_data) (rd_VA example_data) = Inr nodes \<and>
    sum_list (map node_count nodes) = 2574"
  using enumeration_node_count [OF example_valid, of 3] by simp

text \<open>The enumeration refuses a number of iterations other than 1, 2 and 3, and fails on input
  without consumers, whatever the number of iterations, before any key is built.\<close>

theorem enumeration_errors:
  "(nb \<notin> {1, 2, 3} \<longrightarrow> generate nb C VA = Inl (ValueError ''nb_iterations must be 1, 2 or 3'')) \<and>
   (nb \<in> {1, 2, 3} \<longrightarrow> generate nb [] VA = Inl ZeroDivisionError)"
proof -
  have eg: "ALGOS ''egalitaire'' it = Inl ZeroDivisionError" if "it_consumers it = []" for it
    using that by (simp add: ALGOS_def egalitaire_def)
  have names: "ALGO_NAMES = ''egalitaire'' # [''prorata_total'', ''prorata'']"
    by (simp add: ALGO_NAMES_def)
  have empty: "it_consumers (make_root_iteration [] VA) = []"
    by (simp add: make_root_iteration_def Iteration_def)
  have one: "one_iteration root_it = Inl ZeroDivisionError"
    and two: "two_iterations root_it VA' = Inl ZeroDivisionError"
    and three: "three_iterations root_it VA' = Inl ZeroDivisionError"
    if "it_consumers root_it = []" for root_it VA'
    using that
    by (simp_all add: one_iteration_def two_iterations_def three_iterations_def apply_first_def
        names eg upt_conv_Cons Let_def)
  show ?thesis using one two three empty by (auto simp: generate_def Let_def)
qed

theorem enumeration_errors_witness:
  "generate 4 [[1]] [[1]] = Inl (ValueError ''nb_iterations must be 1, 2 or 3'') \<and>
   generate 2 [] [] = Inl ZeroDivisionError"
  using enumeration_errors [of 4 "[[1]]" "[[1]]"] enumeration_errors [of 2 "[]" "[]"] by simp

end
