(* ===== verification/OlagsaGeometry.thy ===== *)
theory OlagsaGeometry
  imports Prelude
begin

text \<open>
  The species space of OLAGSA (\<open>olagsa/_impl/coordinate.py\<close>, \<open>segment.py\<close>, \<open>specie.py\<close>,
  \<open>individual.py\<close> and the space construction of \<open>ga.py\<close>): the candidates of a key with two
  iterations are points of the segment \<open>x + y = 1\<close>, those of a key with three iterations points
  of the triangle \<open>x + y + z = 1\<close>; the space is cut into segments or, recursively, into
  triangles. The lemmas show that the pieces cover the whole space and how many there are.
\<close>

section \<open>Coordinates and regions\<close>

text \<open>\<open>Coordinate\<close> and its subclass \<open>Coordinate3D\<close>; \<open>cz\<close> is \<open>getattr(c, "z", 0)\<close>.\<close>

datatype coordinate = Coordinate (cx: real) (cy: real) | Coordinate3D (cx: real) (cy: real) (z3: real)

definition cz :: "coordinate \<Rightarrow> real" where
  "cz c = (case c of Coordinate _ _ \<Rightarrow> 0 | Coordinate3D _ _ z \<Rightarrow> z)"

definition divide_coordinate :: "coordinate \<Rightarrow> real \<Rightarrow> coordinate" where
  "divide_coordinate c d = Coordinate3D (cx c / d) (cy c / d) (cz c / d)"

definition sum_coordinates_3d :: "coordinate \<Rightarrow> coordinate \<Rightarrow> coordinate" where
  "sum_coordinates_3d a b = Coordinate3D (cx a + cx b) (cy a + cy b) (cz a + cz b)"

record segment =
  point_a :: coordinate
  point_b :: coordinate

definition segment_point_within :: "segment \<Rightarrow> coordinate \<Rightarrow> bool" where
  "segment_point_within seg c =
     (let xa = cx (point_a seg); ya = cy (point_a seg);
          xb = cx (point_b seg); yb = cy (point_b seg);
          crossproduct = (cy c - ya) * (xb - xa) - (cx c - xa) * (yb - ya);
          dotproduct = (cx c - xa) * (xb - xa) + (cy c - ya) * (yb - ya);
          squared_length = (xb - xa)\<^sup>2 + (yb - ya)\<^sup>2
      in if \<bar>crossproduct\<bar> > 1 / 100 then False
         else if dotproduct < 0 then False
         else dotproduct \<le> squared_length)"

definition distance_3d :: "coordinate \<Rightarrow> coordinate \<Rightarrow> real" where
  "distance_3d a b = sqrt ((cx a - cx b)\<^sup>2 + (cy a - cy b)\<^sup>2 + (cz a - cz b)\<^sup>2)"

record triangle =
  tri_a :: coordinate
  tri_b :: coordinate
  tri_c :: coordinate
  side_length :: real

definition Triangle :: "coordinate \<Rightarrow> coordinate \<Rightarrow> coordinate \<Rightarrow> triangle" where
  "Triangle a b c = \<lparr> tri_a = a, tri_b = b, tri_c = c, side_length = distance_3d a b \<rparr>"

definition triangle_point_within :: "triangle \<Rightarrow> coordinate \<Rightarrow> bool" where
  "triangle_point_within tri p \<longleftrightarrow>
     distance_3d (tri_a tri) p \<le> side_length tri \<and>
     distance_3d (tri_b tri) p \<le> side_length tri \<and>
     distance_3d (tri_c tri) p \<le> side_length tri"

section \<open>Individuals and species\<close>

record individual =
  chromosomes :: "real list"
  fitness :: real
  adjusted_fitness :: real

definition Individual :: "real list \<Rightarrow> real \<Rightarrow> individual" where
  "Individual chrom fit = \<lparr> chromosomes = chrom, fitness = fit, adjusted_fitness = 0 \<rparr>"

record specie =
  sp_id :: nat
  sp_individuals :: "individual list"
  sp_iteration_without_improvement :: nat
  sp_best_fitness :: real
  sp_is_same_specie :: "(coordinate \<Rightarrow> bool) option"
  sp_centroid :: "coordinate option"

definition Specie :: "nat \<Rightarrow> individual list \<Rightarrow> specie" where
  "Specie sid inds =
     \<lparr> sp_id = sid, sp_individuals = inds, sp_iteration_without_improvement = 0,
       sp_best_fitness = 0, sp_is_same_specie = None, sp_centroid = None \<rparr>"

section \<open>Construction of the species space\<close>

definition line_func :: "real \<Rightarrow> real" where
  "line_func x = - x + 1"

text \<open>The loop of \<open>_find_midpoints\<close>: \<open>k\<close> turns from the running \<open>value\<close>.\<close>

fun midpoints_loop :: "real \<Rightarrow> nat \<Rightarrow> real \<Rightarrow> coordinate list" where
  "midpoints_loop base_value 0 v = []"
| "midpoints_loop base_value (Suc k) v =
     Coordinate v (line_func v) # midpoints_loop base_value k (v + base_value)"

definition find_midpoints :: "nat \<Rightarrow> coordinate list result" where
  "find_midpoints depth =
     (if depth = 0 then Inl ZeroDivisionError
      else Inr (midpoints_loop (1 / real depth) (depth - 1) (1 / real depth)))"

fun segments_loop :: "coordinate \<Rightarrow> coordinate list \<Rightarrow> segment list" where
  "segments_loop start [] = [\<lparr> point_a = start, point_b = Coordinate 1 0 \<rparr>]"
| "segments_loop start (mid # mids) = \<lparr> point_a = start, point_b = mid \<rparr> # segments_loop mid mids"

definition build_segments :: "coordinate list \<Rightarrow> segment list" where
  "build_segments mids = segments_loop (Coordinate 0 1) mids"

fun divide_triangle :: "coordinate \<Rightarrow> coordinate \<Rightarrow> coordinate \<Rightarrow> nat \<Rightarrow> triangle list" where
  "divide_triangle a b c 0 = [Triangle a b c]"
| "divide_triangle a b c (Suc depth) =
     (let ab_mid = divide_coordinate (sum_coordinates_3d a b) 2;
          ac_mid = divide_coordinate (sum_coordinates_3d a c) 2;
          bc_mid = divide_coordinate (sum_coordinates_3d b c) 2
      in divide_triangle a ab_mid ac_mid depth @ divide_triangle b ab_mid bc_mid depth @
         divide_triangle c ac_mid bc_mid depth @ divide_triangle ab_mid ac_mid bc_mid depth)"

text \<open>Fresh ids: \<open>_next_specie_id\<close> returns the counter and increments it.\<close>

definition next_specie_id :: "nat \<Rightarrow> nat \<times> nat" where
  "next_specie_id last_specie_id = (last_specie_id, last_specie_id + 1)"

definition segment_specie :: "nat \<Rightarrow> segment \<Rightarrow> specie" where
  "segment_specie sid seg =
     (Specie sid [])
       \<lparr> sp_is_same_specie := Some (segment_point_within seg),
         sp_centroid := Some (Coordinate ((cx (point_a seg) + cx (point_b seg)) / 2)
                                         ((cy (point_a seg) + cy (point_b seg)) / 2)) \<rparr>"

definition triangle_specie :: "nat \<Rightarrow> triangle \<Rightarrow> specie" where
  "triangle_specie sid tri =
     (Specie sid [])
       \<lparr> sp_is_same_specie := Some (triangle_point_within tri),
         sp_centroid := Some (Coordinate3D
            ((cx (tri_a tri) + cx (tri_b tri) + cx (tri_c tri)) / 3)
            ((cy (tri_a tri) + cy (tri_b tri) + cy (tri_c tri)) / 3)
            ((cz (tri_a tri) + cz (tri_b tri) + cz (tri_c tri)) / 3)) \<rparr>"

fun make_species :: "(nat \<Rightarrow> 'r \<Rightarrow> specie) \<Rightarrow> nat \<Rightarrow> 'r list \<Rightarrow> specie list \<times> nat" where
  "make_species mk counter [] = ([], counter)"
| "make_species mk counter (r # rs) =
     (let (sid, counter') = next_specie_id counter;
          (ss, counter'') = make_species mk counter' rs
      in (mk sid r # ss, counter''))"

text \<open>
  \<open>_initialize_species\<close>: the species, the id counter and the value left in
  \<open>self.species_waited\<close> (the number of triangles in the three-iteration case).
\<close>

definition initialize_species :: "nat \<Rightarrow> nat \<Rightarrow> nat \<Rightarrow> (specie list \<times> nat \<times> nat) result" where
  "initialize_species num_key_iteration species_waited counter =
     (if num_key_iteration = 2 then
        rbind (find_midpoints species_waited) (\<lambda>mids.
          let (ss, counter') = make_species segment_specie counter (build_segments mids)
          in Inr (ss, counter', species_waited))
      else if num_key_iteration = 3 then
        (let triangles = divide_triangle (Coordinate3D 1 0 0) (Coordinate3D 0 1 0) (Coordinate3D 0 0 1)
                           species_waited;
             (ss, counter') = make_species triangle_specie counter triangles
         in Inr (ss, counter', length triangles))
      else Inl (ValueError (''Unsupported num_key_iteration='' @ show_nat num_key_iteration @
             '' (species are defined for 2 or 3 iterations; run() solves 1 directly).'')))"

definition chromosome_to_coordinate :: "real list \<Rightarrow> coordinate result" where
  "chromosome_to_coordinate chrom =
     (if length chrom = 2 then Inr (Coordinate (chrom ! 0) (chrom ! 1))
      else if 3 \<le> length chrom then Inr (Coordinate3D (chrom ! 0) (chrom ! 1) (chrom ! 2))
      else Inl IndexError)"

section \<open>Ids\<close>

lemma make_species_ids:
  "make_species mk counter rs = (ss, counter') \<Longrightarrow> (\<And>sid r. sp_id (mk sid r) = sid) \<Longrightarrow>
    map sp_id ss = [counter..<counter + length rs] \<and> counter' = counter + length rs"
proof (induction rs arbitrary: counter ss)
  case Nil
  then show ?case by simp
next
  case (Cons r rs)
  obtain xs c where "make_species mk (Suc counter) rs = (xs, c)" by (cases "make_species mk (Suc counter) rs")
  with Cons.prems have eq: "make_species mk (Suc counter) rs = (xs, counter')" "ss = mk counter r # xs"
    by (auto simp: next_specie_id_def)
  from Cons.IH [OF eq(1) Cons.prems(2)] eq(2) Cons.prems(2) show ?case
    by (simp add: upt_conv_Cons del: upt_Suc)
qed

lemma make_species_members:
  "make_species mk counter rs = (ss, counter') \<Longrightarrow> r \<in> set rs \<Longrightarrow> \<exists>sid. mk sid r \<in> set ss"
  by (induction rs arbitrary: counter ss) (fastforce simp: next_specie_id_def split: prod.splits)+

lemma make_species_all:
  "make_species mk counter rs = (ss, counter') \<Longrightarrow> (\<And>sid r. P (mk sid r)) \<Longrightarrow> list_all P ss"
  by (induction rs arbitrary: counter ss) (auto simp: next_specie_id_def split: prod.splits)

lemma specie_fields [simp]:
  "sp_id (segment_specie sid seg) = sid"
  "sp_id (triangle_specie sid tri) = sid"
  "sp_is_same_specie (segment_specie sid seg) = Some (segment_point_within seg)"
  "sp_is_same_specie (triangle_specie sid tri) = Some (triangle_point_within tri)"
  "sp_individuals (segment_specie sid seg) = []"
  "sp_individuals (triangle_specie sid tri) = []"
  by (simp_all add: segment_specie_def triangle_specie_def Specie_def)

section \<open>Segments cover the line\<close>

lemma midpoints_length: "length (midpoints_loop b k v) = k"
  by (induction k arbitrary: v) simp_all

lemma segments_length: "length (segments_loop start mids) = Suc (length mids)"
  by (induction mids arbitrary: start) simp_all

definition on_line :: "real \<Rightarrow> coordinate" where
  "on_line x = Coordinate x (line_func x)"

lemma within_on_line:
  assumes "a \<le> x" "x \<le> b"
  shows "segment_point_within \<lparr> point_a = on_line a, point_b = on_line b \<rparr> (on_line x)"
proof -
  have "0 \<le> (x - a) * (b - a)" using assms by simp
  moreover have "(x - a) * (b - a) \<le> (b - a) * (b - a)" using assms by (intro mult_right_mono) auto
  ultimately show ?thesis
    by (simp add: segment_point_within_def on_line_def line_func_def Let_def power2_eq_square algebra_simps)
qed

lemma segments_cover:
  assumes "0 \<le> b" "v + real k * b = 1" "a \<le> x" "x \<le> 1" "a \<le> v"
  shows "\<exists>seg\<in>set (segments_loop (on_line a) (midpoints_loop b k v)). segment_point_within seg (on_line x)"
  using assms(2-)
proof (induction k arbitrary: a v)
  case 0
  then show ?case using within_on_line [of a x 1] by (simp add: on_line_def line_func_def)
next
  case (Suc k)
  show ?case
  proof (cases "x \<le> v")
    case True
    with Suc.prems within_on_line [of a x v] show ?thesis by (simp add: on_line_def)
  next
    case False
    with Suc.prems have "v + b + real k * b = 1" "v \<le> x" by (simp_all add: algebra_simps)
    from Suc.IH [OF this Suc.prems(3), of ] assms(1) show ?thesis by (simp add: on_line_def)
  qed
qed

lemma build_segments_cover:
  assumes "0 < depth" "0 \<le> x" "x \<le> 1" "find_midpoints depth = Inr mids"
  shows "\<exists>seg\<in>set (build_segments mids). segment_point_within seg (Coordinate x (1 - x))"
proof -
  have "1 / real depth + real (depth - 1) * (1 / real depth) = 1"
    using assms(1) by (simp add: of_nat_diff field_simps)
  from segments_cover [OF _ this, of 0 x] assms show ?thesis
    by (simp add: find_midpoints_def build_segments_def on_line_def line_func_def)
qed

section \<open>Triangles cover the simplex\<close>

definition dist2 :: "coordinate \<Rightarrow> coordinate \<Rightarrow> real" where
  "dist2 a b = (cx a - cx b)\<^sup>2 + (cy a - cy b)\<^sup>2 + (cz a - cz b)\<^sup>2"

definition equilateral :: "real \<Rightarrow> coordinate \<Rightarrow> coordinate \<Rightarrow> coordinate \<Rightarrow> bool" where
  "equilateral s a b c \<longleftrightarrow> dist2 a b = s \<and> dist2 a c = s \<and> dist2 b c = s"

text \<open>The point with the barycentric weights \<open>u\<close>, \<open>v\<close>, \<open>w\<close>.\<close>

definition bary :: "real \<Rightarrow> real \<Rightarrow> real \<Rightarrow> coordinate \<Rightarrow> coordinate \<Rightarrow> coordinate \<Rightarrow> coordinate" where
  "bary u v w a b c = Coordinate3D (u * cx a + v * cx b + w * cx c) (u * cy a + v * cy b + w * cy c)
     (u * cz a + v * cz b + w * cz c)"

lemma coord3_simps [simp]: "cx (Coordinate3D x y z) = x" "cy (Coordinate3D x y z) = y" "cz (Coordinate3D x y z) = z"
  by (simp_all add: cz_def)

lemma dist2_bary:
  assumes "equilateral s a b c" "u + v + w = 1"
  shows "dist2 a (bary u v w a b c) = s * (v\<^sup>2 + w\<^sup>2 + v * w)"
proof -
  have u: "u = 1 - v - w" using assms(2) by simp
  have "dist2 a (bary u v w a b c) =
      v\<^sup>2 * dist2 a b + w\<^sup>2 * dist2 a c + v * w * (dist2 a b + dist2 a c - dist2 b c)"
    unfolding dist2_def bary_def u coord3_simps by (simp add: power2_eq_square algebra_simps)
  then show ?thesis using assms(1) by (simp add: equilateral_def algebra_simps)
qed

lemma bary_permute: "bary u v w a b c = bary v u w b a c" "bary u v w a b c = bary w v u c b a"
  by (simp_all add: bary_def)

lemma dist2_bary_le:
  assumes "equilateral s a b c" "0 \<le> u" "0 \<le> v" "0 \<le> w" "u + v + w = 1"
  shows "dist2 a (bary u v w a b c) \<le> s"
proof -
  have "0 \<le> s" using assms(1) by (auto simp: equilateral_def dist2_def)
  have "v\<^sup>2 + w\<^sup>2 + v * w \<le> (v + w)\<^sup>2" using assms by (simp add: power2_sum)
  also have "\<dots> \<le> 1" using assms by (simp add: power_le_one)
  finally have "s * (v\<^sup>2 + w\<^sup>2 + v * w) \<le> s * 1" using \<open>0 \<le> s\<close> by (rule mult_left_mono)
  then show ?thesis using dist2_bary [OF assms(1,5)] by simp
qed

lemma equilateral_permute:
  "equilateral s a b c \<Longrightarrow> equilateral s b a c" "equilateral s a b c \<Longrightarrow> equilateral s c b a"
  by (auto simp: equilateral_def dist2_def power2_commute)

lemma triangle_within_bary:
  assumes "equilateral s a b c" "0 \<le> u" "0 \<le> v" "0 \<le> w" "u + v + w = 1"
  shows "triangle_point_within (Triangle a b c) (bary u v w a b c)"
proof -
  have d: "distance_3d p q = sqrt (dist2 p q)" for p q by (simp add: distance_3d_def dist2_def)
  have "dist2 a (bary u v w a b c) \<le> s" by (rule dist2_bary_le [OF assms])
  moreover have "dist2 b (bary u v w a b c) \<le> s"
    using dist2_bary_le [OF equilateral_permute(1) [OF assms(1)], of v u w] assms
    by (simp add: bary_permute(1) [of u v w a b c])
  moreover have "dist2 c (bary u v w a b c) \<le> s"
    using dist2_bary_le [OF equilateral_permute(2) [OF assms(1)], of w v u] assms
    by (simp add: bary_permute(2) [of u v w a b c])
  moreover have "dist2 a b = s" using assms(1) by (simp add: equilateral_def)
  ultimately show ?thesis by (simp add: triangle_point_within_def Triangle_def d)
qed

abbreviation midpoint3 :: "coordinate \<Rightarrow> coordinate \<Rightarrow> coordinate" where
  "midpoint3 a b \<equiv> divide_coordinate (sum_coordinates_3d a b) 2"

lemma midpoint3_coords [simp]:
  "cx (midpoint3 a b) = (cx a + cx b) / 2" "cy (midpoint3 a b) = (cy a + cy b) / 2"
  "cz (midpoint3 a b) = (cz a + cz b) / 2"
  by (simp_all add: divide_coordinate_def sum_coordinates_3d_def)

lemma dist2_mid: "dist2 a (midpoint3 a b) = dist2 a b / 4" "dist2 b (midpoint3 a b) = dist2 a b / 4"
  "dist2 (midpoint3 a b) (midpoint3 a c) = dist2 b c / 4"
  "dist2 (midpoint3 a c) (midpoint3 b c) = dist2 a b / 4"
  "dist2 (midpoint3 a b) (midpoint3 b c) = dist2 a c / 4"
  unfolding dist2_def midpoint3_coords by (simp_all add: power2_eq_square field_simps)

lemma equilateral_sub:
  assumes "equilateral s a b c"
  shows "equilateral (s / 4) a (midpoint3 a b) (midpoint3 a c)"
    "equilateral (s / 4) b (midpoint3 a b) (midpoint3 b c)"
    "equilateral (s / 4) c (midpoint3 a c) (midpoint3 b c)"
    "equilateral (s / 4) (midpoint3 a b) (midpoint3 a c) (midpoint3 b c)"
  using assms by (simp_all add: equilateral_def dist2_mid)

lemma bary_sub:
  assumes "u + v + w = 1"
  shows "bary u v w a b c = bary (2 * u - 1) (2 * v) (2 * w) a (midpoint3 a b) (midpoint3 a c)"
    "bary u v w a b c = bary (2 * v - 1) (2 * u) (2 * w) b (midpoint3 a b) (midpoint3 b c)"
    "bary u v w a b c = bary (2 * w - 1) (2 * u) (2 * v) c (midpoint3 a c) (midpoint3 b c)"
    "bary u v w a b c = bary (1 - 2 * w) (1 - 2 * v) (1 - 2 * u) (midpoint3 a b) (midpoint3 a c) (midpoint3 b c)"
proof -
  have u: "u = 1 - v - w" using assms by simp
  show "bary u v w a b c = bary (2 * u - 1) (2 * v) (2 * w) a (midpoint3 a b) (midpoint3 a c)"
    "bary u v w a b c = bary (2 * v - 1) (2 * u) (2 * w) b (midpoint3 a b) (midpoint3 b c)"
    "bary u v w a b c = bary (2 * w - 1) (2 * u) (2 * v) c (midpoint3 a c) (midpoint3 b c)"
    "bary u v w a b c = bary (1 - 2 * w) (1 - 2 * v) (1 - 2 * u) (midpoint3 a b) (midpoint3 a c) (midpoint3 b c)"
    unfolding bary_def midpoint3_coords u by (simp_all add: field_simps)
qed

lemma divide_triangle_cover:
  assumes "equilateral s a b c" "0 \<le> u" "0 \<le> v" "0 \<le> w" "u + v + w = 1"
  shows "\<exists>tri\<in>set (divide_triangle a b c depth). triangle_point_within tri (bary u v w a b c)"
  using assms
proof (induction depth arbitrary: s a b c u v w)
  case 0
  then show ?case using triangle_within_bary by simp
next
  case (Suc depth)
  note eq = equilateral_sub [OF Suc.prems(1)] and sub = bary_sub [OF Suc.prems(5), of a b c]
  consider "1 / 2 \<le> u" | "1 / 2 \<le> v" | "1 / 2 \<le> w" | "u < 1 / 2" "v < 1 / 2" "w < 1 / 2" by linarith
  then show ?case
  proof cases
    case 1
    with Suc.prems have "\<exists>tri\<in>set (divide_triangle a (midpoint3 a b) (midpoint3 a c) depth).
        triangle_point_within tri (bary u v w a b c)"
      unfolding sub(1) by (intro Suc.IH [OF eq(1)]) auto
    then show ?thesis by (auto simp: Let_def)
  next
    case 2
    with Suc.prems have "\<exists>tri\<in>set (divide_triangle b (midpoint3 a b) (midpoint3 b c) depth).
        triangle_point_within tri (bary u v w a b c)"
      unfolding sub(2) by (intro Suc.IH [OF eq(2)]) auto
    then show ?thesis by (auto simp: Let_def)
  next
    case 3
    with Suc.prems have "\<exists>tri\<in>set (divide_triangle c (midpoint3 a c) (midpoint3 b c) depth).
        triangle_point_within tri (bary u v w a b c)"
      unfolding sub(3) by (intro Suc.IH [OF eq(3)]) auto
    then show ?thesis by (auto simp: Let_def)
  next
    case 4
    with Suc.prems have "\<exists>tri\<in>set (divide_triangle (midpoint3 a b) (midpoint3 a c) (midpoint3 b c) depth).
        triangle_point_within tri (bary u v w a b c)"
      unfolding sub(4) by (intro Suc.IH [OF eq(4)]) auto
    then show ?thesis by (auto simp: Let_def)
  qed
qed

lemma divide_triangle_length: "length (divide_triangle a b c depth) = 4 ^ depth"
  by (induction depth arbitrary: a b c) (simp_all add: Let_def)

section \<open>The species space\<close>

definition specie_accepts :: "specie \<Rightarrow> coordinate \<Rightarrow> bool" where
  "specie_accepts s p = (case sp_is_same_specie s of None \<Rightarrow> False | Some f \<Rightarrow> f p)"

text \<open>A candidate: the shares of the production per iteration, not negative and adding up to one.\<close>

definition allocation :: "nat \<Rightarrow> real list \<Rightarrow> bool" where
  "allocation n ch \<longleftrightarrow> length ch = n \<and> list_all (\<lambda>x. 0 \<le> x) ch \<and> sum_list ch = 1"

text \<open>
  The number of species the space is cut into: the configured one for two iterations, a power of
  four for three iterations.
\<close>

definition species_count :: "nat \<Rightarrow> nat \<Rightarrow> nat" where
  "species_count num_key_iteration waited = (if num_key_iteration = 2 then waited else 4 ^ waited)"

lemma allocation_2:
  assumes "allocation 2 ch"
  obtains x where "0 \<le> x" "x \<le> 1" "ch = [x, 1 - x]"
proof -
  obtain x y where "ch = [x, y]" using assms
    by (auto simp: allocation_def length_Suc_conv numeral_2_eq_2)
  with assms that [of x] show thesis by (auto simp: allocation_def)
qed

lemma allocation_3:
  assumes "allocation 3 ch"
  obtains x y z where "0 \<le> x" "0 \<le> y" "0 \<le> z" "x + y + z = 1" "ch = [x, y, z]"
proof -
  obtain x y z where "ch = [x, y, z]" using assms
    by (auto simp: allocation_def length_Suc_conv numeral_3_eq_3)
  with assms that [of x y z] show thesis by (auto simp: allocation_def)
qed

lemma initialize_species_2:
  assumes "0 < n"
  shows "\<exists>ss. initialize_species 2 n c = Inr (ss, c + n, n) \<and> map sp_id ss = [c..<c + n] \<and>
     list_all (\<lambda>s. sp_individuals s = [] \<and> sp_is_same_specie s \<noteq> None) ss \<and>
     (\<forall>ch. allocation 2 ch \<longrightarrow>
        (\<exists>p. chromosome_to_coordinate ch = Inr p \<and> (\<exists>s\<in>set ss. specie_accepts s p)))"
proof -
  obtain mids where mids: "find_midpoints n = Inr mids" using assms by (simp add: find_midpoints_def)
  have len: "length (build_segments mids) = n"
    using mids assms by (auto simp: find_midpoints_def build_segments_def segments_length midpoints_length)
  obtain ss c' where ss: "make_species segment_specie c (build_segments mids) = (ss, c')"
    by (cases "make_species segment_specie c (build_segments mids)")
  have all: "list_all (\<lambda>s. sp_individuals s = [] \<and> sp_is_same_specie s \<noteq> None) ss"
    by (rule make_species_all [OF ss]) simp
  have cover: "\<exists>p. chromosome_to_coordinate ch = Inr p \<and> (\<exists>s\<in>set ss. specie_accepts s p)"
    if ch: "allocation 2 ch" for ch
  proof -
    obtain x where x: "0 \<le> x" "x \<le> 1" "ch = [x, 1 - x]" using allocation_2 [OF ch] by blast
    obtain seg where seg: "seg \<in> set (build_segments mids)" "segment_point_within seg (Coordinate x (1 - x))"
      using build_segments_cover [OF assms x(1,2) mids] by blast
    obtain sid where "segment_specie sid seg \<in> set ss" using make_species_members [OF ss seg(1)] by blast
    with seg(2) have "\<exists>s\<in>set ss. specie_accepts s (Coordinate x (1 - x))"
      by (intro bexI [of _ "segment_specie sid seg"]) (simp_all add: specie_accepts_def)
    then show ?thesis using x(3) by (simp add: chromosome_to_coordinate_def)
  qed
  show ?thesis using make_species_ids [OF ss] len all cover mids ss
    by (simp add: initialize_species_def)
qed

lemma equilateral_unit: "equilateral 2 (Coordinate3D 1 0 0) (Coordinate3D 0 1 0) (Coordinate3D 0 0 1)"
  by (simp add: equilateral_def dist2_def)

lemma initialize_species_3:
  shows "\<exists>ss. initialize_species 3 n c = Inr (ss, c + 4 ^ n, 4 ^ n) \<and> map sp_id ss = [c..<c + 4 ^ n] \<and>
     list_all (\<lambda>s. sp_individuals s = [] \<and> sp_is_same_specie s \<noteq> None) ss \<and>
     (\<forall>ch. allocation 3 ch \<longrightarrow>
        (\<exists>p. chromosome_to_coordinate ch = Inr p \<and> (\<exists>s\<in>set ss. specie_accepts s p)))"
proof -
  let ?T = "divide_triangle (Coordinate3D 1 0 0) (Coordinate3D 0 1 0) (Coordinate3D 0 0 1) n"
  obtain ss c' where ss: "make_species triangle_specie c ?T = (ss, c')"
    by (cases "make_species triangle_specie c ?T")
  have all: "list_all (\<lambda>s. sp_individuals s = [] \<and> sp_is_same_specie s \<noteq> None) ss"
    by (rule make_species_all [OF ss]) simp
  have cover: "\<exists>p. chromosome_to_coordinate ch = Inr p \<and> (\<exists>s\<in>set ss. specie_accepts s p)"
    if ch: "allocation 3 ch" for ch
  proof -
    obtain x y z where xyz: "0 \<le> x" "0 \<le> y" "0 \<le> z" "x + y + z = 1" "ch = [x, y, z]"
      using allocation_3 [OF ch] by blast
    have "bary x y z (Coordinate3D 1 0 0) (Coordinate3D 0 1 0) (Coordinate3D 0 0 1) = Coordinate3D x y z"
      by (simp add: bary_def)
    then obtain tri where tri: "tri \<in> set ?T" "triangle_point_within tri (Coordinate3D x y z)"
      using divide_triangle_cover [OF equilateral_unit xyz(1-4), of n] by auto
    obtain sid where "triangle_specie sid tri \<in> set ss" using make_species_members [OF ss tri(1)] by blast
    with tri(2) have "\<exists>s\<in>set ss. specie_accepts s (Coordinate3D x y z)"
      by (intro bexI [of _ "triangle_specie sid tri"]) (simp_all add: specie_accepts_def)
    then show ?thesis using xyz(5) by (simp add: chromosome_to_coordinate_def)
  qed
  show ?thesis using make_species_ids [OF ss] all cover ss
    by (simp add: initialize_species_def divide_triangle_length)
qed

end
