(* ===== verification/Effects.thy ===== *)
theory Effects
  imports Prelude
begin

text \<open>
  Effectful code as state transformers that may raise: an action takes the world it runs in (the
  states of the random generators and of the convex solver, or the database, the queue and the
  object store) and returns a value or an exception together with the new world. The world is
  kept when an exception is raised. \<open>yields\<close> and \<open>valid\<close> are the two program logics the
  component proofs use.
\<close>

named_theorems yields_intros "rules for the outcome of an action"

type_synonym ('w, 'e, 'a) act = "'w \<Rightarrow> ('e + 'a) \<times> 'w"

definition areturn :: "'a \<Rightarrow> ('w, 'e, 'a) act" where
  "areturn x = (\<lambda>w. (Inr x, w))"

definition araise :: "'e \<Rightarrow> ('w, 'e, 'a) act" where
  "araise e = (\<lambda>w. (Inl e, w))"

definition alift :: "'e + 'a \<Rightarrow> ('w, 'e, 'a) act" where
  "alift r = (\<lambda>w. (r, w))"

definition abind :: "('w, 'e, 'a) act \<Rightarrow> ('a \<Rightarrow> ('w, 'e, 'b) act) \<Rightarrow> ('w, 'e, 'b) act" where
  "abind m f = (\<lambda>w. case m w of (Inl e, w') \<Rightarrow> (Inl e, w') | (Inr x, w') \<Rightarrow> f x w')"

fun amapM :: "('a \<Rightarrow> ('w, 'e, 'b) act) \<Rightarrow> 'a list \<Rightarrow> ('w, 'e, 'b list) act" where
  "amapM f [] = areturn []"
| "amapM f (x # xs) = abind (f x) (\<lambda>y. abind (amapM f xs) (\<lambda>ys. areturn (y # ys)))"

text \<open>\<open>[f() for _ in range(n)]\<close>.\<close>

definition areplicate :: "nat \<Rightarrow> ('w, 'e, 'a) act \<Rightarrow> ('w, 'e, 'a list) act" where
  "areplicate n m = amapM (\<lambda>_. m) [0..<n]"

text \<open>The outcome of a \<open>try\<close> block as a value.\<close>

definition atry :: "('w, 'e, 'a) act \<Rightarrow> ('w, 'f, 'e + 'a) act" where
  "atry m = (\<lambda>w. case m w of (r, w') \<Rightarrow> (Inr r, w'))"

lemma abind_simps [simp]:
  "abind (alift (Inr x)) f = f x"
  "abind (alift (Inl e)) f = araise e"
  "abind (areturn x) f = f x"
  "abind (araise e) f = araise e"
  by (simp_all add: abind_def alift_def areturn_def araise_def)

lemma abind_assoc: "abind (abind m f) g = abind m (\<lambda>x. abind (f x) g)"
  by (rule ext) (auto simp: abind_def split: prod.splits sum.splits)

section \<open>Outcomes\<close>

text \<open>From every world the action returns a value with \<open>Q\<close> or raises an exception with \<open>X\<close>.\<close>

definition yields :: "('w, 'e, 'a) act \<Rightarrow> ('a \<Rightarrow> bool) \<Rightarrow> ('e \<Rightarrow> bool) \<Rightarrow> bool" where
  "yields m Q X \<longleftrightarrow> (\<forall>w. case fst (m w) of Inr x \<Rightarrow> Q x | Inl e \<Rightarrow> X e)"

lemma yields_return [yields_intros]: "Q x \<Longrightarrow> yields (areturn x) Q X"
  by (simp add: yields_def areturn_def)

lemma yields_raise [yields_intros]: "X e \<Longrightarrow> yields (araise e) Q X"
  by (simp add: yields_def araise_def)

lemma yields_lift: "(case r of Inr x \<Rightarrow> Q x | Inl e \<Rightarrow> X e) \<Longrightarrow> yields (alift r) Q X"
  by (simp add: yields_def alift_def)

lemma yields_bind:
  assumes "yields m P X" "\<And>x. P x \<Longrightarrow> yields (f x) Q X"
  shows "yields (abind m f) Q X"
  unfolding yields_def
proof
  fix w
  obtain r w' where m: "m w = (r, w')" by (cases "m w")
  have "case r of Inr x \<Rightarrow> P x | Inl e \<Rightarrow> X e" using assms(1) m by (auto simp: yields_def dest: spec [of _ w])
  with m assms(2) show "case fst (abind m f w) of Inr x \<Rightarrow> Q x | Inl e \<Rightarrow> X e"
    by (cases r) (simp_all add: abind_def yields_def)
qed

lemma yields_weaken:
  assumes "yields m P Y" "\<And>x. P x \<Longrightarrow> Q x" "\<And>e. Y e \<Longrightarrow> X e"
  shows "yields m Q X"
  using assms unfolding yields_def by (simp split: sum.splits)

lemma yields_errors: "yields m Q Y \<Longrightarrow> (\<And>e. Y e \<Longrightarrow> X e) \<Longrightarrow> yields m Q X"
  by (rule yields_weaken)

lemma yields_if:
  "(b \<Longrightarrow> yields m Q X) \<Longrightarrow> (\<not> b \<Longrightarrow> yields m' Q X) \<Longrightarrow> yields (if b then m else m') Q X"
  by simp

lemma yields_mapM:
  assumes "\<And>x. x \<in> set xs \<Longrightarrow> yields (f x) (P x) X"
  shows "yields (amapM f xs) (\<lambda>ys. list_all2 P xs ys) X"
  using assms
proof (induction xs)
  case Nil
  show ?case by (simp add: yields_intros)
next
  case (Cons x xs)
  have "yields (f x) (P x) X" "yields (amapM f xs) (\<lambda>ys. list_all2 P xs ys) X"
    using Cons by auto
  then show ?case by (auto intro!: yields_bind yields_return)
qed

lemma yields_replicate:
  assumes "yields m P X"
  shows "yields (areplicate n m) (\<lambda>ys. length ys = n \<and> list_all P ys) X"
proof -
  have "yields (amapM (\<lambda>_. m) [0..<n]) (\<lambda>ys. list_all2 (\<lambda>_. P) [0..<n] ys) X"
    using assms by (intro yields_mapM)
  moreover have "list_all P ys \<and> length ys = n" if "list_all2 (\<lambda>_. P) [0..<n] ys" for ys
    using that by (auto simp: list_all2_conv_all_nth list_all_length)
  ultimately show ?thesis unfolding areplicate_def by (auto elim: yields_weaken)
qed

lemma yields_conj:
  "yields m P X \<Longrightarrow> yields m Q Y \<Longrightarrow> yields m (\<lambda>x. P x \<and> Q x) (\<lambda>e. X e \<and> Y e)"
  unfolding yields_def by (auto split: sum.splits)

lemma yields_value: "yields m (\<lambda>x. r = Inr x) (\<lambda>e. r = Inl e) \<Longrightarrow> fst (m w) = r"
  unfolding yields_def by (drule spec [of _ w]) (simp split: sum.splits)

lemma yields_at: "yields m Q X \<Longrightarrow> fst (m w) = Inr x \<Longrightarrow> Q x"
  unfolding yields_def by (drule spec [of _ w]) simp

lemma fst_abind:
  "fst (m w) = Inr x \<Longrightarrow> fst (abind m f w) = fst (f x (snd (m w)))"
  "fst (m w) = Inl e \<Longrightarrow> fst (abind m f w) = Inl e"
  by (cases "m w"; simp add: abind_def)+

text \<open>Actions whose outcome does not depend on the world.\<close>

definition det :: "('w, 'e, 'a) act \<Rightarrow> bool" where
  "det m \<longleftrightarrow> (\<forall>w w'. fst (m w) = fst (m w'))"

lemma det_pure [simp]: "det (areturn x)" "det (araise e)" "det (alift r)"
  by (simp_all add: det_def areturn_def araise_def alift_def)

lemma det_bind:
  assumes "det m" "\<And>x. det (f x)"
  shows "det (abind m f)"
  unfolding det_def
proof (intro allI)
  fix w w'
  have "fst (m w) = fst (m w')" using assms(1) unfolding det_def by blast
  then show "fst (abind m f w) = fst (abind m f w')"
    using assms(2) by (cases "fst (m w')") (auto simp: fst_abind det_def)
qed

section \<open>Pre- and postconditions\<close>

text \<open>The same with a precondition on the world and postconditions on the world that is left.\<close>

definition valid :: "('w \<Rightarrow> bool) \<Rightarrow> ('w, 'e, 'a) act \<Rightarrow> ('a \<Rightarrow> 'w \<Rightarrow> bool) \<Rightarrow> ('e \<Rightarrow> 'w \<Rightarrow> bool) \<Rightarrow> bool" where
  "valid P m Q X \<longleftrightarrow> (\<forall>w. P w \<longrightarrow> (case m w of (Inr x, w') \<Rightarrow> Q x w' | (Inl e, w') \<Rightarrow> X e w'))"

lemma valid_bind:
  assumes "valid P m R X" "\<And>x. valid (R x) (f x) Q X"
  shows "valid P (abind m f) Q X"
  unfolding valid_def
proof (intro allI impI)
  fix w assume "P w"
  obtain r w' where m: "m w = (r, w')" by (cases "m w")
  have "case r of Inr x \<Rightarrow> R x w' | Inl e \<Rightarrow> X e w'"
    using assms(1) \<open>P w\<close> m by (fastforce simp: valid_def split: sum.splits)
  with m assms(2) show "case abind m f w of (Inr x, w') \<Rightarrow> Q x w' | (Inl e, w') \<Rightarrow> X e w'"
    by (cases r) (simp_all add: abind_def valid_def)
qed

lemma valid_return: "(\<And>w. P w \<Longrightarrow> Q x w) \<Longrightarrow> valid P (areturn x) Q X"
  by (simp add: valid_def areturn_def)

lemma valid_raise: "(\<And>w. P w \<Longrightarrow> X e w) \<Longrightarrow> valid P (araise e) Q X"
  by (simp add: valid_def araise_def)

lemma valid_weaken:
  "valid P' m Q' X' \<Longrightarrow> (\<And>w. P w \<Longrightarrow> P' w) \<Longrightarrow> (\<And>x w. Q' x w \<Longrightarrow> Q x w) \<Longrightarrow> (\<And>e w. X' e w \<Longrightarrow> X e w) \<Longrightarrow> valid P m Q X"
  unfolding valid_def by (fastforce split: prod.splits sum.splits)

lemma valid_try: "valid P m Q X \<Longrightarrow> valid P (atry m) (\<lambda>r w. case r of Inr x \<Rightarrow> Q x w | Inl e \<Rightarrow> X e w) Y"
  unfolding valid_def atry_def by (auto split: prod.splits sum.splits)

lemma valid_at: "valid P m Q X \<Longrightarrow> P w \<Longrightarrow> m w = (Inr x, w') \<Longrightarrow> Q x w'"
  unfolding valid_def by fastforce

lemma valid_conj:
  "valid P m Q X \<Longrightarrow> valid P' m Q' X' \<Longrightarrow>
   valid (\<lambda>w. P w \<and> P' w) m (\<lambda>x w. Q x w \<and> Q' x w) (\<lambda>e w. X e w \<and> X' e w)"
  unfolding valid_def by (auto split: prod.splits sum.splits)

lemma valid_if: "valid P m Q X \<Longrightarrow> valid P m' Q X \<Longrightarrow> valid P (if b then m else m') Q X"
  by simp

end
