(* ===== verification/OlagsaSolver.thy ===== *)
theory OlagsaSolver
  imports Effects
begin

text \<open>
  The convex step of OLAGSA (\<open>olagsa/_impl/consumer.py\<close>, \<open>iteration.py\<close>, \<open>solution.py\<close>, \<open>key.py\<close>
  and \<open>warm_start_solver.py\<close>). The call into cvxpy is a parameter: an action that receives the
  production row and the consumption matrix and returns the status and the values of \<open>p\<close>,
  \<open>VAPA\<close> and \<open>E\<close>. What the code relies on when the status is \<open>optimal\<close> is \<open>solver_optimal\<close>.
  The lemmas show the energy balance of a solved key, and that the carry of one iteration into
  the next always passes the tiling check of \<open>_solve\<close>.
\<close>

section \<open>Consumers and iterations\<close>

record ol_consumer =
  oc_consumption :: vec
  oc_energy_allocated_percentage :: real
  oc_money_committed :: real
  oc_consumption_total :: real
  oc_energy_allocated :: vec
  oc_energy_allocated_total :: real
  oc_energy_allocated_consumed :: vec
  oc_energy_allocated_consumed_total :: real
  oc_effective_consumption :: vec
  oc_residual_volume :: vec
  oc_residual_volume_total :: real
  oc_surplus :: vec
  oc_surplus_total :: real
  oc_name :: "string option"

definition OlConsumer :: "vec \<Rightarrow> real \<Rightarrow> real \<Rightarrow> ol_consumer" where
  "OlConsumer consumption percentage money =
     \<lparr> oc_consumption = consumption, oc_energy_allocated_percentage = percentage,
       oc_money_committed = money, oc_consumption_total = 0,
       oc_energy_allocated = zeros_like consumption, oc_energy_allocated_total = 0,
       oc_energy_allocated_consumed = zeros_like consumption,
       oc_energy_allocated_consumed_total = 0, oc_effective_consumption = consumption,
       oc_residual_volume = zeros_like consumption, oc_residual_volume_total = 0,
       oc_surplus = zeros_like consumption, oc_surplus_total = 0, oc_name = None \<rparr>"

definition pos_half :: "vec \<Rightarrow> vec" where
  "pos_half diff = map (\<lambda>d. (d + \<bar>d\<bar>) / 2) diff"

definition neg_half :: "vec \<Rightarrow> vec" where
  "neg_half diff = map (\<lambda>d. (- d + \<bar>d\<bar>) / 2) diff"

definition ol_compute_residual_volume_and_surplus :: "ol_consumer \<Rightarrow> ol_consumer" where
  "ol_compute_residual_volume_and_surplus c =
     (let diff = vsub (oc_consumption c) (oc_energy_allocated c);
          residual = pos_half diff; surplus = neg_half diff
      in c \<lparr> oc_residual_volume := residual, oc_surplus := surplus,
             oc_residual_volume_total := sum_list residual, oc_surplus_total := sum_list surplus \<rparr>)"

definition ol_compute_energy_allocated_consumed :: "ol_consumer \<Rightarrow> ol_consumer" where
  "ol_compute_energy_allocated_consumed c =
     (let used = vmin (oc_consumption c) (oc_energy_allocated c)
      in c \<lparr> oc_energy_allocated_consumed := used,
             oc_energy_allocated_consumed_total := sum_list used \<rparr>)"

record ol_iteration =
  oi_consumers :: "ol_consumer list"
  oi_energy_allocated :: matrix
  oi_energy_allocated_percentage :: real
  oi_energy_allocated_total :: real
  oi_consumption_total :: real
  oi_surplus_total :: real

definition OlIteration :: "ol_consumer list \<Rightarrow> matrix \<Rightarrow> ol_iteration" where
  "OlIteration cs energy =
     \<lparr> oi_consumers = cs, oi_energy_allocated = energy, oi_energy_allocated_percentage = 0,
       oi_energy_allocated_total = 0, oi_consumption_total = 0, oi_surplus_total = 0 \<rparr>"

definition ol_compute_surplus_total :: "ol_iteration \<Rightarrow> ol_iteration" where
  "ol_compute_surplus_total it = it \<lparr> oi_surplus_total := sum_list (map oc_surplus_total (oi_consumers it)) \<rparr>"

section \<open>Solutions\<close>

text \<open>\<open>np.diag\<close> of a vector and \<open>diagonal()\<close> of a square matrix; the first row \<open>M[0]\<close>, \<open>M[:1]\<close>.\<close>

definition np_diag :: "vec \<Rightarrow> matrix" where
  "np_diag p = map (\<lambda>i. map (\<lambda>j. if i = j then p ! i else 0) [0..<length p]) [0..<length p]"

definition diagonal :: "matrix \<Rightarrow> vec" where
  "diagonal m = map (\<lambda>i. m ! i ! i) [0..<length m]"

definition first_row :: "matrix \<Rightarrow> vec" where
  "first_row m = (case m of [] \<Rightarrow> [] | r # _ \<Rightarrow> r)"

text \<open>Indexing that raises past the end (the indices of the code are never negative).\<close>

definition nth_result :: "'a list \<Rightarrow> nat \<Rightarrow> 'a result" where
  "nth_result xs i = (if i < length xs then Inr (xs ! i) else Inl IndexError)"

record solution =
  status :: string
  VAP :: "matrix option"
  sVA :: matrix
  sC :: matrix
  VAPA :: "matrix option"
  sE :: "matrix option"

definition compute_consumer :: "matrix \<Rightarrow> ol_consumer \<Rightarrow> ol_consumer" where
  "compute_consumer energy c =
     (let c1 = c \<lparr> oc_consumption_total := sum_list (oc_consumption c) \<rparr>;
          allocated = first_row (mscale energy (oc_energy_allocated_percentage c));
          c2 = c1 \<lparr> oc_energy_allocated := allocated, oc_energy_allocated_total := sum_list allocated \<rparr>
      in ol_compute_residual_volume_and_surplus (ol_compute_energy_allocated_consumed c2))"

definition compute_consumer_data :: "ol_iteration \<Rightarrow> ol_iteration" where
  "compute_consumer_data it =
     it \<lparr> oi_consumers := map (compute_consumer (oi_energy_allocated it)) (oi_consumers it) \<rparr>"

text \<open>\<open>to_iteration\<close>; every caller leaves \<open>money_committed\<close> at its default, a vector of zeros.\<close>

definition to_iteration :: "solution \<Rightarrow> real \<Rightarrow> ol_iteration result" where
  "to_iteration s allocation_iteration =
     (case VAP s of
        None \<Rightarrow> Inl AttributeError
      | Some vap \<Rightarrow>
          rbind (rmapM (\<lambda>i. rbind (nth_result (diagonal vap) i) (\<lambda>pct.
                         Inr (OlConsumer (sC s ! i) pct (zeros (length (sC s)) ! i))))
                       [0..<length (sC s)])
            (\<lambda>cs. let it = compute_consumer_data (OlIteration cs (sVA s))
                  in Inr (ol_compute_surplus_total
                            (it \<lparr> oi_energy_allocated_percentage := allocation_iteration \<rparr>))))"

section \<open>The warm-start solver\<close>

record solver_output =
  so_status :: string
  so_p :: "vec option"
  so_VAPA :: "matrix option"
  so_E :: "matrix option"

text \<open>
  \<open>solve max_iter va C\<close> stands for cvxpy: assigning the two parameters, \<open>problem.solve\<close>, and
  reading the status and the values back. Its world carries the warm start.
\<close>

type_synonym 'w solve = "nat \<Rightarrow> vec \<Rightarrow> matrix \<Rightarrow> ('w, py_error, solver_output) act"

definition show_shape :: "nat \<times> nat \<Rightarrow> string" where
  "show_shape sh = ''('' @ show_nat (fst sh) @ '', '' @ show_nat (snd sh) @ '')''"

definition WarmStartSolver :: "nat \<times> nat \<Rightarrow> nat \<times> nat \<Rightarrow> nat \<Rightarrow> nat result" where
  "WarmStartSolver c_shape va_shape max_iter =
     (if va_shape \<noteq> c_shape
      then Inl (ValueError (''VA shape '' @ show_shape va_shape @ '' does not match C shape '' @ show_shape c_shape))
      else Inr max_iter)"

definition tiled :: "matrix \<Rightarrow> bool" where
  "tiled m = list_all (\<lambda>r. r = first_row m) m"

definition solver_solve :: "'w solve \<Rightarrow> nat \<Rightarrow> matrix \<Rightarrow> matrix \<Rightarrow> ('w, py_error, solution) act" where
  "solver_solve solve max_iter VA C =
     (if \<not> tiled VA
      then araise (ValueError ''VA must repeat one production profile on every consumer row'')
      else abind (solve max_iter (first_row VA) C) (\<lambda>out.
             areturn \<lparr> status = so_status out, VAP = map_option np_diag (so_p out), sVA = VA, sC = C,
                       VAPA = so_VAPA out, sE = so_E out \<rparr>))"

text \<open>
  \<open>_surplus_from_previous_iteration\<close>: the horizon is the length of the first consumer's surplus
  (an \<open>IndexError\<close> without consumers); the positive surplus is added up per time step and the
  sum repeated on every row.
\<close>

definition surplus_from_previous_iteration :: "ol_consumer list \<Rightarrow> matrix result" where
  "surplus_from_previous_iteration cs =
     (case cs of
        [] \<Rightarrow> Inl IndexError
      | c # _ \<Rightarrow>
          rbind (rmapM (\<lambda>t. rbind (rmapM (\<lambda>k. nth_result (oc_surplus k) t) cs)
                               (\<lambda>ss. Inr (sum_list (map (\<lambda>s. if s > 0 then s else 0) ss))))
                       [0..<length (oc_surplus c)])
            (\<lambda>prev. Inr (replicate (length cs) prev)))"

definition mpos :: "matrix \<Rightarrow> matrix" where
  "mpos m = map pos_half m"

definition msub :: "matrix \<Rightarrow> matrix \<Rightarrow> matrix" where
  "msub a b = map2 vsub a b"

text \<open>
  One turn of the loop of \<open>solve_genetic\<close> and of \<open>solve_key\<close>: iteration \<open>i\<close> from the solution of
  the previous one; the result is the new solution with the consumption it was solved for.
\<close>

definition solve_turn ::
  "'w solve \<Rightarrow> nat \<Rightarrow> matrix \<Rightarrow> real list \<Rightarrow> nat \<Rightarrow> matrix \<Rightarrow> solution option \<Rightarrow>
     ('w, py_error, solution \<times> matrix) act" where
  "solve_turn solve max_iter VA alloc i C current =
     (if i = 0 then
        abind (alift (nth_result alloc i)) (\<lambda>a.
          abind (solver_solve solve max_iter (mscale VA a) C) (\<lambda>s. areturn (s, C)))
      else
        (case current of
           None \<Rightarrow> araise (RuntimeError ''current must be populated by the i == 0 branch'')
         | Some cur \<Rightarrow>
             abind (alift (nth_result alloc i)) (\<lambda>a.
               abind (alift (to_iteration cur a)) (\<lambda>prev_iter.
                 abind (alift (surplus_from_previous_iteration (oi_consumers prev_iter))) (\<lambda>carry.
                   (case VAPA cur of
                      None \<Rightarrow> araise TypeError
                    | Some vapa \<Rightarrow>
                        (let va_effective = madd (mscale VA a) carry;
                             C' = mpos (msub C vapa)
                         in abind (solver_solve solve max_iter va_effective C') (\<lambda>s.
                              areturn (s, C')))))))))"

text \<open>The loops, with the number of iterations still to do.\<close>

fun genetic_loop ::
  "'w solve \<Rightarrow> nat \<Rightarrow> matrix \<Rightarrow> real list \<Rightarrow> nat \<Rightarrow> nat \<Rightarrow> matrix \<Rightarrow> solution option \<Rightarrow>
     ('w, py_error, solution option) act" where
  "genetic_loop solve max_iter VA alloc i 0 C current = areturn current"
| "genetic_loop solve max_iter VA alloc i (Suc k) C current =
     abind (solve_turn solve max_iter VA alloc i C current) (\<lambda>(s, C').
       if status s \<noteq> ''optimal'' then areturn (Some s)
       else genetic_loop solve max_iter VA alloc (Suc i) k C' (Some s))"

definition solve_genetic ::
  "'w solve \<Rightarrow> nat \<Rightarrow> nat \<Rightarrow> matrix \<Rightarrow> matrix \<Rightarrow> real list \<Rightarrow> ('w, py_error, solution option) act" where
  "solve_genetic solve max_iter num_iterations C VA alloc =
     genetic_loop solve max_iter VA alloc 0 num_iterations C None"

fun key_loop ::
  "'w solve \<Rightarrow> nat \<Rightarrow> matrix \<Rightarrow> real list \<Rightarrow> nat \<Rightarrow> nat \<Rightarrow> matrix \<Rightarrow> solution option \<Rightarrow>
     ('w, py_error, ol_iteration list) act" where
  "key_loop solve max_iter VA alloc i 0 C current = areturn []"
| "key_loop solve max_iter VA alloc i (Suc k) C current =
     abind (solve_turn solve max_iter VA alloc i C current) (\<lambda>(s, C').
       if status s \<noteq> ''optimal'' then areturn []
       else
         abind (alift (nth_result alloc i)) (\<lambda>a.
           abind (alift (to_iteration s a)) (\<lambda>it.
             abind (key_loop solve max_iter VA alloc (Suc i) k C' (Some s)) (\<lambda>its.
               areturn (it # its)))))"

record key = key_iterations :: "ol_iteration list"

definition solve_key ::
  "'w solve \<Rightarrow> nat \<Rightarrow> nat \<Rightarrow> matrix \<Rightarrow> matrix \<Rightarrow> real list \<Rightarrow> ('w, py_error, key) act" where
  "solve_key solve max_iter num_iterations C VA alloc =
     abind (key_loop solve max_iter VA alloc 0 num_iterations C None) (\<lambda>its.
       areturn \<lparr> key_iterations = its \<rparr>)"

section \<open>What the code relies on of the solver\<close>

definition vapa_of :: "vec \<Rightarrow> vec \<Rightarrow> matrix" where
  "vapa_of va p = map (\<lambda>pct. vscale va pct) p"

definition nonneg :: "vec \<Rightarrow> bool" where
  "nonneg v = list_all (\<lambda>x. 0 \<le> x) v"

text \<open>A consumption matrix with at least one consumer and horizon \<open>T\<close>.\<close>

definition wf_matrix :: "nat \<Rightarrow> matrix \<Rightarrow> bool" where
  "wf_matrix T m \<longleftrightarrow> m \<noteq> [] \<and> list_all (\<lambda>r. length r = T \<and> nonneg r) m"

definition shares :: "nat \<Rightarrow> vec \<Rightarrow> bool" where
  "shares n p \<longleftrightarrow> length p = n \<and> nonneg p \<and> sum_list p = 1"

text \<open>
  The problem that \<open>__init__\<close> states, for parameters that pass the \<open>nonneg=True\<close> check of cvxpy:
  when the solver reports \<open>optimal\<close>, \<open>p\<close> is a vector of one share per consumer, none negative,
  adding up to one, and \<open>VAPA\<close> and \<open>E\<close> are the values of their defining expressions. The solver
  may report another status or raise an exception of \<open>X\<close>, and two calls on the same problem may
  find different shares.
\<close>

definition solver_optimal :: "(py_error \<Rightarrow> bool) \<Rightarrow> 'w solve \<Rightarrow> bool" where
  "solver_optimal X solve \<longleftrightarrow>
     (\<forall>max_iter va C. nonneg va \<and> wf_matrix (length va) C \<longrightarrow>
        yields (solve max_iter va C)
          (\<lambda>out. so_status out = ''optimal'' \<longrightarrow>
             (\<exists>p. so_p out = Some p \<and> shares (length C) p \<and> so_VAPA out = Some (vapa_of va p) \<and>
                  so_E out = Some (mpos (msub (vapa_of va p) C))))
          X)"

section \<open>The specification of a solved key\<close>

text \<open>
  One round: the offered profile \<open>va\<close> is split by the shares \<open>p\<close>, every consumer keeps what it
  can use. A key is a chain of rounds in which each round is offered its part of the production
  and the surplus of the round before, for the consumption that round left open.
\<close>

definition round_consumer :: "vec \<Rightarrow> vec \<Rightarrow> real \<Rightarrow> ol_consumer" where
  "round_consumer va c pct =
     \<lparr> oc_consumption = c, oc_energy_allocated_percentage = pct, oc_money_committed = 0,
       oc_consumption_total = sum_list c, oc_energy_allocated = vscale va pct,
       oc_energy_allocated_total = sum_list (vscale va pct),
       oc_energy_allocated_consumed = vmin c (vscale va pct),
       oc_energy_allocated_consumed_total = sum_list (vmin c (vscale va pct)),
       oc_effective_consumption = c,
       oc_residual_volume = vsub c (vmin c (vscale va pct)),
       oc_residual_volume_total = sum_list (vsub c (vmin c (vscale va pct))),
       oc_surplus = vsub (vscale va pct) (vmin c (vscale va pct)),
       oc_surplus_total = sum_list (vsub (vscale va pct) (vmin c (vscale va pct))),
       oc_name = None \<rparr>"

definition round_iteration :: "real \<Rightarrow> vec \<Rightarrow> matrix \<Rightarrow> vec \<Rightarrow> ol_iteration" where
  "round_iteration a va C p =
     \<lparr> oi_consumers = map2 (round_consumer va) C p, oi_energy_allocated = replicate (length C) va,
       oi_energy_allocated_percentage = a, oi_energy_allocated_total = 0, oi_consumption_total = 0,
       oi_surplus_total = sum_list (map oc_surplus_total (map2 (round_consumer va) C p)) \<rparr>"

definition round_surplus :: "nat \<Rightarrow> ol_iteration \<Rightarrow> vec" where
  "round_surplus T it = map (\<lambda>t. sum_list (map (\<lambda>c. oc_surplus c ! t) (oi_consumers it))) [0..<T]"

definition round_residual :: "ol_iteration \<Rightarrow> matrix" where
  "round_residual it = map oc_residual_volume (oi_consumers it)"

inductive key_chain :: "vec \<Rightarrow> real list \<Rightarrow> vec \<Rightarrow> matrix \<Rightarrow> ol_iteration list \<Rightarrow> bool" for v where
  chain_end: "key_chain v as carry C []"
| chain_round: "shares (length C) p \<Longrightarrow> it = round_iteration a (vadd (vscale v a) carry) C p \<Longrightarrow>
    key_chain v as (round_surplus (length v) it) (round_residual it) its \<Longrightarrow>
    key_chain v (a # as) carry C (it # its)"

section \<open>Matrices\<close>

lemma diagonal_np_diag [simp]: "diagonal (np_diag p) = p"
  by (rule nth_equalityI) (simp_all add: diagonal_def np_diag_def)

lemma tiled_replicate [simp]: "tiled (replicate n v)"
  by (cases n) (simp_all add: tiled_def first_row_def list_all_iff)

lemma first_row_replicate [simp]: "0 < n \<Longrightarrow> first_row (replicate n v) = v"
  by (cases n) (simp_all add: first_row_def)

lemma mscale_replicate [simp]: "mscale (replicate n v) a = replicate n (vscale v a)"
  by (simp add: mscale_def)

lemma madd_replicate [simp]: "madd (replicate n u) (replicate n v) = replicate n (vadd u v)"
  by (simp add: madd_def map2_map_map zip_replicate)

lemma pos_half_vsub: "pos_half (vsub c e) = vsub c (vmin c e)"
proof (rule nth_equalityI)
  fix i assume "i < length (pos_half (vsub c e))"
  then have "i < length c" "i < length e" by (simp_all add: pos_half_def)
  then show "pos_half (vsub c e) ! i = vsub c (vmin c e) ! i" by (simp add: pos_half_def min_def)
qed (simp add: pos_half_def)

lemma neg_half_vsub: "neg_half (vsub c e) = vsub e (vmin c e)"
proof (rule nth_equalityI)
  fix i assume "i < length (neg_half (vsub c e))"
  then have "i < length c" "i < length e" by (simp_all add: neg_half_def)
  then show "neg_half (vsub c e) ! i = vsub e (vmin c e) ! i" by (simp add: neg_half_def min_def)
qed (simp add: neg_half_def)

lemma compute_consumer_round:
  assumes "0 < n"
  shows "compute_consumer (replicate n va) (OlConsumer c pct 0) = round_consumer va c pct"
  using assms by (simp add: compute_consumer_def OlConsumer_def round_consumer_def Let_def
      ol_compute_residual_volume_and_surplus_def ol_compute_energy_allocated_consumed_def
      pos_half_vsub neg_half_vsub)

text \<open>A solution that carries the shares \<open>p\<close> of the profile \<open>va\<close> among the consumption \<open>C\<close>.\<close>

definition solves :: "vec \<Rightarrow> matrix \<Rightarrow> vec \<Rightarrow> solution \<Rightarrow> bool" where
  "solves va C p s \<longleftrightarrow> shares (length C) p \<and> VAP s = Some (np_diag p) \<and> sVA s = replicate (length C) va \<and>
     sC s = C \<and> VAPA s = Some (vapa_of va p) \<and> sE s = Some (mpos (msub (vapa_of va p) C))"

lemma to_iteration_round:
  assumes "solves va C p s" "C \<noteq> []"
  shows "to_iteration s a = Inr (round_iteration a va C p)"
proof -
  note s = assms(1) [unfolded solves_def shares_def]
  let ?mk = "\<lambda>i. OlConsumer (C ! i) (p ! i) 0"
  have "rmapM (\<lambda>i. rbind (nth_result p i) (\<lambda>pct. Inr (OlConsumer (C ! i) pct (zeros (length C) ! i))))
      [0..<length C] = Inr (map ?mk [0..<length C])"
    using s by (intro rmapM_total) (simp add: nth_result_def)
  moreover have "map (compute_consumer (replicate (length C) va)) (map ?mk [0..<length C]) =
      map2 (round_consumer va) C p"
    using s assms(2) by (intro nth_equalityI) (simp_all add: compute_consumer_round)
  ultimately show ?thesis using s
    by (simp add: to_iteration_def compute_consumer_data_def OlIteration_def Let_def
        ol_compute_surplus_total_def round_iteration_def del: map_map)
qed

section \<open>From one round to the next\<close>

lemma round_consumers_nth:
  "i < length C \<Longrightarrow> length p = length C \<Longrightarrow>
    oi_consumers (round_iteration a va C p) ! i = round_consumer va (C ! i) (p ! i)"
  by (simp add: round_iteration_def)

lemma wf_row: "wf_matrix T C \<Longrightarrow> c \<in> set C \<Longrightarrow> length c = T \<and> nonneg c"
  by (simp add: wf_matrix_def list_all_iff)

lemma round_consumers_cases:
  assumes "c \<in> set (oi_consumers (round_iteration a va C p))"
  obtains row pct where "row \<in> set C" "pct \<in> set p" "c = round_consumer va row pct"
  using assms that by (auto simp: round_iteration_def dest: set_zip_leftD set_zip_rightD)

lemma round_surplus_nonneg:
  assumes "t < length va" "t < length row"
  shows "0 \<le> oc_surplus (round_consumer va row pct) ! t"
  using assms by (simp add: round_consumer_def)

lemma surplus_carry:
  assumes "wf_matrix (length va) C" "shares (length C) p"
  shows "surplus_from_previous_iteration (oi_consumers (round_iteration a va C p)) =
    Inr (replicate (length C) (round_surplus (length va) (round_iteration a va C p)))"
proof -
  let ?it = "round_iteration a va C p"
  let ?cs = "oi_consumers ?it"
  have len: "length ?cs = length C" using assms by (simp add: round_iteration_def shares_def)
  have sur: "length (oc_surplus c) = length va \<and> (\<forall>t<length va. 0 \<le> oc_surplus c ! t)" if c: "c \<in> set ?cs" for c
    using c
  proof (rule round_consumers_cases)
    fix row pct assume "row \<in> set C" "c = round_consumer va row pct"
    with wf_row [OF assms(1)] round_surplus_nonneg show ?thesis
      by (auto simp: round_consumer_def)
  qed
  obtain c cs where cs: "?cs = c # cs" using len assms(1) by (cases ?cs) (auto simp: wf_matrix_def)
  have inner: "rmapM (\<lambda>k. nth_result (oc_surplus k) t) ?cs = Inr (map (\<lambda>k. oc_surplus k ! t) ?cs)"
    if "t < length va" for t
    using that sur by (intro rmapM_total) (simp add: nth_result_def)
  have pos: "map (\<lambda>s. if 0 < s then s else 0) (map (\<lambda>k. oc_surplus k ! t) ?cs) = map (\<lambda>k. oc_surplus k ! t) ?cs"
    if "t < length va" for t
    using that sur by (force simp: not_less)
  have "rmapM (\<lambda>t. rbind (rmapM (\<lambda>k. nth_result (oc_surplus k) t) ?cs)
      (\<lambda>ss. Inr (sum_list (map (\<lambda>s. if 0 < s then s else 0) ss)))) [0..<length va] =
      Inr (round_surplus (length va) ?it)"
    unfolding round_surplus_def by (intro rmapM_total) (simp add: inner pos del: map_map)
  moreover have "length (oc_surplus c) = length va" using sur cs by simp
  ultimately show ?thesis using cs len by (simp add: surplus_from_previous_iteration_def)
qed

lemma residual_carry:
  assumes "shares (length C) p"
  shows "mpos (msub C (vapa_of va p)) = round_residual (round_iteration a va C p)"
  using assms by (intro nth_equalityI)
    (simp_all add: mpos_def msub_def vapa_of_def round_residual_def round_iteration_def shares_def
      pos_half_vsub round_consumer_def)

lemma round_residual_wf:
  assumes "wf_matrix (length va) C" "shares (length C) p"
  shows "wf_matrix (length va) (round_residual (round_iteration a va C p))"
    "length (round_residual (round_iteration a va C p)) = length C"
proof -
  let ?it = "round_iteration a va C p"
  show len: "length (round_residual ?it) = length C"
    using assms by (simp add: round_residual_def round_iteration_def shares_def)
  have "length (oc_residual_volume c) = length va \<and> nonneg (oc_residual_volume c)"
    if "c \<in> set (oi_consumers ?it)" for c
    using that
  proof (rule round_consumers_cases)
    fix row pct assume "row \<in> set C" "c = round_consumer va row pct"
    with wf_row [OF assms(1)] show ?thesis
      by (auto simp: round_consumer_def nonneg_def list_all_length)
  qed
  then show "wf_matrix (length va) (round_residual ?it)"
    using len assms(1) by (auto simp: wf_matrix_def round_residual_def list_all_iff)
qed

lemma round_surplus_wf:
  assumes "wf_matrix (length va) C"
  shows "length (round_surplus (length va) (round_iteration a va C p)) = length va"
    "nonneg (round_surplus (length va) (round_iteration a va C p))"
proof -
  have "0 \<le> sum_list (map (\<lambda>c. oc_surplus c ! t) (oi_consumers (round_iteration a va C p)))"
    if t: "t < length va" for t
  proof (rule sum_list_nonneg_real)
    fix c assume "c \<in> set (oi_consumers (round_iteration a va C p))"
    then show "0 \<le> oc_surplus c ! t"
    proof (rule round_consumers_cases)
      fix row pct assume "row \<in> set C" "c = round_consumer va row pct"
      with wf_row [OF assms] round_surplus_nonneg t show ?thesis by auto
    qed
  qed
  then show "nonneg (round_surplus (length va) (round_iteration a va C p))"
    by (simp add: nonneg_def round_surplus_def list_all_iff)
qed (simp add: round_surplus_def)

lemma nonneg_vscale: "nonneg v \<Longrightarrow> 0 \<le> a \<Longrightarrow> nonneg (vscale v a)"
  by (auto simp: nonneg_def vscale_def list_all_iff)

lemma nonneg_vadd: "nonneg u \<Longrightarrow> nonneg v \<Longrightarrow> nonneg (vadd u v)"
  by (simp add: nonneg_def list_all_length)

lemma vadd_zeros: "vadd v (zeros (length v)) = v"
  by (rule nth_equalityI) simp_all

section \<open>Energy of a round\<close>

lemma round_balance:
  assumes "wf_matrix (length va) C" "shares (length C) p"
  shows "sum_list (map oc_energy_allocated_consumed_total (oi_consumers (round_iteration a va C p))) +
      oi_surplus_total (round_iteration a va C p) = sum_list va"
proof -
  have row: "sum_list (vmin r (vscale va x)) + sum_list (vsub (vscale va x) (vmin r (vscale va x))) =
      sum_list va * x" if "length r = length va" for r x
  proof -
    have "sum_list (vmin r (vscale va x)) + sum_list (vsub (vscale va x) (vmin r (vscale va x))) =
        (\<Sum>t<length va. va ! t * x)"
      using that by (simp add: sum_list_nth_lessThan sum.distrib [symmetric])
    then show ?thesis by (simp add: sum_list_nth_lessThan sum_distrib_right)
  qed
  have len: "length C = length p" and one: "sum_list p = 1" using assms(2) by (simp_all add: shares_def)
  have rows: "\<forall>r\<in>set C. length r = length va" using assms(1) by (simp add: wf_matrix_def list_all_iff)
  from len rows have "sum_list (map oc_energy_allocated_consumed_total (map2 (round_consumer va) C p)) +
      sum_list (map oc_surplus_total (map2 (round_consumer va) C p)) = sum_list va * sum_list p"
  proof (induction C p rule: list_induct2)
    case Nil
    show ?case by simp
  next
    case (Cons r rs x xs)
    then show ?case using row [of r x] by (simp add: round_consumer_def algebra_simps)
  qed
  then show ?thesis using one by (simp add: round_iteration_def)
qed

lemma round_surplus_sum:
  assumes "wf_matrix (length va) C"
  shows "sum_list (round_surplus (length va) (round_iteration a va C p)) = oi_surplus_total (round_iteration a va C p)"
proof -
  let ?cs = "oi_consumers (round_iteration a va C p)"
  have len: "length (oc_surplus c) = length va \<and> oc_surplus_total c = sum_list (oc_surplus c)" if "c \<in> set ?cs" for c
    using that
  proof (rule round_consumers_cases)
    fix row pct assume "row \<in> set C" "c = round_consumer va row pct"
    with wf_row [OF assms] show ?thesis by (auto simp: round_consumer_def)
  qed
  have "sum_list (round_surplus (length va) (round_iteration a va C p)) =
      (\<Sum>t<length va. sum_list (map (\<lambda>c. oc_surplus c ! t) ?cs))"
    by (simp add: round_surplus_def sum_list_nth_lessThan)
  also have "\<dots> = sum_list (map (\<lambda>c. sum_list (oc_surplus c)) ?cs)"
    using len by (intro sum_list_map_rows [symmetric]) simp
  also have "\<dots> = sum_list (map oc_surplus_total ?cs)" using len by (intro arg_cong [of _ _ sum_list] map_cong) simp_all
  finally show ?thesis by (simp add: round_iteration_def)
qed

section \<open>Loops\<close>

lemma solver_solve_yields:
  assumes "solver_optimal X solve" "nonneg va" "wf_matrix (length va) C" "n = length C"
  shows "yields (solver_solve solve max_iter (replicate n va) C)
    (\<lambda>s. status s = ''optimal'' \<longrightarrow> (\<exists>p. solves va C p s)) X"
proof -
  have "0 < length C" using assms(3) by (simp add: wf_matrix_def)
  with assms show ?thesis unfolding solver_solve_def
    by (auto simp: solver_optimal_def solves_def split: if_splits
        intro!: yields_bind [of "solve max_iter va C"] yields_return)
qed

lemma solve_turn_first:
  assumes "solver_optimal X solve" "nonneg v" "wf_matrix (length v) C" "0 < length alloc" "0 \<le> alloc ! 0"
  shows "yields (solve_turn solve max_iter (replicate (length C) v) alloc 0 C None)
    (\<lambda>(s, C'). C' = C \<and> (status s = ''optimal'' \<longrightarrow> (\<exists>p. solves (vscale v (alloc ! 0)) C p s))) X"
  using assms by (auto simp: solve_turn_def nth_result_def nonneg_vscale
      intro!: yields_bind [OF solver_solve_yields] yields_return)

lemma solve_turn_next:
  assumes "solver_optimal X solve" "nonneg v" "nonneg va" "length va = length v" "wf_matrix (length v) C"
    "solves va C p s" "0 < i" "i < length alloc" "0 \<le> alloc ! i"
    and it_def: "it = round_iteration b va C p"
  shows "yields (solve_turn solve max_iter (replicate (length C) v) alloc i C (Some s))
    (\<lambda>(s', C'). C' = round_residual it \<and> (status s' = ''optimal'' \<longrightarrow>
        (\<exists>p'. solves (vadd (vscale v (alloc ! i)) (round_surplus (length v) it)) C' p' s'))) X"
proof -
  let ?it = "round_iteration (alloc ! i) va C p"
  have ne: "C \<noteq> []" and sh: "shares (length C) p" and vapa: "VAPA s = Some (vapa_of va p)"
    using assms(5,6) by (auto simp: wf_matrix_def solves_def)
  have wf: "wf_matrix (length va) C" using assms(4,5) by simp
  have same: "round_residual ?it = round_residual it" "round_surplus T ?it = round_surplus T it" for T
    by (simp_all add: it_def round_iteration_def round_residual_def round_surplus_def)
  note carry = surplus_carry [OF wf sh, of "alloc ! i"] and res = residual_carry [OF sh, of va "alloc ! i"]
  have nn: "nonneg (vadd (vscale v (alloc ! i)) (round_surplus (length va) it))"
    using assms(2,9) round_surplus_wf(2) [OF wf, of b p] by (simp add: it_def nonneg_vadd nonneg_vscale)
  have wf': "wf_matrix (length va) (round_residual it)" "length (round_residual it) = length C"
    using round_residual_wf [OF wf sh] by (simp_all add: it_def)
  have lens: "length (round_surplus (length va) it) = length va" using round_surplus_wf(1) [OF wf] by (simp add: it_def)
  have "solve_turn solve max_iter (replicate (length C) v) alloc i C (Some s) =
      abind (solver_solve solve max_iter
          (replicate (length C) (vadd (vscale v (alloc ! i)) (round_surplus (length va) it)))
          (round_residual it)) (\<lambda>s. areturn (s, round_residual it))"
    using assms(7,8) vapa to_iteration_round [OF assms(6) ne] carry res same
    by (simp add: solve_turn_def nth_result_def Let_def)
  then show ?thesis using assms(1,4) nn wf' lens
    by (auto intro!: yields_bind [OF solver_solve_yields] yields_return)
qed

lemma key_loop_next:
  assumes "solver_optimal X solve" "nonneg v" "list_all (\<lambda>a. 0 \<le> a) alloc"
  shows "nonneg va \<Longrightarrow> length va = length v \<Longrightarrow> wf_matrix (length v) C \<Longrightarrow> solves va C p s \<Longrightarrow>
    0 < i \<Longrightarrow> i + k \<le> length alloc \<Longrightarrow> n = length C \<Longrightarrow>
    yields (key_loop solve max_iter (replicate n v) alloc i k C (Some s))
      (\<lambda>its. length its \<le> k \<and> key_chain v (take k (drop i alloc)) (round_surplus (length v) (round_iteration b va C p))
         (round_residual (round_iteration b va C p)) its) X"
proof (induction k arbitrary: i va C p s b)
  case 0
  then show ?case by (simp add: yields_return chain_end)
next
  case (Suc k)
  let ?it = "round_iteration b va C p"
  let ?va = "vadd (vscale v (alloc ! i)) (round_surplus (length v) ?it)"
  have wfva: "wf_matrix (length va) C" and sh: "shares (length C) p" and i: "i < length alloc"
    using Suc.prems by (auto simp: solves_def)
  have a: "0 \<le> alloc ! i" using assms(3) i by (simp add: list_all_length)
  have C': "wf_matrix (length v) (round_residual ?it)" "length (round_residual ?it) = length C"
    using round_residual_wf [OF wfva sh] Suc.prems(2) by simp_all
  have va': "nonneg ?va" "length ?va = length v"
    using round_surplus_wf [OF wfva, of b p] Suc.prems(2) assms(2) a
    by (simp_all add: nonneg_vadd nonneg_vscale)
  have take: "take (Suc k) (drop i alloc) = alloc ! i # take k (drop (Suc i) alloc)"
    using i by (simp add: Cons_nth_drop_Suc [symmetric])
  have next_turn: "yields (solve_turn solve max_iter (replicate n v) alloc i C (Some s))
    (\<lambda>(s', C'). C' = round_residual ?it \<and> (status s' = ''optimal'' \<longrightarrow> (\<exists>p'. solves ?va C' p' s'))) X"
    using solve_turn_next [OF assms(1,2) Suc.prems(1-5) i a refl] Suc.prems(7) by simp
  show ?case unfolding key_loop.simps
  proof (rule yields_bind [OF next_turn], clarify)
    fix s' assume opt: "status s' = ''optimal'' \<longrightarrow> (\<exists>p'. solves ?va (round_residual ?it) p' s')"
    show "yields (if status s' \<noteq> ''optimal'' then areturn []
        else abind (alift (nth_result alloc i)) (\<lambda>a. abind (alift (to_iteration s' a)) (\<lambda>it.
          abind (key_loop solve max_iter (replicate n v) alloc (Suc i) k (round_residual ?it) (Some s'))
            (\<lambda>its. areturn (it # its)))))
      (\<lambda>its. length its \<le> Suc k \<and> key_chain v (take (Suc k) (drop i alloc)) (round_surplus (length v) ?it)
         (round_residual ?it) its) X"
    proof (cases "status s' = ''optimal''")
      case False
      then show ?thesis by (simp add: yields_return chain_end)
    next
      case True
      with opt obtain p' where p': "solves ?va (round_residual ?it) p' s'" by blast
      then have sh': "shares (length (round_residual ?it)) p'" by (simp add: solves_def)
      have ne: "round_residual ?it \<noteq> []" using C'(1) by (simp add: wf_matrix_def)
      let ?it' = "round_iteration (alloc ! i) ?va (round_residual ?it) p'"
      have IH: "yields (key_loop solve max_iter (replicate n v) alloc (Suc i) k (round_residual ?it) (Some s'))
        (\<lambda>its. length its \<le> k \<and> key_chain v (take k (drop (Suc i) alloc)) (round_surplus (length v) ?it')
           (round_residual ?it') its) X"
        using Suc.IH [OF va' C'(1) p', of "Suc i" "alloc ! i"] Suc.prems(6,7) C'(2) by simp
      show ?thesis
        using True i to_iteration_round [OF p' ne, of "alloc ! i"]
        by (auto simp: nth_result_def take
            intro!: yields_bind [OF IH] yields_return chain_round [OF sh' refl])
    qed
  qed
qed

lemma solve_key_yields:
  assumes "solver_optimal X solve" "nonneg v" "wf_matrix (length v) C" "list_all (\<lambda>a. 0 \<le> a) alloc"
    "n \<le> length alloc"
  shows "yields (solve_key solve max_iter n C (replicate (length C) v) alloc)
    (\<lambda>ky. length (key_iterations ky) \<le> n \<and> key_chain v (take n alloc) (zeros (length v)) C (key_iterations ky)) X"
proof (cases n)
  case 0
  then show ?thesis by (simp add: solve_key_def yields_return chain_end)
next
  case (Suc k)
  let ?VA = "replicate (length C) v" and ?va = "vscale v (alloc ! 0)"
  have "0 < length alloc" using assms(5) Suc by linarith
  with assms(4) have a: "0 < length alloc" "0 \<le> alloc ! 0" by (simp_all add: list_all_length)
  have va: "nonneg ?va" "length ?va = length v" using assms(2) a by (simp_all add: nonneg_vscale)
  have take: "take (Suc k) alloc = alloc ! 0 # take k (drop (Suc 0) alloc)"
    using a by (cases alloc) simp_all
  have zero: "vadd ?va (zeros (length v)) = ?va" using vadd_zeros [of ?va] by simp
  have "yields (key_loop solve max_iter ?VA alloc 0 (Suc k) C None)
    (\<lambda>its. length its \<le> n \<and> key_chain v (take n alloc) (zeros (length v)) C its) X"
    unfolding key_loop.simps
  proof (rule yields_bind [OF solve_turn_first [OF assms(1-3) a]], clarify)
    fix s assume opt: "status s = ''optimal'' \<longrightarrow> (\<exists>p. solves ?va C p s)"
    show "yields (if status s \<noteq> ''optimal'' then areturn []
        else abind (alift (nth_result alloc 0)) (\<lambda>a. abind (alift (to_iteration s a)) (\<lambda>it.
          abind (key_loop solve max_iter ?VA alloc (Suc 0) k C (Some s)) (\<lambda>its. areturn (it # its)))))
      (\<lambda>its. length its \<le> n \<and> key_chain v (take n alloc) (zeros (length v)) C its) X"
    proof (cases "status s = ''optimal''")
      case False
      then show ?thesis by (simp add: yields_return chain_end)
    next
      case True
      with opt obtain p where p: "solves ?va C p s" by blast
      then have sh: "shares (length C) p" by (simp add: solves_def)
      have ne: "C \<noteq> []" using assms(3) by (simp add: wf_matrix_def)
      note rest = key_loop_next [OF assms(1,2,4) va assms(3) p, of 1 k "length C" max_iter "alloc ! 0"]
      show ?thesis
        using True a to_iteration_round [OF p ne, of "alloc ! 0"] assms(5) Suc
        by (auto simp: nth_result_def take zero
            intro!: yields_bind [OF rest [simplified]] yields_return chain_round [OF sh])
    qed
  qed
  then show ?thesis unfolding solve_key_def Suc
    by (rule yields_bind) (simp add: yields_return Suc)
qed

section \<open>The score of a candidate\<close>

text \<open>A solution the score can be computed from.\<close>

definition scorable :: "solution option \<Rightarrow> bool" where
  "scorable so \<longleftrightarrow> (\<exists>s. so = Some s \<and>
     (status s = ''optimal'' \<longrightarrow> (\<exists>E. sE s = Some E \<and> 0 \<le> sum_list (map sum_list E))))"

lemma scorable_refused: "status s \<noteq> ''optimal'' \<Longrightarrow> scorable (Some s)"
  by (simp add: scorable_def)

lemma solves_scorable: "solves va C p s \<Longrightarrow> scorable (Some s)"
proof -
  have "0 \<le> sum_list (map sum_list (mpos m))" for m
    by (intro sum_list_nonneg) (auto simp: mpos_def pos_half_def intro!: sum_list_nonneg)
  then show "solves va C p s \<Longrightarrow> scorable (Some s)" by (simp add: scorable_def solves_def)
qed

lemma genetic_loop_next:
  assumes "solver_optimal X solve" "nonneg v" "list_all (\<lambda>a. 0 \<le> a) alloc"
  shows "nonneg va \<Longrightarrow> length va = length v \<Longrightarrow> wf_matrix (length v) C \<Longrightarrow> solves va C p s \<Longrightarrow>
    0 < i \<Longrightarrow> i + k \<le> length alloc \<Longrightarrow> n = length C \<Longrightarrow>
    yields (genetic_loop solve max_iter (replicate n v) alloc i k C (Some s)) scorable X"
proof (induction k arbitrary: i va C p s)
  case 0
  then show ?case by (simp add: yields_return solves_scorable)
next
  case (Suc k)
  let ?it = "round_iteration 0 va C p"
  let ?va = "vadd (vscale v (alloc ! i)) (round_surplus (length v) ?it)"
  have wfva: "wf_matrix (length va) C" and sh: "shares (length C) p" and i: "i < length alloc"
    using Suc.prems by (auto simp: solves_def)
  have a: "0 \<le> alloc ! i" using assms(3) i by (simp add: list_all_length)
  have C': "wf_matrix (length v) (round_residual ?it)" "length (round_residual ?it) = length C"
    using round_residual_wf [OF wfva sh] Suc.prems(2) by simp_all
  have va': "nonneg ?va" "length ?va = length v"
    using round_surplus_wf [OF wfva, of 0 p] Suc.prems(2) assms(2) a
    by (simp_all add: nonneg_vadd nonneg_vscale)
  show ?case unfolding genetic_loop.simps Suc.prems(7)
  proof (rule yields_bind [OF solve_turn_next [OF assms(1,2) Suc.prems(1-5) i a refl, of max_iter 0]], clarify)
    fix s' assume opt: "status s' = ''optimal'' \<longrightarrow> (\<exists>p'. solves ?va (round_residual ?it) p' s')"
    show "yields (if status s' \<noteq> ''optimal'' then areturn (Some s')
        else genetic_loop solve max_iter (replicate (length C) v) alloc (Suc i) k (round_residual ?it) (Some s'))
      scorable X"
      using opt Suc.IH [OF va' C'(1), of _ s' "Suc i"] C'(2) Suc.prems(6,7)
      by (auto intro!: yields_return scorable_refused)
  qed
qed

lemma solve_genetic_yields:
  assumes "solver_optimal X solve" "nonneg v" "wf_matrix (length v) C" "list_all (\<lambda>a. 0 \<le> a) alloc"
    "0 < n" "n \<le> length alloc"
  shows "yields (solve_genetic solve max_iter n C (replicate (length C) v) alloc) scorable X"
proof -
  obtain k where n: "n = Suc k" using assms(5) by (cases n) auto
  have "0 < length alloc" using assms(5,6) by linarith
  with assms(4) have a: "0 < length alloc" "0 \<le> alloc ! 0" by (simp_all add: list_all_length)
  have va: "nonneg (vscale v (alloc ! 0))" "length (vscale v (alloc ! 0)) = length v"
    using assms(2) a by (simp_all add: nonneg_vscale)
  show ?thesis unfolding solve_genetic_def n genetic_loop.simps
  proof (rule yields_bind [OF solve_turn_first [OF assms(1-3) a]], clarify)
    fix s assume opt: "status s = ''optimal'' \<longrightarrow> (\<exists>p. solves (vscale v (alloc ! 0)) C p s)"
    show "yields (if status s \<noteq> ''optimal'' then areturn (Some s)
        else genetic_loop solve max_iter (replicate (length C) v) alloc (Suc 0) k C (Some s)) scorable X"
      using opt genetic_loop_next [OF assms(1,2,4) va assms(3), of _ s 1 k] assms(6) n
      by (auto intro!: yields_return scorable_refused)
  qed
qed

section \<open>Energy of a key\<close>

definition consumed :: "ol_iteration \<Rightarrow> real" where
  "consumed it = sum_list (map oc_energy_allocated_consumed_total (oi_consumers it))"

text \<open>What is left after a chain that started with the carry \<open>s0\<close>.\<close>

definition left_over :: "real \<Rightarrow> ol_iteration list \<Rightarrow> real" where
  "left_over s0 its = (if its = [] then s0 else oi_surplus_total (last its))"

lemma sum_list_vadd: "length u = length v \<Longrightarrow> sum_list (vadd u v) = sum_list u + sum_list v"
  by (simp add: sum_list_nth_lessThan sum.distrib)

lemma sum_list_vscale: "sum_list (vscale v a) = sum_list v * a"
  by (simp add: vscale_def sum_list_mult_right)

lemma key_chain_balance:
  assumes "key_chain v as carry C its" "length carry = length v" "wf_matrix (length v) C"
  shows "sum_list (map consumed its) + left_over (sum_list carry) its =
      sum_list carry + sum_list v * sum_list (take (length its) as)"
  using assms
proof (induction rule: key_chain.induct)
  case (chain_end as carry C)
  then show ?case by (simp add: left_over_def)
next
  case (chain_round C p it a carry as its)
  let ?va = "vadd (vscale v a) carry"
  have len: "length ?va = length v" using chain_round.prems by simp
  have wf: "wf_matrix (length ?va) C" using chain_round.prems len by simp
  have it: "consumed it + oi_surplus_total it = sum_list v * a + sum_list carry"
    using round_balance [OF wf chain_round.hyps(1), of a] chain_round.hyps(2) chain_round.prems(1)
    by (simp add: consumed_def sum_list_vadd sum_list_vscale)
  have IH: "sum_list (map consumed its) + left_over (oi_surplus_total it) its =
      oi_surplus_total it + sum_list v * sum_list (take (length its) as)"
    using chain_round.IH round_surplus_wf(1) [OF wf, of a p] round_residual_wf(1) [OF wf chain_round.hyps(1), of a]
      round_surplus_sum [OF wf, of a p] len chain_round.hyps(2) by simp
  then show ?case using it by (auto simp: left_over_def algebra_simps split: if_splits)
qed

text \<open>The shares of every round, in the order of the production shares.\<close>

lemma key_chain_shares:
  assumes "key_chain v as carry C its"
  shows "map oi_energy_allocated_percentage its = take (length its) as \<and>
    list_all (\<lambda>it. shares (length (oi_consumers it)) (map oc_energy_allocated_percentage (oi_consumers it))) its"
  using assms
proof (induction rule: key_chain.induct)
  case (chain_end as carry C)
  then show ?case by simp
next
  case (chain_round C p it a carry as its)
  have "map oc_energy_allocated_percentage (oi_consumers it) = p" "length (oi_consumers it) = length C"
    using chain_round.hyps(1,2)
    by (auto intro!: nth_equalityI simp: round_iteration_def round_consumer_def shares_def)
  then show ?case using chain_round.hyps(1,2) chain_round.IH by (simp add: round_iteration_def)
qed

text \<open>What consumer \<open>i\<close> still has open after a chain that started with the consumption \<open>C\<close>.\<close>

definition open_demand :: "nat \<Rightarrow> matrix \<Rightarrow> ol_iteration list \<Rightarrow> real" where
  "open_demand i C its =
     (if its = [] then sum_list (C ! i) else oc_residual_volume_total (oi_consumers (last its) ! i))"

definition consumed_by :: "nat \<Rightarrow> ol_iteration \<Rightarrow> real" where
  "consumed_by i it = oc_energy_allocated_consumed_total (oi_consumers it ! i)"

lemma key_chain_demand:
  assumes "key_chain v as carry C its" "length carry = length v" "wf_matrix (length v) C" "i < length C"
  shows "sum_list (map (consumed_by i) its) + open_demand i C its = sum_list (C ! i)"
  using assms
proof (induction rule: key_chain.induct)
  case (chain_end as carry C)
  then show ?case by (simp add: open_demand_def)
next
  case (chain_round C p it a carry as its)
  let ?va = "vadd (vscale v a) carry"
  have len: "length ?va = length v" using chain_round.prems by simp
  have wf: "wf_matrix (length ?va) C" using chain_round.prems len by simp
  have row: "length (C ! i) = length v" using wf_row [OF chain_round.prems(2)] chain_round.prems(3) by simp
  have i: "oi_consumers it ! i = round_consumer ?va (C ! i) (p ! i)" "length (oi_consumers it) = length C"
    using chain_round by (simp_all add: round_iteration_def shares_def)
  have split: "consumed_by i it + oc_residual_volume_total (oi_consumers it ! i) = sum_list (C ! i)"
    using row len unfolding consumed_by_def i(1)
    by (simp add: round_consumer_def sum_list_nth_lessThan sum.distrib [symmetric])
  have res: "round_residual it ! i = oc_residual_volume (oi_consumers it ! i)"
    using i chain_round.prems(3) by (simp add: round_residual_def)
  have tot: "oc_residual_volume_total (oi_consumers it ! i) = sum_list (oc_residual_volume (oi_consumers it ! i))"
    unfolding i(1) by (simp add: round_consumer_def)
  have "sum_list (map (consumed_by i) its) + open_demand i (round_residual it) its = sum_list (round_residual it ! i)"
    using chain_round.IH round_surplus_wf(1) [OF wf, of a p] round_residual_wf [OF wf chain_round.hyps(1), of a]
      len chain_round.hyps(2) chain_round.prems(3) by simp
  then show ?case using split res tot by (auto simp: open_demand_def split: if_splits)
qed

section \<open>Fitness and key agree\<close>

lemma vmin_commute: "vmin u v = vmin v u"
  by (rule nth_equalityI) (simp_all add: min.commute)

lemma solved_E_sum:
  assumes "solves va C p s" "wf_matrix (length va) C"
  shows "\<exists>E. sE s = Some E \<and> sum_list (map sum_list E) = oi_surplus_total (round_iteration a va C p)"
proof -
  have len: "length p = length C" using assms(1) by (simp add: solves_def shares_def)
  have eq: "pos_half (vsub x c) = vsub x (vmin c x)" for x c :: vec
    by (simp add: pos_half_vsub vmin_commute [of c])
  have "map sum_list (mpos (msub (vapa_of va p) C)) = map oc_surplus_total (map2 (round_consumer va) C p)"
    using len by (intro nth_equalityI)
      (simp_all add: mpos_def msub_def vapa_of_def round_consumer_def eq)
  then show ?thesis using assms(1) by (simp add: solves_def round_iteration_def del: map_map)
qed

lemma det_solve_turn:
  assumes "\<And>max_iter va C. det (solve max_iter va C)"
  shows "det (solve_turn solve max_iter VA alloc i C cur)"
  unfolding solve_turn_def solver_solve_def Let_def
  by (auto intro!: det_bind assms split: option.splits)

text \<open>
  The outcomes of the two loops: the same exception, a key shortened where the search stopped, or
  a complete key whose last surplus is the sum of \<open>E\<close> in the last solution.
\<close>

definition agrees :: "nat \<Rightarrow> solution option result \<Rightarrow> ol_iteration list result \<Rightarrow> bool" where
  "agrees k rg rk =
     (case rg of
        Inl e \<Rightarrow> rk = Inl e
      | Inr None \<Rightarrow> k = 0 \<and> rk = Inr []
      | Inr (Some s) \<Rightarrow>
          (\<exists>its. rk = Inr its \<and> length its \<le> k \<and> (status s = ''optimal'' \<longleftrightarrow> length its = k) \<and>
             (length its = k \<and> 0 < k \<longrightarrow>
                (\<exists>E. sE s = Some E \<and> sum_list (map sum_list E) = oi_surplus_total (last its)))))"

lemma agrees_step:
  assumes r: "\<And>w. fst (turn w) = r"
    and opt: "\<And>s C'. r = Inr (s, C') \<Longrightarrow> status s = ''optimal'' \<Longrightarrow>
      \<exists>it E. to_iteration s a = Inr it \<and> sE s = Some E \<and> sum_list (map sum_list E) = oi_surplus_total it \<and>
        agrees k (fst (g s C' w1)) (fst (h s C' w2)) \<and> (k = 0 \<longrightarrow> fst (g s C' w1) = Inr (Some s))"
    and w1: "snd (turn w) = w1" and w2: "snd (turn w') = w2"
  shows "agrees (Suc k)
    (fst (abind turn (\<lambda>(s, C'). if status s \<noteq> ''optimal'' then areturn (Some s) else g s C') w))
    (fst (abind turn (\<lambda>(s, C'). if status s \<noteq> ''optimal'' then areturn []
       else abind (alift (Inr a)) (\<lambda>a. abind (alift (to_iteration s a)) (\<lambda>it.
         abind (h s C') (\<lambda>its. areturn (it # its))))) w'))"
proof (cases r)
  case (Inl e)
  then show ?thesis using r by (simp add: fst_abind(2) agrees_def)
next
  case (Inr sc)
  obtain s C' where sc: "sc = (s, C')" by (cases sc)
  note turn = fst_abind(1) [OF r [of _, unfolded Inr sc]]
  show ?thesis
  proof (cases "status s = ''optimal''")
    case False
    then show ?thesis by (simp add: turn areturn_def agrees_def)
  next
    case True
    from opt [OF Inr [unfolded sc] True] obtain it E where it: "to_iteration s a = Inr it" "sE s = Some E"
      "sum_list (map sum_list E) = oi_surplus_total it"
      and ag: "agrees k (fst (g s C' w1)) (fst (h s C' w2))" and k0: "k = 0 \<longrightarrow> fst (g s C' w1) = Inr (Some s)"
      by blast
    have hd: "fst (abind (h s C') (\<lambda>its. areturn (it # its)) w2) =
        (case fst (h s C' w2) of Inl e \<Rightarrow> Inl e | Inr its \<Rightarrow> Inr (it # its))"
      by (cases "fst (h s C' w2)") (simp_all add: fst_abind areturn_def)
    show ?thesis using True it ag k0 w1 w2
      by (auto simp: turn agrees_def hd split: sum.splits option.splits)
  qed
qed

lemma loops_agree_next:
  assumes "solver_optimal X solve" "nonneg v" "list_all (\<lambda>a. 0 \<le> a) alloc"
    "\<And>max_iter va C. det (solve max_iter va C)"
  shows "nonneg va \<Longrightarrow> length va = length v \<Longrightarrow> wf_matrix (length v) C \<Longrightarrow> solves va C p s \<Longrightarrow>
    status s = ''optimal'' \<Longrightarrow> 0 < i \<Longrightarrow> i + k \<le> length alloc \<Longrightarrow> n = length C \<Longrightarrow>
    agrees k (fst (genetic_loop solve max_iter (replicate n v) alloc i k C (Some s) w))
      (fst (key_loop solve max_iter (replicate n v) alloc i k C (Some s) w'))"
proof (induction k arbitrary: i va C p s w w')
  case 0
  then show ?case by (simp add: areturn_def agrees_def)
next
  case (Suc k)
  let ?it = "round_iteration 0 va C p"
  let ?va = "vadd (vscale v (alloc ! i)) (round_surplus (length v) ?it)"
  let ?turn = "solve_turn solve max_iter (replicate n v) alloc i C (Some s)"
  have wfva: "wf_matrix (length va) C" and sh: "shares (length C) p" and i: "i < length alloc"
    using Suc.prems by (auto simp: solves_def)
  have a: "0 \<le> alloc ! i" using assms(3) i by (simp add: list_all_length)
  have C': "wf_matrix (length v) (round_residual ?it)" "length (round_residual ?it) = length C"
    using round_residual_wf [OF wfva sh] Suc.prems(2) by simp_all
  have va': "nonneg ?va" "length ?va = length v"
    using round_surplus_wf [OF wfva, of 0 p] Suc.prems(2) assms(2) a
    by (simp_all add: nonneg_vadd nonneg_vscale)
  have turn: "yields ?turn (\<lambda>(s', C'). C' = round_residual ?it \<and>
      (status s' = ''optimal'' \<longrightarrow> (\<exists>p'. solves ?va C' p' s'))) X"
    using solve_turn_next [OF assms(1,2) Suc.prems(1-4,6) i a refl] Suc.prems(8) by simp
  have same: "fst (?turn x) = fst (?turn w)" for x
    using det_solve_turn [of solve, OF assms(4)] unfolding det_def by blast
  have nth: "nth_result alloc i = Inr (alloc ! i)" using i by (simp add: nth_result_def)
  show ?case unfolding genetic_loop.simps key_loop.simps nth
  proof (rule agrees_step [OF same _ refl refl])
    fix s' C'' assume r: "fst (?turn w) = Inr (s', C'')" and opt: "status s' = ''optimal''"
    from yields_at [OF turn r] opt obtain p' where
      C'': "C'' = round_residual ?it" and p': "solves ?va (round_residual ?it) p' s'" by auto
    have ne: "round_residual ?it \<noteq> []" using C'(1) by (simp add: wf_matrix_def)
    note it = to_iteration_round [OF p' ne, of "alloc ! i"]
    have wf': "wf_matrix (length ?va) (round_residual ?it)" using C'(1) va'(2) by (simp only:)
    obtain E where E: "sE s' = Some E"
      "sum_list (map sum_list E) = oi_surplus_total (round_iteration (alloc ! i) ?va (round_residual ?it) p')"
      using solved_E_sum [OF p' wf'] by blast
    have ag: "agrees k
        (fst (genetic_loop solve max_iter (replicate n v) alloc (Suc i) k C'' (Some s') (snd (?turn w))))
        (fst (key_loop solve max_iter (replicate n v) alloc (Suc i) k C'' (Some s') (snd (?turn w'))))"
      using Suc.IH [OF va' C'(1) p' opt, of "Suc i"] Suc.prems(7,8) C'(2) C'' by simp
    show "\<exists>it E. to_iteration s' (alloc ! i) = Inr it \<and> sE s' = Some E \<and>
        sum_list (map sum_list E) = oi_surplus_total it \<and>
        agrees k
          (fst (genetic_loop solve max_iter (replicate n v) alloc (Suc i) k C'' (Some s') (snd (?turn w))))
          (fst (key_loop solve max_iter (replicate n v) alloc (Suc i) k C'' (Some s') (snd (?turn w')))) \<and>
        (k = 0 \<longrightarrow> fst (genetic_loop solve max_iter (replicate n v) alloc (Suc i) k C'' (Some s') (snd (?turn w))) = Inr (Some s'))"
      using it E ag by (auto simp: areturn_def)
  qed
qed

lemma loops_agree:
  assumes "solver_optimal X solve" "nonneg v" "wf_matrix (length v) C" "list_all (\<lambda>a. 0 \<le> a) alloc"
    "\<And>max_iter va C. det (solve max_iter va C)" "n \<le> length alloc"
  shows "agrees n (fst (genetic_loop solve max_iter (replicate (length C) v) alloc 0 n C None w))
      (fst (key_loop solve max_iter (replicate (length C) v) alloc 0 n C None w'))"
proof (cases n)
  case 0
  then show ?thesis by (simp add: areturn_def agrees_def)
next
  case (Suc k)
  let ?VA = "replicate (length C) v" and ?va = "vscale v (alloc ! 0)"
  let ?turn = "solve_turn solve max_iter ?VA alloc 0 C None"
  have "0 < length alloc" using assms(6) Suc by linarith
  with assms(4) have a: "0 < length alloc" "0 \<le> alloc ! 0" by (simp_all add: list_all_length)
  have va: "nonneg ?va" "length ?va = length v" using assms(2) a by (simp_all add: nonneg_vscale)
  note turn = solve_turn_first [OF assms(1-3) a, of max_iter]
  have same: "fst (?turn x) = fst (?turn w)" for x
    using det_solve_turn [of solve, OF assms(5)] unfolding det_def by blast
  have nth: "nth_result alloc 0 = Inr (alloc ! 0)" using a by (simp add: nth_result_def)
  show ?thesis unfolding Suc genetic_loop.simps key_loop.simps nth
  proof (rule agrees_step [OF same _ refl refl])
    fix s' C'' assume r: "fst (?turn w) = Inr (s', C'')" and opt: "status s' = ''optimal''"
    from yields_at [OF turn r] opt obtain p' where C'': "C'' = C" and p': "solves ?va C p' s'" by auto
    have ne: "C \<noteq> []" using assms(3) by (simp add: wf_matrix_def)
    note it = to_iteration_round [OF p' ne, of "alloc ! 0"]
    have wf': "wf_matrix (length ?va) C" using assms(3) va(2) by (simp only:)
    obtain E where E: "sE s' = Some E"
      "sum_list (map sum_list E) = oi_surplus_total (round_iteration (alloc ! 0) ?va C p')"
      using solved_E_sum [OF p' wf'] by blast
    have ag: "agrees k (fst (genetic_loop solve max_iter ?VA alloc (Suc 0) k C'' (Some s') (snd (?turn w))))
        (fst (key_loop solve max_iter ?VA alloc (Suc 0) k C'' (Some s') (snd (?turn w'))))"
      using loops_agree_next [OF assms(1,2,4,5) va assms(3) p' opt, of "Suc 0" k] assms(6) Suc C'' by simp
    show "\<exists>it E. to_iteration s' (alloc ! 0) = Inr it \<and> sE s' = Some E \<and>
        sum_list (map sum_list E) = oi_surplus_total it \<and>
        agrees k
          (fst (genetic_loop solve max_iter ?VA alloc (Suc 0) k C'' (Some s') (snd (?turn w))))
          (fst (key_loop solve max_iter ?VA alloc (Suc 0) k C'' (Some s') (snd (?turn w')))) \<and>
        (k = 0 \<longrightarrow> fst (genetic_loop solve max_iter ?VA alloc (Suc 0) k C'' (Some s') (snd (?turn w))) = Inr (Some s'))"
      using it E ag by (auto simp: areturn_def)
  qed
qed

section \<open>A concrete solver\<close>

text \<open>Equal shares for all consumers: an instance of the solver parameter.\<close>

definition uniform_solve :: "unit solve" where
  "uniform_solve max_iter va C =
     (let p = replicate (length C) (1 / real (length C))
      in areturn \<lparr> so_status = ''optimal'', so_p = Some p, so_VAPA = Some (vapa_of va p),
                   so_E = Some (mpos (msub (vapa_of va p) C)) \<rparr>)"

lemma uniform_solve_ok: "solver_optimal X uniform_solve" "det (uniform_solve max_iter va C)"
  by (auto simp: solver_optimal_def uniform_solve_def Let_def wf_matrix_def shares_def nonneg_def
      list_all_iff sum_list_replicate intro!: yields_return)

section \<open>Properties\<close>

text \<open>C13. Whatever shares the convex solver finds, solving a key on well-formed data raises only
  what the solver itself raises. The iterations it returns carry the production shares of the
  candidate, in order; the shares of the consumers in each of them are not negative and add up
  to one; the energy used in all iterations together with the surplus of the last one is the
  production handed out so far; and the energy each consumer used together with what it still
  has open is its consumption.\<close>

theorem solve_key_energy_balance:
  assumes "solver_optimal X solve" "nonneg v" "wf_matrix (length v) C" "list_all (\<lambda>a. 0 \<le> a) alloc"
    "n \<le> length alloc"
  shows "yields (solve_key solve max_iter n C (replicate (length C) v) alloc)
    (\<lambda>ky. let its = key_iterations ky in
       length its \<le> n \<and> map oi_energy_allocated_percentage its = take (length its) alloc \<and>
       list_all (\<lambda>it. shares (length (oi_consumers it)) (map oc_energy_allocated_percentage (oi_consumers it))) its \<and>
       sum_list (map consumed its) + left_over 0 its = sum_list v * sum_list (take (length its) alloc) \<and>
       (\<forall>i. i < length C \<longrightarrow> sum_list (map (consumed_by i) its) + open_demand i C its = sum_list (C ! i)))
    X"
proof (rule yields_weaken [OF solve_key_yields [OF assms]])
  fix ky assume ky: "length (key_iterations ky) \<le> n \<and>
    key_chain v (take n alloc) (zeros (length v)) C (key_iterations ky)"
  let ?its = "key_iterations ky"
  have take: "take (length ?its) (take n alloc) = take (length ?its) alloc" using ky by (simp add: min_def)
  have zero: "sum_list (zeros (length v)) = 0" by (simp add: zeros_def sum_list_replicate)
  show "let its = ?its in length its \<le> n \<and> map oi_energy_allocated_percentage its = take (length its) alloc \<and>
       list_all (\<lambda>it. shares (length (oi_consumers it)) (map oc_energy_allocated_percentage (oi_consumers it))) its \<and>
       sum_list (map consumed its) + left_over 0 its = sum_list v * sum_list (take (length its) alloc) \<and>
       (\<forall>i. i < length C \<longrightarrow> sum_list (map (consumed_by i) its) + open_demand i C its = sum_list (C ! i))"
    using ky key_chain_shares [OF conjunct2 [OF ky]] key_chain_balance [OF conjunct2 [OF ky] _ assms(3)]
      key_chain_demand [OF conjunct2 [OF ky] _ assms(3)]
    by (simp add: Let_def take zero del: take_take)
qed simp

theorem solve_key_energy_balance_witness:
  "yields (solve_key uniform_solve 200 2 [[1, 2], [3, 0]] (replicate 2 [2, 2]) [1 / 4, 3 / 4])
    (\<lambda>ky. let its = key_iterations ky in
       length its \<le> 2 \<and> map oi_energy_allocated_percentage its = take (length its) [1 / 4, 3 / 4] \<and>
       list_all (\<lambda>it. shares (length (oi_consumers it)) (map oc_energy_allocated_percentage (oi_consumers it))) its \<and>
       sum_list (map consumed its) + left_over 0 its = 4 * sum_list (take (length its) [1 / 4, 3 / 4]) \<and>
       (\<forall>i. i < 2 \<longrightarrow> sum_list (map (consumed_by i) its) + open_demand i [[1, 2], [3, 0]] its =
          sum_list ([[1, 2], [3, 0]] ! i)))
    (\<lambda>e. False)"
  using solve_key_energy_balance [OF uniform_solve_ok(1) [of "\<lambda>e. False"], of "[2, 2]" "[[1, 2], [3, 0]]"
    "[1 / 4, 3 / 4]" 2 200]
  by (simp add: nonneg_def wf_matrix_def numeral_2_eq_2)



end
