(* ===== verification/OlagsaGA.thy ===== *)
theory OlagsaGA
  imports OlagsaGeometry OlagsaSolver
begin

text \<open>
  The genetic search of OLAGSA (\<open>olagsa/_impl/ga.py\<close>, \<open>bestsolution.py\<close>). The random generators of Python and numpy and the convex solver are
  parameters, gathered in the record \<open>env\<close>; what the code relies on of the generators is
  \<open>rng_ok\<close>. Every operation is an action over the hidden state of the three.
\<close>

section \<open>Environment and configuration\<close>

record 'w env =
  random :: "('w, py_error, real) act"
  randint :: "nat \<Rightarrow> nat \<Rightarrow> ('w, py_error, nat) act"
  np_choice :: "nat \<Rightarrow> nat \<Rightarrow> vec \<Rightarrow> ('w, py_error, nat list) act"
  cvx :: "'w solve"

record ga_config =
  num_key_iteration :: nat
  num_generation :: nat
  population_size :: nat
  crossover_rate :: real
  crossover_rate_inter_species :: real
  mutation_rate :: real
  species_waited :: nat
  max_iteration_without_improvement :: nat

definition PONDERATION_EXCEDENT :: real where
  "PONDERATION_EXCEDENT = 1000"

definition SOLVER_MAX_ITER :: nat where
  "SOLVER_MAX_ITER = 200"

section \<open>Primitives\<close>

text \<open>\<open>[x / total for x in xs]\<close> with \<open>total = sum(xs)\<close>: no division for an empty list.\<close>

definition normalise :: "real list \<Rightarrow> real list result" where
  "normalise xs =
     (if xs \<noteq> [] \<and> sum_list xs = 0 then Inl ZeroDivisionError
      else Inr (map (\<lambda>x. x / sum_list xs) xs))"

definition random_allocation :: "'w env \<Rightarrow> ga_config \<Rightarrow> ('w, py_error, real list) act" where
  "random_allocation env cfg =
     abind (areplicate (num_key_iteration cfg) (random env)) (\<lambda>xs. alift (normalise xs))"

definition mutate :: "'w env \<Rightarrow> ga_config \<Rightarrow> individual \<Rightarrow> ('w, py_error, individual) act" where
  "mutate env cfg ind =
     abind (random env) (\<lambda>r.
       if r \<ge> mutation_rate cfg then areturn (Individual (chromosomes ind) 0)
       else abind (randint env 0 (length (chromosomes ind) - 1)) (\<lambda>index.
              abind (random env) (\<lambda>x.
                abind (alift (normalise ((chromosomes ind)[index := x]))) (\<lambda>mutated.
                  areturn (Individual mutated 0)))))"

definition initialize_population :: "'w env \<Rightarrow> ga_config \<Rightarrow> ('w, py_error, individual list) act" where
  "initialize_population env cfg =
     areplicate (population_size cfg)
       (abind (random_allocation env cfg) (\<lambda>xs. areturn (Individual xs 0)))"

definition solution_fitness :: "solution option \<Rightarrow> real result" where
  "solution_fitness so =
     (case so of
        None \<Rightarrow> Inr (100 * PONDERATION_EXCEDENT)
      | Some s \<Rightarrow>
          if status s \<noteq> ''optimal'' then Inr (100 * PONDERATION_EXCEDENT)
          else (case sE s of
                  None \<Rightarrow> Inl TypeError
                | Some E \<Rightarrow> Inr (1 / (sum_list (map sum_list E) + 1) * PONDERATION_EXCEDENT)))"

definition evaluate :: "'w env \<Rightarrow> ga_config \<Rightarrow> matrix \<Rightarrow> matrix \<Rightarrow> individual \<Rightarrow> ('w, py_error, individual) act" where
  "evaluate env cfg C VA ind =
     abind (solve_genetic (cvx env) SOLVER_MAX_ITER (num_key_iteration cfg) C VA (chromosomes ind)) (\<lambda>so.
       abind (alift (solution_fitness so)) (\<lambda>f. areturn (ind \<lparr> fitness := f \<rparr>)))"

text \<open>
  \<open>_roulette_wheel\<close>: numpy rejects an empty population, and the \<open>nan\<close> probabilities of a
  population whose fitness adds up to zero.
\<close>

definition roulette_wheel ::
  "'w env \<Rightarrow> individual list \<Rightarrow> real list \<Rightarrow> nat \<Rightarrow> ('w, py_error, individual list) act" where
  "roulette_wheel env population fitness_values n =
     (let total_fitness = sum_list fitness_values;
          probabilities = map (\<lambda>f. f / total_fitness) fitness_values
      in if population = [] then araise (ValueError ''a must be greater than 0 unless no samples are taken'')
         else if total_fitness = 0 then araise (ValueError ''probabilities contain NaN'')
         else abind (np_choice env (length population) n probabilities) (\<lambda>indices.
                areturn (map (\<lambda>i. population ! i) indices)))"

fun assign_individual :: "individual \<Rightarrow> coordinate \<Rightarrow> specie list \<Rightarrow> specie list result" where
  "assign_individual ind p [] = Inl (RuntimeError ''Individual could not be assigned to any species'')"
| "assign_individual ind p (s # ss) =
     (if specie_accepts s p then Inr (s \<lparr> sp_individuals := sp_individuals s @ [ind] \<rparr> # ss)
      else rbind (assign_individual ind p ss) (\<lambda>ss'. Inr (s # ss')))"

fun assign_species :: "individual list \<Rightarrow> specie list \<Rightarrow> specie list result" where
  "assign_species [] species = Inr species"
| "assign_species (ind # inds) species =
     rbind (chromosome_to_coordinate (chromosomes ind)) (\<lambda>p.
       rbind (assign_individual ind p species) (\<lambda>species'. assign_species inds species'))"

definition apply_adjusted_fitness :: "specie \<Rightarrow> specie" where
  "apply_adjusted_fitness s =
     s \<lparr> sp_individuals :=
           map (\<lambda>ind. ind \<lparr> adjusted_fitness := fitness ind / real (length (sp_individuals s)) \<rparr>)
             (sp_individuals s) \<rparr>"

text \<open>\<open>individuals.sort(key=lambda x: x.fitness, reverse=True)\<close>: stable, greatest first.\<close>

definition sort_individuals :: "individual list \<Rightarrow> individual list" where
  "sort_individuals inds = sort_key (\<lambda>i. - fitness i) inds"

definition cull_weakest :: "specie \<Rightarrow> specie" where
  "cull_weakest s =
     (if length (sp_individuals s) = 1 then s
      else let sorted_inds = sort_individuals (sp_individuals s)
           in s \<lparr> sp_individuals := take (length sorted_inds div 2) sorted_inds \<rparr>)"

definition crossover_chromosomes ::
  "'w env \<Rightarrow> individual \<Rightarrow> individual \<Rightarrow> ('w, py_error, real list) act" where
  "crossover_chromosomes env parent_a parent_b =
     (let a = chromosomes parent_a; b = chromosomes parent_b
      in abind (randint env 0 (length a - 1)) (\<lambda>point.
           abind (randint env 0 1) (\<lambda>side.
             alift (normalise (if side = 0 then take point a @ drop point b
                               else take point b @ drop point a)))))"

text \<open>\<open>parent_a, parent_b = ...\<close> unpacks exactly two values.\<close>

definition unpack2 :: "'a list \<Rightarrow> ('a \<times> 'a) result" where
  "unpack2 xs = (case xs of [x, y] \<Rightarrow> Inr (x, y) | _ \<Rightarrow> Inl (ValueError ''unpack''))"

definition breed_intra :: "'w env \<Rightarrow> ga_config \<Rightarrow> specie \<Rightarrow> ('w, py_error, individual) act" where
  "breed_intra env cfg s =
     abind (roulette_wheel env (sp_individuals s) (map fitness (sp_individuals s)) 2) (\<lambda>parents.
       abind (alift (unpack2 parents)) (\<lambda>(parent_a, parent_b).
         abind (randint env 0 1) (\<lambda>coin.
           if real coin < crossover_rate cfg
           then abind (crossover_chromosomes env parent_a parent_b) (\<lambda>offspring.
                  areturn (Individual offspring 0))
           else abind (randint env 0 1) (\<lambda>side.
                  areturn (Individual (if side = 0 then chromosomes parent_a else chromosomes parent_b) 0)))))"

definition centroid_distance :: "coordinate \<Rightarrow> coordinate \<Rightarrow> real" where
  "centroid_distance a b = sqrt ((cx a - cx b)\<^sup>2 + (cy a - cy b)\<^sup>2 + (cz a - cz b)\<^sup>2)"

text \<open>The loop over the other species; \<open>None\<close> is \<open>min_distance = math.inf\<close>.\<close>

fun find_nearest :: "specie \<Rightarrow> specie list \<Rightarrow> (real \<times> specie) option \<Rightarrow> specie option" where
  "find_nearest s [] best = map_option snd best"
| "find_nearest s (other # others) best =
     (if sp_id other = sp_id s \<or> sp_individuals other = [] then find_nearest s others best
      else (case (sp_centroid other, sp_centroid s) of
              (Some oc, Some sc) \<Rightarrow>
                (let dist = centroid_distance sc oc
                 in if (case best of None \<Rightarrow> True | Some (d, _) \<Rightarrow> dist < d)
                    then find_nearest s others (Some (dist, other))
                    else find_nearest s others best)
            | _ \<Rightarrow> find_nearest s others best))"

definition breed_inter :: "'w env \<Rightarrow> ga_config \<Rightarrow> specie \<Rightarrow> specie list \<Rightarrow> ('w, py_error, individual) act" where
  "breed_inter env cfg s species =
     (case find_nearest s species None of
        None \<Rightarrow> breed_intra env cfg s
      | Some nearest \<Rightarrow>
          abind (roulette_wheel env (sp_individuals s) (map fitness (sp_individuals s)) 1) (\<lambda>pa.
            abind (alift (nth_result pa 0)) (\<lambda>parent_a.
              abind (roulette_wheel env (sp_individuals nearest) (map fitness (sp_individuals nearest)) 1) (\<lambda>pb.
                abind (alift (nth_result pb 0)) (\<lambda>parent_b.
                  abind (crossover_chromosomes env parent_a parent_b) (\<lambda>offspring.
                    areturn (Individual offspring 0)))))))"

section \<open>Main loop\<close>

record best_solution =
  bs_individual :: individual
  bs_fitness :: real
  bs_key :: "key option"

text \<open>The passes over the species: the first best fitness, and the check for improvement.\<close>

definition init_best :: "specie \<Rightarrow> specie" where
  "init_best s =
     (if sp_individuals s = [] then s
      else let inds = sort_individuals (sp_individuals s)
           in s \<lparr> sp_individuals := inds, sp_best_fitness := fitness (hd inds) \<rparr>)"

definition check_improvement :: "ga_config \<Rightarrow> specie \<Rightarrow> specie \<times> bool" where
  "check_improvement cfg s =
     (if sp_individuals s = [] then (s, False)
      else let inds = sort_individuals (sp_individuals s);
               s1 = s \<lparr> sp_individuals := inds \<rparr>;
               s2 = (if fitness (hd inds) \<ge> sp_best_fitness s1
                     then s1 \<lparr> sp_iteration_without_improvement := sp_iteration_without_improvement s1 + 1 \<rparr>
                     else s1 \<lparr> sp_best_fitness := fitness (hd inds), sp_iteration_without_improvement := 0 \<rparr>)
           in (s2, sp_iteration_without_improvement s2 \<ge> max_iteration_without_improvement cfg))"

definition total_adjusted :: "specie list \<Rightarrow> real" where
  "total_adjusted species = sum_list (map adjusted_fitness (concat (map sp_individuals species)))"

text \<open>\<open>int(ratio * population_size)\<close>; a negative count would give an empty \<open>range\<close>.\<close>

definition num_children :: "ga_config \<Rightarrow> real \<Rightarrow> specie \<Rightarrow> nat" where
  "num_children cfg total_adj s =
     (if sp_individuals s = [] then 0
      else nat \<lfloor>adjusted_fitness (hd (sp_individuals s)) / total_adj * real (population_size cfg)\<rfloor>)"

definition breed_child ::
  "'w env \<Rightarrow> ga_config \<Rightarrow> matrix \<Rightarrow> matrix \<Rightarrow> nat \<Rightarrow> specie list \<Rightarrow> specie \<Rightarrow> ('w, py_error, individual) act" where
  "breed_child env cfg C VA waited species s =
     abind (if waited > 1
            then abind (random env) (\<lambda>r. areturn (r < crossover_rate_inter_species cfg))
            else areturn False) (\<lambda>inter.
       abind (if inter then breed_inter env cfg s species else breed_intra env cfg s) (\<lambda>child.
         abind (if mutation_rate cfg > 0 then mutate env cfg child else areturn child) (\<lambda>child'.
           evaluate env cfg C VA child')))"

definition breed_all ::
  "'w env \<Rightarrow> ga_config \<Rightarrow> matrix \<Rightarrow> matrix \<Rightarrow> nat \<Rightarrow> specie list \<Rightarrow> ('w, py_error, individual list) act" where
  "breed_all env cfg C VA waited species =
     abind (amapM (\<lambda>s. areplicate (num_children cfg (total_adjusted species) s)
                          (breed_child env cfg C VA waited species s)) species)
       (\<lambda>childs. areturn (concat childs))"

definition select_survivors :: "specie list \<Rightarrow> specie list" where
  "select_survivors species =
     map cull_weakest (map apply_adjusted_fitness (filter (\<lambda>s. sp_individuals s \<noteq> []) species))"

text \<open>The loop over the generations, with the number of generations still to do.\<close>

fun generations ::
  "'w env \<Rightarrow> ga_config \<Rightarrow> matrix \<Rightarrow> matrix \<Rightarrow> nat \<Rightarrow> nat \<Rightarrow> specie list \<Rightarrow> ('w, py_error, specie list) act" where
  "generations env cfg C VA waited 0 species = areturn species"
| "generations env cfg C VA waited (Suc k) species =
     (let checked = map (check_improvement cfg) species;
          species1 = map fst checked
      in if list_all snd checked then areturn species1
         else let species2 = select_survivors species1
              in if total_adjusted species2 = 0 then areturn species2
                 else abind (breed_all env cfg C VA waited species2) (\<lambda>children.
                        abind (alift (assign_species children species2)) (\<lambda>species3.
                          generations env cfg C VA waited k species3)))"

definition collect_best ::
  "'w env \<Rightarrow> ga_config \<Rightarrow> matrix \<Rightarrow> matrix \<Rightarrow> specie list \<Rightarrow> ('w, py_error, best_solution list) act" where
  "collect_best env cfg C VA species =
     amapM (\<lambda>s. let best = hd (sort_individuals (sp_individuals s)) in
        abind (solve_key (cvx env) SOLVER_MAX_ITER (num_key_iteration cfg) C VA (chromosomes best)) (\<lambda>ky.
          areturn \<lparr> bs_individual = best, bs_fitness = fitness best, bs_key = Some ky \<rparr>))
       (filter (\<lambda>s. sp_individuals s \<noteq> []) species)"

definition ga_run :: "'w env \<Rightarrow> ga_config \<Rightarrow> matrix \<Rightarrow> matrix \<Rightarrow> ('w, py_error, best_solution list) act" where
  "ga_run env cfg C VA =
     abind (alift (WarmStartSolver (length C, shape1 C) (length VA, shape1 VA) SOLVER_MAX_ITER)) (\<lambda>_.
       if num_key_iteration cfg = 1 then
         abind (evaluate env cfg C VA (Individual [1] 0)) (\<lambda>only.
           abind (solve_key (cvx env) SOLVER_MAX_ITER 1 C VA (chromosomes only)) (\<lambda>ky.
             areturn [\<lparr> bs_individual = only, bs_fitness = fitness only, bs_key = Some ky \<rparr>]))
       else
         abind (initialize_population env cfg) (\<lambda>pop.
           abind (amapM (evaluate env cfg C VA) pop) (\<lambda>population.
             abind (alift (initialize_species (num_key_iteration cfg) (species_waited cfg) 0)) (\<lambda>(space, _, waited).
               abind (alift (assign_species population space)) (\<lambda>species.
                 abind (generations env cfg C VA waited (num_generation cfg) (map init_best species)) (\<lambda>final.
                   collect_best env cfg C VA final))))))"

section \<open>What the code relies on of the generators\<close>

text \<open>
  \<open>random()\<close> is in \<open>[0, 1)\<close>, \<open>randint(a, b)\<close> between its bounds, and \<open>choice\<close> returns the number of
  indices asked for, each an index of the population.
\<close>

definition rng_ok :: "'w env \<Rightarrow> bool" where
  "rng_ok env \<longleftrightarrow>
     yields (random env) (\<lambda>x. 0 \<le> x \<and> x < 1) (\<lambda>_. False) \<and>
     (\<forall>a b. a \<le> b \<longrightarrow> yields (randint env a b) (\<lambda>i. a \<le> i \<and> i \<le> b) (\<lambda>_. False)) \<and>
     (\<forall>n k p. shares n p \<and> 0 < n \<longrightarrow>
        yields (np_choice env n k p) (\<lambda>is. length is = k \<and> list_all (\<lambda>i. i < n) is) (\<lambda>_. False))"

abbreviation unassigned :: py_error where
  "unassigned \<equiv> RuntimeError ''Individual could not be assigned to any species''"

text \<open>The exceptions of the search, given those of the solver.\<close>

definition ga_errors :: "(py_error \<Rightarrow> bool) \<Rightarrow> py_error \<Rightarrow> bool" where
  "ga_errors X e \<longleftrightarrow> X e \<or> e = ZeroDivisionError \<or> e = unassigned"

lemma rng_random: "rng_ok env \<Longrightarrow> yields (random env) (\<lambda>x. 0 \<le> x \<and> x < 1) X"
  unfolding rng_ok_def by (blast intro: yields_errors)

lemma rng_randint: "rng_ok env \<Longrightarrow> a \<le> b \<Longrightarrow> yields (randint env a b) (\<lambda>i. a \<le> i \<and> i \<le> b) X"
  unfolding rng_ok_def by (blast intro: yields_errors)

lemma rng_choice:
  "rng_ok env \<Longrightarrow> shares n p \<Longrightarrow> 0 < n \<Longrightarrow>
    yields (np_choice env n k p) (\<lambda>is. length is = k \<and> list_all (\<lambda>i. i < n) is) X"
  unfolding rng_ok_def by (blast intro: yields_errors)

section \<open>Candidates\<close>

definition scored :: "ga_config \<Rightarrow> individual \<Rightarrow> bool" where
  "scored cfg ind \<longleftrightarrow> allocation (num_key_iteration cfg) (chromosomes ind) \<and> 0 < fitness ind \<and>
     (fitness ind = 100 * PONDERATION_EXCEDENT \<or> fitness ind \<le> PONDERATION_EXCEDENT)"

definition candidate :: "ga_config \<Rightarrow> individual \<Rightarrow> bool" where
  "candidate cfg ind \<longleftrightarrow> allocation (num_key_iteration cfg) (chromosomes ind)"

lemma normalise_allocation:
  assumes "list_all (\<lambda>x. 0 \<le> x) xs" "xs \<noteq> []" "length xs = n"
  shows "case normalise xs of Inl e \<Rightarrow> e = ZeroDivisionError | Inr ys \<Rightarrow> allocation n ys"
proof (cases "sum_list xs = 0")
  case True
  then show ?thesis using assms by (simp add: normalise_def)
next
  case False
  have "0 \<le> sum_list xs" using assms(1) by (intro sum_list_nonneg) (simp add: list_all_iff)
  moreover have "sum_list (map (\<lambda>x. x / sum_list xs) xs) = 1"
    using False sum_list_divide_right [of "\<lambda>x. x" "sum_list xs" xs] by simp
  ultimately show ?thesis using assms False
    by (auto simp: normalise_def allocation_def list_all_iff)
qed

lemma normalise_yields:
  "list_all (\<lambda>x. 0 \<le> x) xs \<Longrightarrow> xs \<noteq> [] \<Longrightarrow> length xs = n \<Longrightarrow>
    yields (alift (normalise xs)) (allocation n) (ga_errors X)"
  using normalise_allocation [of xs n]
  by (auto intro!: yields_lift simp: ga_errors_def split: sum.splits)

lemma allocation_nonneg: "allocation n ch \<Longrightarrow> list_all (\<lambda>x. 0 \<le> x) ch"
  by (simp add: allocation_def)

lemma random_allocation_yields:
  assumes "rng_ok env" "0 < num_key_iteration cfg"
  shows "yields (random_allocation env cfg) (allocation (num_key_iteration cfg)) (ga_errors X)"
  unfolding random_allocation_def
proof (rule yields_bind [OF yields_replicate [OF rng_random [OF assms(1)]]])
  fix xs assume "length xs = num_key_iteration cfg \<and> list_all (\<lambda>x. 0 \<le> x \<and> x < (1 :: real)) xs"
  with assms(2) show "yields (alift (normalise xs)) (allocation (num_key_iteration cfg)) (ga_errors X)"
    by (intro normalise_yields) (auto simp: list_all_iff)
qed

lemma mutate_yields:
  assumes "rng_ok env" "0 < num_key_iteration cfg" "candidate cfg ind"
  shows "yields (mutate env cfg ind) (candidate cfg) (ga_errors X)"
proof -
  let ?ch = "chromosomes ind"
  have ch: "list_all (\<lambda>x. 0 \<le> x) ?ch" "length ?ch = num_key_iteration cfg" "?ch \<noteq> []"
    using assms(2,3) by (auto simp: candidate_def allocation_def)
  have "yields (alift (normalise (?ch[index := x]))) (allocation (num_key_iteration cfg)) (ga_errors X)"
    if "0 \<le> x" for index x
    using that ch set_update_subset_insert [of ?ch index x]
    by (intro normalise_yields) (auto simp: list_all_iff)
  note renorm = yields_bind [OF this]
  show ?thesis unfolding mutate_def
  proof (intro yields_bind [OF rng_random [OF assms(1)]] yields_if yields_return)
    show "candidate cfg (Individual ?ch 0)" using assms(3) by (simp add: candidate_def Individual_def)
    show "yields (abind (randint env 0 (length ?ch - 1)) (\<lambda>index. abind (random env) (\<lambda>x.
        abind (alift (normalise (?ch[index := x]))) (\<lambda>mutated. areturn (Individual mutated 0)))))
      (candidate cfg) (ga_errors X)"
      by (intro yields_bind [OF rng_randint [OF assms(1)]] yields_bind [OF rng_random [OF assms(1)]] renorm
          yields_return) (simp_all add: candidate_def Individual_def)
  qed
qed

lemma solution_fitness_range:
  assumes "scorable so"
  shows "\<exists>f. solution_fitness so = Inr f \<and> 0 < f \<and> (f = 100 * PONDERATION_EXCEDENT \<or> f \<le> PONDERATION_EXCEDENT)"
proof -
  obtain s where s: "so = Some s" "status s = ''optimal'' \<Longrightarrow> \<exists>E. sE s = Some E \<and> 0 \<le> sum_list (map sum_list E)"
    using assms by (auto simp: scorable_def)
  show ?thesis
  proof (cases "status s = ''optimal''")
    case True
    then obtain E where "sE s = Some E" "0 \<le> sum_list (map sum_list E)" using s(2) by blast
    then show ?thesis using s(1) True
      by (simp add: solution_fitness_def PONDERATION_EXCEDENT_def divide_le_eq)
  qed (simp add: s(1) solution_fitness_def PONDERATION_EXCEDENT_def)
qed

lemma evaluate_yields:
  assumes "solver_optimal X (cvx env)" "nonneg v" "wf_matrix (length v) C" "0 < num_key_iteration cfg"
    "candidate cfg ind"
  shows "yields (evaluate env cfg C (replicate (length C) v) ind) (scored cfg) (ga_errors X)"
proof -
  have ch: "list_all (\<lambda>x. 0 \<le> x) (chromosomes ind)" "length (chromosomes ind) = num_key_iteration cfg"
    using assms(5) by (auto simp: candidate_def allocation_def)
  have "yields (solve_genetic (cvx env) SOLVER_MAX_ITER (num_key_iteration cfg) C (replicate (length C) v)
      (chromosomes ind)) scorable (ga_errors X)"
    using ch(2) by (intro yields_errors [OF solve_genetic_yields [OF assms(1-3) ch(1) assms(4)]])
      (simp_all add: ga_errors_def)
  moreover have "yields (abind (alift (solution_fitness so)) (\<lambda>f. areturn (ind \<lparr> fitness := f \<rparr>)))
      (scored cfg) (ga_errors X)" if "scorable so" for so
  proof -
    from that obtain f where f: "solution_fitness so = Inr f" "0 < f"
      "f = 100 * PONDERATION_EXCEDENT \<or> f \<le> PONDERATION_EXCEDENT"
      using solution_fitness_range by blast
    then show ?thesis using assms(5) by (simp add: yields_return scored_def candidate_def)
  qed
  ultimately show ?thesis unfolding evaluate_def by (rule yields_bind)
qed

section \<open>Breeding\<close>

definition species_ok :: "ga_config \<Rightarrow> specie list \<Rightarrow> bool" where
  "species_ok cfg species \<longleftrightarrow> list_all (\<lambda>s. list_all (scored cfg) (sp_individuals s)) species"

lemma scored_candidate: "scored cfg ind \<Longrightarrow> candidate cfg ind"
  by (simp add: scored_def candidate_def)

lemma roulette_yields:
  assumes "rng_ok env" "list_all (scored cfg) inds" "inds \<noteq> []"
  shows "yields (roulette_wheel env inds (map fitness inds) n)
    (\<lambda>ps. length ps = n \<and> list_all (candidate cfg) ps) X"
proof -
  have pos: "\<And>i. i \<in> set inds \<Longrightarrow> 0 < fitness i" using assms(2) by (simp add: list_all_iff scored_def)
  have sum: "0 < sum_list (map fitness inds)"
  proof -
    obtain a l where l: "inds = a # l" using assms(3) by (cases inds) auto
    have "0 \<le> sum_list (map fitness l)" using pos l by (intro sum_list_nonneg) (auto intro: less_imp_le)
    then show ?thesis using pos l by (simp add: add_pos_nonneg)
  qed
  let ?p = "map (\<lambda>f. f / sum_list (map fitness inds)) (map fitness inds)"
  have "sum_list ?p = 1" unfolding sum_list_divide_right [of "\<lambda>x. x", simplified] using sum by simp
  then have sh: "shares (length inds) ?p"
    using pos sum by (auto simp: shares_def nonneg_def list_all_iff intro!: divide_nonneg_nonneg less_imp_le)
  have "yields (abind (np_choice env (length inds) n ?p) (\<lambda>indices. areturn (map (\<lambda>i. inds ! i) indices)))
    (\<lambda>ps. length ps = n \<and> list_all (candidate cfg) ps) X"
    using assms(2,3)
    by (intro yields_bind [OF rng_choice [OF assms(1) sh]] yields_return)
       (auto simp: list_all_iff scored_candidate)
  then show ?thesis using assms(3) sum by (simp add: roulette_wheel_def Let_def del: map_map)
qed

lemma crossover_yields:
  assumes "rng_ok env" "0 < num_key_iteration cfg" "candidate cfg a" "candidate cfg b"
  shows "yields (abind (crossover_chromosomes env a b) (\<lambda>offspring. areturn (Individual offspring 0)))
    (candidate cfg) (ga_errors X)"
proof -
  let ?a = "chromosomes a" and ?b = "chromosomes b" and ?n = "num_key_iteration cfg"
  have ab: "list_all (\<lambda>x. 0 \<le> x) ?a" "list_all (\<lambda>x. 0 \<le> x) ?b" "length ?a = ?n" "length ?b = ?n"
    using assms(3,4) by (auto simp: candidate_def allocation_def)
  have cut: "yields (alift (normalise (if side = 0 then take point ?a @ drop point ?b else take point ?b @ drop point ?a)))
      (allocation ?n) (ga_errors X)" if "point \<le> length ?a - 1" for point and side :: nat
    using that ab assms(2) by (intro normalise_yields)
      (auto simp: list_all_iff dest!: in_set_takeD in_set_dropD)
  have "yields (crossover_chromosomes env a b) (allocation ?n) (ga_errors X)"
    unfolding crossover_chromosomes_def Let_def
    by (intro yields_bind [OF rng_randint [OF assms(1)]] cut) simp_all
  then show ?thesis by (rule yields_bind) (simp add: yields_return candidate_def Individual_def)
qed

lemma breed_intra_yields:
  assumes "rng_ok env" "0 < num_key_iteration cfg" "list_all (scored cfg) (sp_individuals s)" "sp_individuals s \<noteq> []"
  shows "yields (breed_intra env cfg s) (candidate cfg) (ga_errors X)"
  unfolding breed_intra_def
proof (rule yields_bind [OF roulette_yields [OF assms(1,3,4)]])
  fix ps assume "length ps = 2 \<and> list_all (candidate cfg) ps"
  then obtain a b where ps: "ps = [a, b]" and ab: "candidate cfg a" "candidate cfg b"
    by (auto simp: length_Suc_conv numeral_2_eq_2)
  have pick: "candidate cfg (Individual (if side = 0 then chromosomes a else chromosomes b) 0)" for side :: nat
    using ab by (simp add: candidate_def Individual_def)
  have "yields (abind (randint env 0 1) (\<lambda>coin. if real coin < crossover_rate cfg
      then abind (crossover_chromosomes env a b) (\<lambda>offspring. areturn (Individual offspring 0))
      else abind (randint env 0 1) (\<lambda>side.
        areturn (Individual (if side = 0 then chromosomes a else chromosomes b) 0))))
    (candidate cfg) (ga_errors X)"
    by (intro yields_bind [OF rng_randint [OF assms(1)]] yields_if crossover_yields assms ab yields_return pick) simp_all
  then show "yields (abind (alift (unpack2 ps)) (\<lambda>(parent_a, parent_b). abind (randint env 0 1) (\<lambda>coin.
      if real coin < crossover_rate cfg
      then abind (crossover_chromosomes env parent_a parent_b) (\<lambda>offspring. areturn (Individual offspring 0))
      else abind (randint env 0 1) (\<lambda>side.
        areturn (Individual (if side = 0 then chromosomes parent_a else chromosomes parent_b) 0)))))
    (candidate cfg) (ga_errors X)" by (simp add: ps unpack2_def)
qed

text \<open>The search for a partner returns a closest other species that has individuals.\<close>

definition partner :: "specie \<Rightarrow> specie \<Rightarrow> bool" where
  "partner s x \<longleftrightarrow> sp_id x \<noteq> sp_id s \<and> sp_individuals x \<noteq> [] \<and> sp_centroid x \<noteq> None \<and> sp_centroid s \<noteq> None"

definition partner_distance :: "specie \<Rightarrow> specie \<Rightarrow> real" where
  "partner_distance s x = centroid_distance (the (sp_centroid s)) (the (sp_centroid x))"

definition nearest_ok :: "specie \<Rightarrow> specie list \<Rightarrow> (real \<times> specie) option \<Rightarrow> specie option \<Rightarrow> bool" where
  "nearest_ok s xs best res \<longleftrightarrow>
     (res = None \<longrightarrow> best = None \<and> (\<forall>x\<in>set xs. \<not> partner s x)) \<and>
     (\<forall>r. res = Some r \<longrightarrow> partner s r \<and> (r \<in> set xs \<or> (\<exists>d. best = Some (d, r))) \<and>
        (\<forall>x\<in>set xs. partner s x \<longrightarrow> partner_distance s r \<le> partner_distance s x) \<and>
        (\<forall>d b. best = Some (d, b) \<longrightarrow> partner_distance s r \<le> d))"

lemma find_nearest_skip: "\<not> partner s x \<Longrightarrow> find_nearest s (x # xs) best = find_nearest s xs best"
  by (auto simp: partner_def split: option.splits)

lemma find_nearest_partner:
  "partner s x \<Longrightarrow> find_nearest s (x # xs) best =
    (if case best of None \<Rightarrow> True | Some (d, _) \<Rightarrow> partner_distance s x < d
     then find_nearest s xs (Some (partner_distance s x, x)) else find_nearest s xs best)"
proof -
  assume p: "partner s x"
  then obtain oc sc where c: "sp_centroid x = Some oc" "sp_centroid s = Some sc"
    and ne: "sp_id x \<noteq> sp_id s" "sp_individuals x \<noteq> []" by (auto simp: partner_def)
  have d: "partner_distance s x = centroid_distance sc oc" using c by (simp add: partner_distance_def)
  show ?thesis unfolding d using c ne by (simp add: Let_def)
qed

declare find_nearest.simps(2) [simp del]

lemma find_nearest_ok:
  "(\<And>d b. best = Some (d, b) \<Longrightarrow> partner s b \<and> d = partner_distance s b) \<Longrightarrow>
    nearest_ok s xs best (find_nearest s xs best)"
proof (induction xs arbitrary: best)
  case Nil
  then show ?case by (cases best) (auto simp: nearest_ok_def)
next
  case (Cons x xs)
  show ?case
  proof (cases "partner s x")
    case False
    then show ?thesis using Cons.IH [of best] Cons.prems
      unfolding find_nearest_skip [OF False] by (auto simp: nearest_ok_def)
  next
    case p: True
    show ?thesis
    proof (cases "case best of None \<Rightarrow> True | Some (d, _) \<Rightarrow> partner_distance s x < d")
      case True
      have "nearest_ok s xs (Some (partner_distance s x, x)) (find_nearest s xs (Some (partner_distance s x, x)))"
        using p by (intro Cons.IH) auto
      then have "nearest_ok s (x # xs) best (find_nearest s xs (Some (partner_distance s x, x)))"
        using True by (fastforce simp: nearest_ok_def split: option.splits)
      then show ?thesis using True by (simp add: find_nearest_partner [OF p])
    next
      case False
      have "nearest_ok s xs best (find_nearest s xs best)" using Cons.prems by (intro Cons.IH)
      then have "nearest_ok s (x # xs) best (find_nearest s xs best)"
        using False by (fastforce simp: nearest_ok_def split: option.splits)
      then show ?thesis using False by (simp add: find_nearest_partner [OF p])
    qed
  qed
qed

lemma find_nearest_partner_ok:
  "find_nearest s xs None = Some r \<Longrightarrow> r \<in> set xs \<and> partner s r"
  using find_nearest_ok [of None s xs] by (simp add: nearest_ok_def)

lemma breed_inter_yields:
  assumes "rng_ok env" "0 < num_key_iteration cfg" "list_all (scored cfg) (sp_individuals s)" "sp_individuals s \<noteq> []"
    "species_ok cfg species"
  shows "yields (breed_inter env cfg s species) (candidate cfg) (ga_errors X)"
proof (cases "find_nearest s species None")
  case None
  then show ?thesis using breed_intra_yields [OF assms(1-4)] by (simp add: breed_inter_def)
next
  case (Some r)
  then have r: "list_all (scored cfg) (sp_individuals r)" "sp_individuals r \<noteq> []"
    using find_nearest_partner_ok [OF Some] assms(5) by (auto simp: species_ok_def list_all_iff partner_def)
  have pick: "yields (alift (nth_result ps 0)) (candidate cfg) (ga_errors X)"
    if "length ps = 1 \<and> list_all (candidate cfg) ps" for ps
    using that by (intro yields_lift) (auto simp: nth_result_def length_Suc_conv)
  show ?thesis unfolding breed_inter_def Some option.case
    by (intro yields_bind [OF roulette_yields [OF assms(1,3,4)]] yields_bind [OF pick]
        yields_bind [OF roulette_yields [OF assms(1) r]] crossover_yields assms) simp_all
qed

section \<open>Assignment to species\<close>

definition grown :: "specie \<Rightarrow> specie \<Rightarrow> bool" where
  "grown s s' \<longleftrightarrow> (\<exists>extra. s' = s \<lparr> sp_individuals := sp_individuals s @ extra \<rparr>)"

definition members :: "specie list \<Rightarrow> individual list" where
  "members species = concat (map sp_individuals species)"

lemma grown_refl: "grown s s"
  unfolding grown_def by (rule exI [of _ "[]"]) simp

lemma grown_trans: "grown a b \<Longrightarrow> grown b c \<Longrightarrow> grown a c"
  by (auto simp: grown_def)

lemma all_grown_refl: "list_all2 grown ss ss"
  by (rule list_all2_refl) (rule grown_refl)

lemma all_grown_trans: "list_all2 grown as bs \<Longrightarrow> list_all2 grown bs cs \<Longrightarrow> list_all2 grown as cs"
  by (rule list_all2_trans [of grown grown grown]) (auto intro: grown_trans)

lemma assign_individual_grows:
  "assign_individual ind p ss = Inr ss' \<Longrightarrow>
    list_all2 grown ss ss' \<and> mset (members ss') = add_mset ind (mset (members ss))"
proof (induction ss arbitrary: ss')
  case Nil
  then show ?case by simp
next
  case (Cons s ss)
  show ?case
  proof (cases "specie_accepts s p")
    case True
    then have "ss' = s \<lparr> sp_individuals := sp_individuals s @ [ind] \<rparr> # ss" using Cons.prems by simp
    moreover have "grown s (s \<lparr> sp_individuals := sp_individuals s @ [ind] \<rparr>)" by (auto simp: grown_def)
    ultimately show ?thesis using all_grown_refl by (simp add: members_def)
  next
    case False
    with Cons show ?thesis by (auto simp: result_simps grown_refl members_def)
  qed
qed

lemma assign_individual_total:
  "\<exists>s\<in>set ss. specie_accepts s p \<Longrightarrow> \<exists>ss'. assign_individual ind p ss = Inr ss'"
  by (induction ss) (auto simp: result_simps)

lemma assign_individual_raises:
  "assign_individual ind p ss = Inl e \<longleftrightarrow> e = unassigned \<and> (\<forall>s\<in>set ss. \<not> specie_accepts s p)"
  by (induction ss) (auto simp: result_simps)

lemma grown_accepts: "grown s s' \<Longrightarrow> specie_accepts s' p = specie_accepts s p"
  by (auto simp: grown_def specie_accepts_def)

lemma all_grown_accepts:
  "list_all2 grown ss ss' \<Longrightarrow> (\<exists>s\<in>set ss'. specie_accepts s p) = (\<exists>s\<in>set ss. specie_accepts s p)"
  by (induction rule: list_all2_induct) (auto simp: grown_accepts)

lemma assign_species_grows:
  "assign_species inds ss = Inr ss' \<Longrightarrow>
    list_all2 grown ss ss' \<and> mset (members ss') = mset (members ss) + mset inds"
proof (induction inds ss arbitrary: ss' rule: assign_species.induct)
  case (1 species)
  then show ?case by (simp add: all_grown_refl)
next
  case (2 ind inds species)
  obtain p where p: "chromosome_to_coordinate (chromosomes ind) = Inr p"
    and 3: "rbind (assign_individual ind p species) (assign_species inds) = Inr ss'"
    using "2.prems" by (auto simp: result_simps)
  obtain s1 where s1: "assign_individual ind p species = Inr s1" "assign_species inds s1 = Inr ss'"
    using 3 by (auto simp: result_simps)
  with "2.IH" [OF s1(2)] assign_individual_grows [OF s1(1)]
  show ?case by (auto intro: all_grown_trans)
qed

lemma candidate_coordinate:
  "allocation n ch \<Longrightarrow> n = 2 \<or> n = 3 \<Longrightarrow> \<exists>p. chromosome_to_coordinate ch = Inr p"
  by (auto simp: allocation_def chromosome_to_coordinate_def)

lemma assign_species_raises:
  assumes "num_key_iteration cfg = 2 \<or> num_key_iteration cfg = 3" "list_all (candidate cfg) inds"
    "assign_species inds ss = Inl e"
  shows "e = unassigned \<and>
    (\<exists>ind\<in>set inds. \<exists>p. chromosome_to_coordinate (chromosomes ind) = Inr p \<and> (\<forall>s\<in>set ss. \<not> specie_accepts s p))"
  using assms(2,3)
proof (induction inds ss rule: assign_species.induct)
  case (1 species)
  then show ?case by simp
next
  case (2 ind inds species)
  obtain p where p: "chromosome_to_coordinate (chromosomes ind) = Inr p"
    using "2.prems"(1) candidate_coordinate assms(1) by (auto simp: candidate_def)
  show ?case
  proof (cases "assign_individual ind p species")
    case (Inl e')
    then have "e' = unassigned" "\<forall>s\<in>set species. \<not> specie_accepts s p"
      using assign_individual_raises by auto
    then show ?thesis using "2.prems"(2) p Inl by auto
  next
    case (Inr s1)
    have ih: "e = unassigned \<and> (\<exists>ind\<in>set inds. \<exists>p. chromosome_to_coordinate (chromosomes ind) = Inr p \<and>
        (\<forall>s\<in>set s1. \<not> specie_accepts s p))"
      using "2.IH" [of s1] "2.prems" p Inr by simp
    have eq: "(\<forall>s\<in>set s1. \<not> specie_accepts s q) = (\<forall>s\<in>set species. \<not> specie_accepts s q)" for q
      using all_grown_accepts [of species s1 q] assign_individual_grows [OF Inr] by blast
    from ih show ?thesis unfolding eq by auto
  qed
qed

lemma species_ok_members: "species_ok cfg ss \<longleftrightarrow> (\<forall>ind\<in>set (members ss). scored cfg ind)"
  by (auto simp: species_ok_def list_all_iff members_def)

lemma assign_species_ok:
  assumes "assign_species inds ss = Inr ss'" "species_ok cfg ss" "list_all (scored cfg) inds"
  shows "species_ok cfg ss'"
proof -
  have "set (members ss') = set (members ss) \<union> set inds"
    using assign_species_grows [OF assms(1)] by (metis set_mset_mset set_mset_union)
  then show ?thesis using assms(2,3) by (auto simp: species_ok_members list_all_iff)
qed

section \<open>Survivors\<close>

lemma sort_individuals_set [simp]: "set (sort_individuals inds) = set inds"
  "length (sort_individuals inds) = length inds" "sort_individuals inds = [] \<longleftrightarrow> inds = []"
  by (simp_all add: sort_individuals_def flip: length_0_conv)

lemma sort_individuals_best:
  assumes "i \<in> set inds"
  shows "fitness i \<le> fitness (hd (sort_individuals inds))"
proof -
  let ?xs = "sort_key (\<lambda>i. - fitness i) inds"
  obtain x xs where xs: "?xs = x # xs" using assms by (cases ?xs) (auto dest: arg_cong [of _ _ set])
  have "sorted (map (\<lambda>i. - fitness i) ?xs)" by simp
  moreover have "i \<in> set (x # xs)" using assms xs by (metis set_sort)
  ultimately show ?thesis unfolding sort_individuals_def xs by auto
qed

lemma hd_sort_in: "inds \<noteq> [] \<Longrightarrow> hd (sort_individuals inds) \<in> set inds"
  by (metis hd_in_set sort_individuals_set(1,3))

lemma cull_weakest_subset: "set (sp_individuals (cull_weakest s)) \<subseteq> set (sp_individuals s)"
  by (auto simp: cull_weakest_def Let_def dest!: in_set_takeD)

lemma cull_keeps_best:
  assumes "sp_individuals s \<noteq> []"
  shows "\<exists>i\<in>set (sp_individuals (cull_weakest s)). \<forall>j\<in>set (sp_individuals s). fitness j \<le> fitness i"
proof (cases "length (sp_individuals s) = 1")
  case True
  then show ?thesis by (auto simp: cull_weakest_def length_Suc_conv)
next
  case False
  let ?xs = "sort_individuals (sp_individuals s)"
  have "0 < length (sp_individuals s)" using assms by simp
  with False have "2 \<le> length ?xs" by (simp only: sort_individuals_set)
  then have "0 < length ?xs div 2" by (simp add: div_greater_zero_iff)
  moreover obtain x xs where "?xs = x # xs" using assms by (metis neq_Nil_conv sort_individuals_set(3))
  ultimately have "hd ?xs \<in> set (take (length ?xs div 2) ?xs)"
    by (cases "length ?xs div 2") auto
  with False show ?thesis by (intro bexI [of _ "hd ?xs"]) (auto simp: cull_weakest_def Let_def sort_individuals_best)
qed

text \<open>A species that takes part in breeding.\<close>

definition breeding :: "ga_config \<Rightarrow> specie \<Rightarrow> bool" where
  "breeding cfg s \<longleftrightarrow> sp_individuals s \<noteq> [] \<and> list_all (scored cfg) (sp_individuals s) \<and>
     list_all (\<lambda>i. 0 \<le> adjusted_fitness i) (sp_individuals s)"

lemma survivor_breeding:
  assumes "sp_individuals s \<noteq> []" "list_all (scored cfg) (sp_individuals s)"
  shows "breeding cfg (cull_weakest (apply_adjusted_fitness s))"
proof -
  let ?a = "apply_adjusted_fitness s"
  have a: "sp_individuals ?a \<noteq> []" "list_all (scored cfg) (sp_individuals ?a)"
    "list_all (\<lambda>i. 0 \<le> adjusted_fitness i) (sp_individuals ?a)"
    using assms by (auto simp: apply_adjusted_fitness_def list_all_iff scored_def intro!: divide_nonneg_nonneg)
  have "sp_individuals (cull_weakest ?a) \<noteq> []" using cull_keeps_best [OF a(1)] by force
  then show ?thesis using a cull_weakest_subset [of ?a] by (auto simp: breeding_def list_all_iff)
qed

lemma select_survivors_breeding:
  "species_ok cfg ss \<Longrightarrow> list_all (breeding cfg) (select_survivors ss)"
  by (auto simp: select_survivors_def list_all_iff species_ok_def intro!: survivor_breeding)

lemma breeding_species_ok: "list_all (breeding cfg) ss \<Longrightarrow> species_ok cfg ss"
  by (simp add: species_ok_def list_all_iff breeding_def)

lemma head_share_le:
  assumes "list_all (breeding cfg) ss"
  shows "sum_list (map (\<lambda>s. adjusted_fitness (hd (sp_individuals s))) ss) \<le> total_adjusted ss"
  using assms
proof (induction ss)
  case Nil
  then show ?case by (simp add: total_adjusted_def)
next
  case (Cons s ss)
  obtain i rest where i: "sp_individuals s = i # rest" using Cons.prems by (cases "sp_individuals s") (auto simp: breeding_def)
  have "0 \<le> sum_list (map adjusted_fitness rest)"
    using Cons.prems i by (intro sum_list_nonneg) (auto simp: breeding_def list_all_iff)
  then show ?case using Cons i by (simp add: total_adjusted_def)
qed

lemma num_children_le:
  assumes "breeding cfg s" "0 < t"
  shows "real (num_children cfg t s) \<le>
    adjusted_fitness (hd (sp_individuals s)) * (real (population_size cfg) / t)"
proof -
  have "0 \<le> adjusted_fitness (hd (sp_individuals s))"
    using assms(1) by (simp add: breeding_def list_all_iff)
  with assms show ?thesis by (simp add: num_children_def breeding_def)
qed

lemma children_bound:
  assumes "list_all (breeding cfg) ss" "total_adjusted ss \<noteq> 0"
  shows "sum_list (map (num_children cfg (total_adjusted ss)) ss) \<le> population_size cfg"
proof -
  let ?t = "total_adjusted ss" and ?h = "\<lambda>s. adjusted_fitness (hd (sp_individuals s))"
  have "0 \<le> ?t" using assms(1)
    unfolding total_adjusted_def by (intro sum_list_nonneg) (auto simp: breeding_def list_all_iff)
  then have t: "0 < ?t" using assms(2) by simp
  have "real (sum_list (map (num_children cfg ?t) ss)) = sum_list (map (\<lambda>s. real (num_children cfg ?t s)) ss)"
    by (simp add: comp_def flip: sum_list_of_nat)
  also have "\<dots> \<le> sum_list (map (\<lambda>s. ?h s * (real (population_size cfg) / ?t)) ss)"
    using assms(1) t by (intro sum_list_mono num_children_le) (simp_all add: list_all_iff)
  also have "\<dots> = sum_list (map ?h ss) * (real (population_size cfg) / ?t)" by (rule sum_list_mult_right)
  also have "\<dots> \<le> ?t * (real (population_size cfg) / ?t)"
    using head_share_le [OF assms(1)] t by (intro mult_right_mono) simp_all
  finally show ?thesis using t by simp
qed

section \<open>A generation\<close>

lemma breed_child_yields:
  assumes "rng_ok env" "solver_optimal X (cvx env)" "nonneg v" "wf_matrix (length v) C"
    "0 < num_key_iteration cfg" "breeding cfg s" "species_ok cfg species"
  shows "yields (breed_child env cfg C (replicate (length C) v) waited species s) (scored cfg) (ga_errors X)"
proof -
  have s: "list_all (scored cfg) (sp_individuals s)" "sp_individuals s \<noteq> []" using assms(6) by (simp_all add: breeding_def)
  have coin: "yields (if waited > 1 then abind (random env) (\<lambda>r. areturn (r < crossover_rate_inter_species cfg))
      else areturn False) (\<lambda>_. True) (ga_errors X)"
    by (intro yields_if yields_bind [OF rng_random [OF assms(1)]] yields_return) simp_all
  show ?thesis unfolding breed_child_def
    by (intro yields_bind [OF coin]
        yields_bind [OF yields_if [OF breed_inter_yields breed_intra_yields], OF assms(1,5) s assms(7,1,5) s]
        yields_bind [OF yields_if [OF mutate_yields yields_return], OF assms(1,5)] evaluate_yields assms)
qed

lemma breed_all_yields:
  assumes "rng_ok env" "solver_optimal X (cvx env)" "nonneg v" "wf_matrix (length v) C"
    "0 < num_key_iteration cfg" "list_all (breeding cfg) species" "total_adjusted species \<noteq> 0"
  shows "yields (breed_all env cfg C (replicate (length C) v) waited species)
    (\<lambda>cs. length cs \<le> population_size cfg \<and> list_all (scored cfg) cs) (ga_errors X)"
  unfolding breed_all_def
proof (rule yields_bind [OF yields_mapM])
  fix s assume "s \<in> set species"
  then have "breeding cfg s" using assms(6) by (simp add: list_all_iff)
  then show "yields (areplicate (num_children cfg (total_adjusted species) s)
      (breed_child env cfg C (replicate (length C) v) waited species s))
    (\<lambda>cs. length cs = num_children cfg (total_adjusted species) s \<and> list_all (scored cfg) cs) (ga_errors X)"
    by (intro yields_replicate breed_child_yields assms breeding_species_ok)
next
  fix css assume css: "list_all2 (\<lambda>s cs. length cs = num_children cfg (total_adjusted species) s \<and>
    list_all (scored cfg) cs) species css"
  have "length (concat css) = sum_list (map (num_children cfg (total_adjusted species)) species)"
    using css unfolding length_concat
    by (intro arg_cong [of _ _ sum_list] nth_equalityI) (auto simp: list_all2_conv_all_nth)
  moreover have "list_all (scored cfg) (concat css)"
    using css by (fastforce simp: list_all_iff list_all2_conv_all_nth in_set_conv_nth)
  ultimately show "yields (areturn (concat css))
    (\<lambda>cs. length cs \<le> population_size cfg \<and> list_all (scored cfg) cs) (ga_errors X)"
    using children_bound [OF assms(6,7)] by (simp add: yields_return)
qed

lemma check_improvement_members: "set (sp_individuals (fst (check_improvement cfg s))) = set (sp_individuals s)"
  by (simp add: check_improvement_def Let_def)

lemma species_ok_checked: "species_ok cfg ss \<Longrightarrow> species_ok cfg (map fst (map (check_improvement cfg) ss))"
  by (auto simp: species_ok_def list_all_iff check_improvement_members)

lemma generations_yield:
  assumes "rng_ok env" "solver_optimal X (cvx env)" "nonneg v" "wf_matrix (length v) C"
    "num_key_iteration cfg = 2 \<or> num_key_iteration cfg = 3"
  shows "species_ok cfg ss \<Longrightarrow>
    yields (generations env cfg C (replicate (length C) v) waited k ss)
      (\<lambda>ss'. species_ok cfg ss' \<and> length ss' \<le> length ss) (ga_errors X)"
proof (induction k arbitrary: ss)
  case 0
  then show ?case by (simp add: yields_return)
next
  case (Suc k)
  let ?s1 = "map fst (map (check_improvement cfg) ss)"
  let ?s2 = "select_survivors ?s1"
  have ok1: "species_ok cfg ?s1" by (rule species_ok_checked [OF Suc.prems])
  note b = select_survivors_breeding [OF ok1]
  note ok2 = breeding_species_ok [OF b]
  have len: "length ?s2 \<le> length ss" unfolding select_survivors_def length_map
    by (rule order.trans [OF length_filter_le]) simp
  have pos: "0 < num_key_iteration cfg" using assms(5) by auto
  have assign: "yields (alift (assign_species cs ?s2)) (\<lambda>s3. species_ok cfg s3 \<and> length s3 = length ?s2) (ga_errors X)"
    if cs: "list_all (scored cfg) cs" for cs
  proof (rule yields_lift)
    have cand: "list_all (candidate cfg) cs" using cs by (auto simp: list_all_iff scored_candidate)
    show "case assign_species cs ?s2 of Inl e \<Rightarrow> ga_errors X e
        | Inr s3 \<Rightarrow> species_ok cfg s3 \<and> length s3 = length ?s2"
      using assign_species_raises [OF assms(5) cand] assign_species_grows assign_species_ok [OF _ ok2 cs]
      by (fastforce simp: ga_errors_def list_all2_lengthD split: sum.split)
  qed
  show ?case unfolding generations.simps Let_def
  proof (intro yields_if yields_return)
    show "species_ok cfg ?s1 \<and> length ?s1 \<le> length ss" using ok1 by simp
    show "species_ok cfg ?s2 \<and> length ?s2 \<le> length ss" using ok2 len by simp
    assume t: "total_adjusted ?s2 \<noteq> 0"
    show "yields (abind (breed_all env cfg C (replicate (length C) v) waited ?s2) (\<lambda>children.
        abind (alift (assign_species children ?s2)) (generations env cfg C (replicate (length C) v) waited k)))
      (\<lambda>ss'. species_ok cfg ss' \<and> length ss' \<le> length ss) (ga_errors X)"
    proof (rule yields_bind [OF breed_all_yields [OF assms(1-4) pos b t]])
      fix cs assume cs: "length cs \<le> population_size cfg \<and> list_all (scored cfg) cs"
      show "yields (abind (alift (assign_species cs ?s2)) (generations env cfg C (replicate (length C) v) waited k))
        (\<lambda>ss'. species_ok cfg ss' \<and> length ss' \<le> length ss) (ga_errors X)"
        using cs len by (intro yields_bind [OF assign] yields_weaken [OF Suc.IH]) auto
    qed
  qed
qed

section \<open>Configuration\<close>

text \<open>The ranges the input schema allows.\<close>

definition config_ok :: "ga_config \<Rightarrow> bool" where
  "config_ok cfg \<longleftrightarrow> num_key_iteration cfg \<in> {1, 2, 3} \<and> 1 \<le> num_generation cfg \<and> 2 \<le> population_size cfg \<and>
     0 \<le> crossover_rate cfg \<and> crossover_rate cfg \<le> 1 \<and> 0 \<le> crossover_rate_inter_species cfg \<and>
     crossover_rate_inter_species cfg \<le> 1 \<and> 0 \<le> mutation_rate cfg \<and> mutation_rate cfg \<le> 1 \<and>
     1 \<le> species_waited cfg \<and> 1 \<le> max_iteration_without_improvement cfg"

section \<open>Runs\<close>

text \<open>Well-formed input: a non-negative profile repeated on every row of a consumption matrix.\<close>

definition wf_input :: "matrix \<Rightarrow> matrix \<Rightarrow> vec \<Rightarrow> bool" where
  "wf_input C VA v \<longleftrightarrow> nonneg v \<and> wf_matrix (length v) C \<and> VA = replicate (length C) v"

definition best_ok :: "ga_config \<Rightarrow> matrix \<Rightarrow> vec \<Rightarrow> best_solution \<Rightarrow> bool" where
  "best_ok cfg C v bs \<longleftrightarrow> scored cfg (bs_individual bs) \<and> bs_fitness bs = fitness (bs_individual bs) \<and>
     (\<exists>ky. bs_key bs = Some ky \<and> length (key_iterations ky) \<le> num_key_iteration cfg \<and>
        key_chain v (chromosomes (bs_individual bs)) (zeros (length v)) C (key_iterations ky))"

lemma wf_shapes:
  assumes "wf_input C VA v"
  shows "WarmStartSolver (length C, shape1 C) (length VA, shape1 VA) m = Inr m"
proof -
  obtain r C' where "C = r # C'" "length r = length v"
    using assms by (cases C) (auto simp: wf_input_def wf_matrix_def)
  then show ?thesis using assms by (simp add: WarmStartSolver_def wf_input_def shape1_def)
qed

lemma solve_best_yields:
  assumes "solver_optimal X solve" "wf_input C VA v" "scored cfg ind" "n = num_key_iteration cfg"
  shows "yields (abind (solve_key solve max_iter n C VA (chromosomes ind)) (\<lambda>ky.
      areturn \<lparr> bs_individual = ind, bs_fitness = fitness ind, bs_key = Some ky \<rparr>))
    (best_ok cfg C v) (ga_errors X)"
proof -
  have ch: "list_all (\<lambda>a. 0 \<le> a) (chromosomes ind)" "length (chromosomes ind) = n"
    using assms(3,4) by (auto simp: scored_def allocation_def)
  have "yields (solve_key solve max_iter n C (replicate (length C) v) (chromosomes ind))
    (\<lambda>ky. length (key_iterations ky) \<le> n \<and>
       key_chain v (take n (chromosomes ind)) (zeros (length v)) C (key_iterations ky)) (ga_errors X)"
    using assms(2) ch
    by (intro yields_errors [OF solve_key_yields [OF assms(1)]]) (auto simp: wf_input_def ga_errors_def)
  then have "yields (solve_key solve max_iter n C VA (chromosomes ind))
    (\<lambda>ky. length (key_iterations ky) \<le> n \<and>
       key_chain v (chromosomes ind) (zeros (length v)) C (key_iterations ky)) (ga_errors X)"
    using assms(2) ch by (simp add: wf_input_def)
  then show ?thesis
    by (rule yields_bind) (auto intro!: yields_return simp: best_ok_def assms(3,4))
qed

lemma collect_best_yields:
  assumes "solver_optimal X (cvx env)" "wf_input C VA v" "species_ok cfg ss"
  shows "yields (collect_best env cfg C VA ss)
    (\<lambda>bss. length bss \<le> length ss \<and> list_all (best_ok cfg C v) bss) (ga_errors X)"
proof -
  let ?ss = "filter (\<lambda>s. sp_individuals s \<noteq> []) ss"
  have "yields (collect_best env cfg C VA ss) (\<lambda>bss. list_all2 (\<lambda>_. best_ok cfg C v) ?ss bss) (ga_errors X)"
    unfolding collect_best_def Let_def
  proof (rule yields_mapM)
    fix s assume s: "s \<in> set ?ss"
    then have "scored cfg (hd (sort_individuals (sp_individuals s)))"
      using assms(3) hd_sort_in [of "sp_individuals s"] by (auto simp: species_ok_def list_all_iff)
    then show "yields (abind (solve_key (cvx env) SOLVER_MAX_ITER (num_key_iteration cfg) C VA
        (chromosomes (hd (sort_individuals (sp_individuals s))))) (\<lambda>ky.
          areturn \<lparr> bs_individual = hd (sort_individuals (sp_individuals s)),
            bs_fitness = fitness (hd (sort_individuals (sp_individuals s))), bs_key = Some ky \<rparr>))
      (best_ok cfg C v) (ga_errors X)"
      by (rule solve_best_yields [OF assms(1,2) _ refl])
  qed
  moreover have "length bss \<le> length ss \<and> list_all (best_ok cfg C v) bss"
    if "list_all2 (\<lambda>_. best_ok cfg C v) ?ss bss" for bss
  proof
    have "length bss = length ?ss" using that by (simp add: list_all2_lengthD)
    then show "length bss \<le> length ss" using length_filter_le [of "\<lambda>s. sp_individuals s \<noteq> []" ss] by simp
    show "list_all (best_ok cfg C v) bss" using that by (auto simp: list_all2_conv_all_nth list_all_length)
  qed
  ultimately show ?thesis by (rule yields_weaken) simp_all
qed

text \<open>The initial population always finds its species.\<close>

lemma initial_assignment:
  assumes "num_key_iteration cfg = 2 \<or> num_key_iteration cfg = 3" "0 < species_waited cfg"
    "list_all (candidate cfg) pop"
  shows "\<exists>space counter waited ss. initialize_species (num_key_iteration cfg) (species_waited cfg) c =
      Inr (space, counter, waited) \<and> assign_species pop space = Inr ss \<and>
      length ss = species_count (num_key_iteration cfg) (species_waited cfg) \<and> distinct (map sp_id ss) \<and>
      mset (members ss) = mset pop \<and> waited = length ss"
proof -
  let ?n = "num_key_iteration cfg" and ?w = "species_waited cfg"
  let ?k = "species_count ?n ?w"
  obtain space where space: "initialize_species ?n ?w c = Inr (space, c + ?k, ?k)" "map sp_id space = [c..<c + ?k]"
    "list_all (\<lambda>s. sp_individuals s = [] \<and> sp_is_same_specie s \<noteq> None) space"
    "\<forall>ch. allocation ?n ch \<longrightarrow> (\<exists>p. chromosome_to_coordinate ch = Inr p \<and> (\<exists>s\<in>set space. specie_accepts s p))"
    using initialize_species_2 [OF assms(2), of c] initialize_species_3 [of ?w c] assms(1)
    by (auto simp: species_count_def)
  obtain ss where ss: "assign_species pop space = Inr ss"
  proof (cases "assign_species pop space")
    case (Inl e)
    from assign_species_raises [OF assms(1,3) Inl] space(4) assms(3) show thesis
      by (fastforce simp: candidate_def list_all_iff)
  qed
  note g = assign_species_grows [OF ss]
  have "map sp_id ss = map sp_id space" using conjunct1 [OF g]
    by (induction rule: list_all2_induct) (auto simp: grown_def)
  moreover have "length space = ?k" using arg_cong [OF space(2), of length] by simp
  moreover have "members space = []" using space(3) by (auto simp: members_def list_all_iff)
  ultimately show ?thesis using space(1,2) ss g by (auto simp: list_all2_lengthD)
qed

lemma single_yields:
  assumes "solver_optimal X (cvx env)" "wf_input C VA v" "num_key_iteration cfg = 1"
  shows "yields (abind (evaluate env cfg C VA (Individual [1] 0)) (\<lambda>only.
      abind (solve_key (cvx env) SOLVER_MAX_ITER 1 C VA (chromosomes only)) (\<lambda>ky.
        areturn [\<lparr> bs_individual = only, bs_fitness = fitness only, bs_key = Some ky \<rparr>])))
    (\<lambda>bss. list_all (best_ok cfg C v) bss \<and> length bss \<le> 1) (ga_errors X)"
proof -
  have v: "nonneg v" "wf_matrix (length v) C" "VA = replicate (length C) v" using assms(2) by (simp_all add: wf_input_def)
  have one: "candidate cfg (Individual [1] 0)"
    using assms(3) by (simp add: candidate_def Individual_def allocation_def)
  have "yields (evaluate env cfg C VA (Individual [1] 0)) (scored cfg) (ga_errors X)"
    using evaluate_yields [OF assms(1) v(1,2) _ one, folded v(3)] assms(3) by simp
  then show ?thesis
  proof (rule yields_bind)
    fix only assume only: "scored cfg only"
    note y = solve_best_yields [OF assms(1,2) only, of 1 SOLVER_MAX_ITER]
    have "yields (abind (abind (solve_key (cvx env) SOLVER_MAX_ITER 1 C VA (chromosomes only)) (\<lambda>ky.
        areturn \<lparr> bs_individual = only, bs_fitness = fitness only, bs_key = Some ky \<rparr>)) (\<lambda>b. areturn [b]))
      (\<lambda>bss. list_all (best_ok cfg C v) bss \<and> length bss \<le> 1) (ga_errors X)"
      using assms(3) by (intro yields_bind [OF y] yields_return) simp_all
    then show "yields (abind (solve_key (cvx env) SOLVER_MAX_ITER 1 C VA (chromosomes only)) (\<lambda>ky.
        areturn [\<lparr> bs_individual = only, bs_fitness = fitness only, bs_key = Some ky \<rparr>]))
      (\<lambda>bss. list_all (best_ok cfg C v) bss \<and> length bss \<le> 1) (ga_errors X)"
      by (simp add: abind_assoc)
  qed
qed

lemma population_yields:
  assumes "rng_ok env" "solver_optimal X (cvx env)" "wf_input C VA v" "0 < num_key_iteration cfg"
  shows "yields (abind (initialize_population env cfg) (amapM (evaluate env cfg C VA)))
    (list_all (scored cfg)) (ga_errors X)"
proof -
  have v: "nonneg v" "wf_matrix (length v) C" "VA = replicate (length C) v" using assms(3) by (simp_all add: wf_input_def)
  have ind: "yields (abind (random_allocation env cfg) (\<lambda>xs. areturn (Individual xs 0))) (candidate cfg) (ga_errors X)"
    by (rule yields_bind [OF random_allocation_yields [OF assms(1,4)]])
       (simp add: yields_return candidate_def Individual_def)
  have pop: "yields (initialize_population env cfg)
    (\<lambda>pop. length pop = population_size cfg \<and> list_all (candidate cfg) pop) (ga_errors X)"
    unfolding initialize_population_def by (rule yields_replicate [OF ind])
  have evals: "yields (amapM (evaluate env cfg C VA) p) (list_all (scored cfg)) (ga_errors X)"
    if "list_all (candidate cfg) p" for p
  proof -
    have "yields (amapM (evaluate env cfg C VA) p) (\<lambda>ys. list_all2 (\<lambda>_. scored cfg) p ys) (ga_errors X)"
      using that unfolding v(3)
      by (intro yields_mapM evaluate_yields [OF assms(2) v(1,2) assms(4)]) (simp add: list_all_iff)
    then show ?thesis by (rule yields_weaken) (auto simp: list_all2_conv_all_nth list_all_length)
  qed
  show ?thesis by (rule yields_bind [OF pop]) (simp add: evals)
qed

lemma species_stage_yields:
  assumes "rng_ok env" "solver_optimal X (cvx env)" "wf_input C VA v"
    "num_key_iteration cfg = 2 \<or> num_key_iteration cfg = 3" "0 < species_waited cfg"
    "list_all (scored cfg) population"
  shows "yields (abind (alift (initialize_species (num_key_iteration cfg) (species_waited cfg) 0)) (\<lambda>(space, _, waited).
      abind (alift (assign_species population space)) (\<lambda>species.
        abind (generations env cfg C VA waited (num_generation cfg) (map init_best species)) (\<lambda>final.
          collect_best env cfg C VA final))))
    (\<lambda>bss. list_all (best_ok cfg C v) bss \<and>
       length bss \<le> species_count (num_key_iteration cfg) (species_waited cfg)) (ga_errors X)"
proof -
  let ?k = "species_count (num_key_iteration cfg) (species_waited cfg)"
  have v: "nonneg v" "wf_matrix (length v) C" "VA = replicate (length C) v" using assms(3) by (simp_all add: wf_input_def)
  have cand: "list_all (candidate cfg) population" using assms(6) by (auto simp: list_all_iff scored_candidate)
  obtain space counter waited ss where i: "initialize_species (num_key_iteration cfg) (species_waited cfg) 0 =
      Inr (space, counter, waited)" "assign_species population space = Inr ss" "length ss = ?k"
      "mset (members ss) = mset population"
    using initial_assignment [OF assms(4,5) cand, of 0] by blast
  have "set (members ss) = set population" using i(4) by (metis set_mset_mset)
  then have "species_ok cfg ss" using assms(6) by (simp add: species_ok_members list_all_iff)
  then have ok: "species_ok cfg (map init_best ss)"
    by (auto simp: species_ok_def list_all_iff init_best_def Let_def split: if_splits)
  have "yields (abind (generations env cfg C VA waited (num_generation cfg) (map init_best ss))
      (collect_best env cfg C VA))
    (\<lambda>bss. list_all (best_ok cfg C v) bss \<and> length bss \<le> ?k) (ga_errors X)"
    using i(3)
    by (intro yields_bind [OF generations_yield [OF assms(1,2) v(1,2) assms(4) ok, folded v(3)]]
        yields_weaken [OF collect_best_yields [OF assms(2,3)]]) auto
  then show ?thesis using i(1,2) by simp
qed

lemma ga_run_yields:
  assumes "rng_ok env" "solver_optimal X (cvx env)" "wf_input C VA v" "config_ok cfg"
  shows "yields (ga_run env cfg C VA)
    (\<lambda>bss. list_all (best_ok cfg C v) bss \<and>
       length bss \<le> (if num_key_iteration cfg = 1 then 1 else species_count (num_key_iteration cfg) (species_waited cfg)))
    (ga_errors X)"
proof (cases "num_key_iteration cfg = 1")
  case True
  then show ?thesis using single_yields [OF assms(2,3) True] by (simp add: ga_run_def wf_shapes [OF assms(3)])
next
  case False
  then have n: "num_key_iteration cfg = 2 \<or> num_key_iteration cfg = 3" and w: "0 < species_waited cfg"
    and pos: "0 < num_key_iteration cfg"
    using assms(4) by (auto simp: config_ok_def)
  note y = yields_bind [OF population_yields [OF assms(1-3) pos] species_stage_yields [OF assms(1-3) n w]]
  show ?thesis using False y by (simp add: ga_run_def wf_shapes [OF assms(3)] abind_assoc)
qed

section \<open>The improvement counter\<close>

text \<open>
  A species whose counter stands at \<open>g\<close> and that has an individual at least as fit as its recorded
  best. Culling keeps the fittest individual, so this is never lost.
\<close>

definition tracked :: "nat \<Rightarrow> specie \<Rightarrow> bool" where
  "tracked g s \<longleftrightarrow> sp_individuals s \<noteq> [] \<and> sp_iteration_without_improvement s = g \<and>
     (\<exists>i\<in>set (sp_individuals s). sp_best_fitness s \<le> fitness i)"

lemma check_tracked:
  assumes "tracked g s"
  shows "tracked (Suc g) (fst (check_improvement cfg s))"
    "snd (check_improvement cfg s) \<longleftrightarrow> max_iteration_without_improvement cfg \<le> Suc g"
proof -
  obtain i where i: "i \<in> set (sp_individuals s)" "sp_best_fitness s \<le> fitness i"
    using assms by (auto simp: tracked_def)
  have "sp_best_fitness s \<le> fitness (hd (sort_individuals (sp_individuals s)))"
    using sort_individuals_best [OF i(1)] i(2) by simp
  then show "tracked (Suc g) (fst (check_improvement cfg s))"
    "snd (check_improvement cfg s) \<longleftrightarrow> max_iteration_without_improvement cfg \<le> Suc g"
    using assms i by (auto simp: check_improvement_def tracked_def Let_def)
qed

lemma survivor_tracked:
  assumes "tracked g s"
  shows "tracked g (cull_weakest (apply_adjusted_fitness s))"
proof -
  let ?a = "apply_adjusted_fitness s"
  have a: "tracked g ?a" using assms by (auto simp: tracked_def apply_adjusted_fitness_def)
  then obtain j where j: "j \<in> set (sp_individuals ?a)" "sp_best_fitness ?a \<le> fitness j" by (auto simp: tracked_def)
  obtain i where i: "i \<in> set (sp_individuals (cull_weakest ?a))" "fitness j \<le> fitness i"
    using cull_keeps_best [of ?a] a j(1) by (auto simp: tracked_def)
  have "sp_best_fitness (cull_weakest ?a) = sp_best_fitness ?a"
    "sp_iteration_without_improvement (cull_weakest ?a) = sp_iteration_without_improvement ?a"
    by (simp_all add: cull_weakest_def Let_def)
  then show ?thesis using a i j(2) by (auto simp: tracked_def intro!: bexI [of _ i])
qed

lemma grown_tracked: "grown s s' \<Longrightarrow> tracked g s \<Longrightarrow> tracked g s'"
  by (auto simp: grown_def tracked_def)

definition tracked_or_empty :: "nat \<Rightarrow> specie \<Rightarrow> bool" where
  "tracked_or_empty g s \<longleftrightarrow> sp_individuals s = [] \<or> tracked g s"

lemma init_best_tracked:
  assumes "sp_iteration_without_improvement s = 0"
  shows "tracked_or_empty 0 (init_best s)"
proof (cases "sp_individuals s = []")
  case False
  then have "hd (sort_individuals (sp_individuals s)) \<in> set (sp_individuals s)" by (rule hd_sort_in)
  with False assms show ?thesis by (auto simp: tracked_or_empty_def tracked_def init_best_def Let_def)
qed (simp add: tracked_or_empty_def init_best_def)

lemma survivors_tracked:
  assumes "list_all (tracked_or_empty g) ss"
  shows "list_all (tracked (Suc g)) (select_survivors (map fst (map (check_improvement cfg) ss)))"
proof -
  have "tracked (Suc g) (cull_weakest (apply_adjusted_fitness (fst (check_improvement cfg s))))"
    if "s \<in> set ss" "sp_individuals (fst (check_improvement cfg s)) \<noteq> []" for s
    using that assms check_tracked(1) [of g s cfg]
    by (intro survivor_tracked) (auto simp: list_all_iff tracked_or_empty_def check_improvement_def)
  then show ?thesis by (auto simp: select_survivors_def list_all_iff)
qed

lemma assigned_tracked:
  assumes "assign_species cs ss = Inr ss'" "list_all (tracked g) ss"
  shows "list_all (tracked g) ss'"
  using conjunct1 [OF assign_species_grows [OF assms(1)]] assms(2)
  by (induction rule: list_all2_induct) (auto intro: grown_tracked)

text \<open>Once the counters have had time to reach the limit, further generations change nothing.\<close>

lemma generations_step_cong:
  assumes "\<And>ss'. list_all (tracked (Suc g)) ss' \<Longrightarrow>
      generations env cfg C VA waited k ss' = generations env cfg C VA waited k' ss'"
    "list_all (tracked_or_empty g) ss"
  shows "generations env cfg C VA waited (Suc k) ss = generations env cfg C VA waited (Suc k') ss"
proof -
  let ?s2 = "select_survivors (map fst (map (check_improvement cfg) ss))"
  have "abind (alift (assign_species cs ?s2)) (generations env cfg C VA waited k) =
      abind (alift (assign_species cs ?s2)) (generations env cfg C VA waited k')" for cs
    using assms(1) assigned_tracked [OF _ survivors_tracked [OF assms(2)], of cs]
    by (cases "assign_species cs ?s2") simp_all
  then show ?thesis by (simp add: Let_def)
qed

lemma generations_limit:
  "list_all (tracked g) ss \<Longrightarrow> max_iteration_without_improvement cfg \<le> Suc (g + m) \<Longrightarrow>
    generations env cfg C VA waited (Suc (m + j)) ss = generations env cfg C VA waited (Suc m) ss"
proof (induction m arbitrary: g ss)
  case 0
  then have "list_all snd (map (check_improvement cfg) ss)"
    using check_tracked(2) by (fastforce simp: list_all_iff)
  then show ?case by (simp add: Let_def)
next
  case (Suc m)
  have te: "list_all (tracked_or_empty g) ss" using Suc.prems(1) by (simp add: list_all_iff tracked_or_empty_def)
  have "max_iteration_without_improvement cfg \<le> Suc (Suc g + m)" using Suc.prems(2) by simp
  then have IH: "generations env cfg C VA waited (Suc (m + j)) ss' = generations env cfg C VA waited (Suc m) ss'"
    if "list_all (tracked (Suc g)) ss'" for ss' by (rule Suc.IH [OF that])
  show ?case using generations_step_cong [OF IH te] by (simp only: add_Suc)
qed

lemma generations_limit_from_start:
  assumes "list_all (\<lambda>s. sp_iteration_without_improvement s = 0) ss"
    "max_iteration_without_improvement cfg = Suc m"
  shows "generations env cfg C VA waited (Suc (Suc (m + j))) (map init_best ss) =
    generations env cfg C VA waited (Suc (Suc m)) (map init_best ss)"
proof -
  have te: "list_all (tracked_or_empty 0) (map init_best ss)"
    using assms(1) by (simp add: list_all_iff init_best_tracked)
  have lim: "generations env cfg C VA waited (Suc (m + j)) ss' = generations env cfg C VA waited (Suc m) ss'"
    if "list_all (tracked (Suc 0)) ss'" for ss'
    using assms(2) by (intro generations_limit [OF that]) simp
  show ?thesis by (rule generations_step_cong [OF lim te])
qed

text \<open>No operation of a generation reads the number of generations.\<close>

lemma num_generation_unread:
  "random_allocation env (cfg \<lparr> num_generation := k \<rparr>) = random_allocation env cfg"
  "mutate env (cfg \<lparr> num_generation := k \<rparr>) = mutate env cfg"
  "initialize_population env (cfg \<lparr> num_generation := k \<rparr>) = initialize_population env cfg"
  "evaluate env (cfg \<lparr> num_generation := k \<rparr>) = evaluate env cfg"
  "breed_intra env (cfg \<lparr> num_generation := k \<rparr>) = breed_intra env cfg"
  "check_improvement (cfg \<lparr> num_generation := k \<rparr>) = check_improvement cfg"
  "num_children (cfg \<lparr> num_generation := k \<rparr>) = num_children cfg"
  "collect_best env (cfg \<lparr> num_generation := k \<rparr>) = collect_best env cfg"
  by (auto intro!: ext simp: random_allocation_def mutate_def initialize_population_def evaluate_def
      breed_intra_def check_improvement_def num_children_def collect_best_def)

lemma num_generation_unread_inter:
  "breed_inter env (cfg \<lparr> num_generation := k \<rparr>) = breed_inter env cfg"
  unfolding breed_inter_def [abs_def] num_generation_unread by (rule refl)

lemma num_generation_unread_child:
  "breed_child env (cfg \<lparr> num_generation := k \<rparr>) = breed_child env cfg"
  unfolding breed_child_def [abs_def] num_generation_unread num_generation_unread_inter
  by (simp cong: if_cong)

lemma num_generation_unread_all:
  "breed_all env (cfg \<lparr> num_generation := k \<rparr>) = breed_all env cfg"
  unfolding breed_all_def [abs_def] num_generation_unread num_generation_unread_child by (rule refl)

lemma num_generation_unread_generations:
  "generations env (cfg \<lparr> num_generation := k \<rparr>) C VA waited n = generations env cfg C VA waited n"
  by (induction n) (rule ext, simp add: num_generation_unread num_generation_unread_all Let_def)+

lemma initialize_species_fresh:
  assumes "initialize_species n w c = Inr (ss, c', w')"
  shows "list_all (\<lambda>s. sp_iteration_without_improvement s = 0) ss"
proof -
  have fresh: "list_all (\<lambda>s. sp_iteration_without_improvement s = 0) xs"
    if "make_species segment_specie c rs = (xs, d) \<or> make_species triangle_specie c ts = (xs, d)" for rs ts xs d
    using that by (auto elim!: make_species_all simp: segment_specie_def triangle_specie_def Specie_def)
  show ?thesis
  proof (cases "n = 2")
    case True
    then obtain rs where "make_species segment_specie c rs = (ss, c')"
      using assms by (auto simp: initialize_species_def result_simps Let_def case_prod_unfold prod_eq_iff)
    then show ?thesis using fresh by blast
  next
    case False
    then obtain ts where "make_species triangle_specie c ts = (ss, c')"
      using assms by (auto simp: initialize_species_def Let_def case_prod_unfold prod_eq_iff split: if_splits)
    then show ?thesis using fresh by blast
  qed
qed

lemma assigned_fresh:
  assumes "assign_species cs ss = Inr ss'" "list_all (\<lambda>s. sp_iteration_without_improvement s = 0) ss"
  shows "list_all (\<lambda>s. sp_iteration_without_improvement s = 0) ss'"
  using conjunct1 [OF assign_species_grows [OF assms(1)]] assms(2)
  by (induction rule: list_all2_induct) (auto simp: grown_def)

lemma ga_run_limit:
  assumes "max_iteration_without_improvement cfg = Suc m" "Suc (Suc m) \<le> k"
  shows "ga_run env (cfg \<lparr> num_generation := k \<rparr>) C VA = ga_run env (cfg \<lparr> num_generation := Suc (Suc m) \<rparr>) C VA"
proof -
  obtain j where k: "k = Suc (Suc (m + j))" using le_Suc_ex [OF assms(2)] by auto
  have "abind (alift (initialize_species n w 0)) (\<lambda>(space, _, waited).
        abind (alift (assign_species population space)) (\<lambda>species.
          abind (generations env cfg C VA waited k (map init_best species)) fin)) =
      abind (alift (initialize_species n w 0)) (\<lambda>(space, _, waited).
        abind (alift (assign_species population space)) (\<lambda>species.
          abind (generations env cfg C VA waited (Suc (Suc m)) (map init_best species)) fin))"
    for n w population and fin :: "specie list \<Rightarrow> ('a, py_error, best_solution list) act"
  proof (cases "initialize_species n w 0")
    case (Inr r)
    obtain space c waited where r: "r = (space, c, waited)" by (cases r)
    have "abind (alift (assign_species population space)) (\<lambda>species.
          abind (generations env cfg C VA waited k (map init_best species)) fin) =
        abind (alift (assign_species population space)) (\<lambda>species.
          abind (generations env cfg C VA waited (Suc (Suc m)) (map init_best species)) fin)"
    proof (cases "assign_species population space")
      case (Inr species)
      have "list_all (\<lambda>s. sp_iteration_without_improvement s = 0) species"
        using assigned_fresh [OF Inr initialize_species_fresh] \<open>initialize_species n w 0 = Inr r\<close> r by simp
      from generations_limit_from_start [OF this assms(1), of env C VA waited j]
      show ?thesis unfolding Inr k by (simp del: generations.simps)
    qed simp
    then show ?thesis using Inr r by (simp del: generations.simps)
  qed simp
  then show ?thesis
    by (simp add: ga_run_def num_generation_unread num_generation_unread_generations del: generations.simps)
qed

end
