(* ===== verification/OlagsaAlgorithm.thy ===== *)
theory OlagsaAlgorithm
  imports OlagsaGA AlgorithmBase
begin

text \<open>
  The worker entry point of OLAGSA (\<open>algorithms_implemented/olagsa/algorithm.py\<close>): from the
  validated inputs to the configuration of the search, and from its best solutions to the ranked
  allocation keys. The properties of the whole search are stated here.
\<close>

section \<open>Entry point\<close>

definition OLAGSA_DESCRIPTION :: string where
  "OLAGSA_DESCRIPTION = ''Cl'' @ [CHR 0xC3, CHR 0xA9] @ '' obtenue gr'' @ [CHR 0xC3, CHR 0xA2] @
     ''ce '' @ [CHR 0xC3, CHR 0xA0] @ '' l'' @ [CHR 0x27] @ ''algorithme OLAGSA''"

definition olagsa_label :: "string list \<Rightarrow> nat \<Rightarrow> string" where
  "olagsa_label names j =
     (if j < length names \<and> names ! j \<noteq> [] then names ! j else ''Consumer '' @ show_nat j)"

definition olagsa_iteration :: "string list \<Rightarrow> nat \<times> ol_iteration \<Rightarrow> iteration_result" where
  "olagsa_iteration names = (\<lambda>(idx, it).
     \<lparr> ir_number = idx + 1, ir_energy_allocated_percentage = oi_energy_allocated_percentage it,
       ir_surplus_total = oi_surplus_total it,
       ir_consumers = map (\<lambda>(j, c). \<lparr> cr_name = olagsa_label names j,
                             cr_energy_allocated_percentage = oc_energy_allocated_percentage c \<rparr>)
                        (enumerate 0 (oi_consumers it)) \<rparr>)"

definition to_allocation_key_result :: "string list \<Rightarrow> best_solution \<Rightarrow> key_result result" where
  "to_allocation_key_result names best =
     (case bs_key best of
        None \<Rightarrow> Inl (ValueError ''BestSolution.key must be set; caller is expected to filter None keys'')
      | Some ky \<Rightarrow>
          (let its = map (olagsa_iteration names) (enumerate 0 (key_iterations ky));
               percentages = join '','' (map (\<lambda>it. show_hundredths (py_round2 (ir_energy_allocated_percentage it))) its);
               final = (if its = [] then show_hundredths 0
                        else show_hundredths (py_round2 (ir_surplus_total (last its))));
               name = ''Fitness = '' @ show_hundredths (py_round2 (bs_fitness best)) @
                      '' / Pourcentage = ('' @ percentages @ '')'' @
                      '' - Surplus '' @ [CHR 0xC3, CHR 0xA0] @ '' la fin : '' @ final
           in Inr \<lparr> kr_name = name, kr_description = OLAGSA_DESCRIPTION, kr_iterations = its \<rparr>))"

definition best_surplus :: "best_solution \<Rightarrow> real" where
  "best_surplus bs =
     (case bs_key bs of
        None \<Rightarrow> 0
      | Some ky \<Rightarrow> if key_iterations ky = [] then 0 else oi_surplus_total (last (key_iterations ky)))"

definition has_key :: "best_solution \<Rightarrow> bool" where
  "has_key bs = (case bs_key bs of None \<Rightarrow> False | Some ky \<Rightarrow> key_iterations ky \<noteq> [])"

text \<open>The constructor call of \<open>run\<close>: the validated integers are not negative.\<close>

definition olagsa_config :: "inputs \<Rightarrow> ga_config result" where
  "olagsa_config ins =
     rbind (input_int ins ''iterations'') (\<lambda>its.
     rbind (input_int ins ''generations'') (\<lambda>gens.
     rbind (input_int ins ''population_size'') (\<lambda>pop.
     rbind (input_float ins ''crossover_rate'') (\<lambda>cr.
     rbind (input_float ins ''inter_species_crossover_rate'') (\<lambda>icr.
     rbind (input_float ins ''mutation_rate'') (\<lambda>mr.
     rbind (input_int ins ''expected_species_count'') (\<lambda>esc.
     rbind (input_int ins ''max_generations_without_improvement'') (\<lambda>mg.
       Inr \<lparr> num_key_iteration = nat its, num_generation = nat gens, population_size = nat pop,
             crossover_rate = cr, crossover_rate_inter_species = icr, mutation_rate = mr,
             species_waited = nat esc, max_iteration_without_improvement = nat mg \<rparr>))))))))"

definition Olagsa_run :: "'w env \<Rightarrow> inputs \<Rightarrow> raw_data \<Rightarrow> ('w, py_error, algorithm_result) act" where
  "Olagsa_run env ins rd =
     abind (alift (olagsa_config ins)) (\<lambda>cfg.
       abind (ga_run env cfg (rd_C rd) (rd_VA rd)) (\<lambda>best_solutions.
         abind (alift (rmapM (to_allocation_key_result (rd_consumer_names rd))
                         (filter has_key (sort_key best_surplus best_solutions)))) (\<lambda>keys.
           areturn \<lparr> ar_keys = keys \<rparr>)))"

definition OlagsaAlgorithm_class :: "'w env \<Rightarrow> 'w \<Rightarrow> algorithm_class" where
  "OlagsaAlgorithm_class env w =
     \<lparr> cls_metadata = OLAGSA_METADATA, cls_run = (\<lambda>ins rd. fst (Olagsa_run env ins rd w)) \<rparr>"

section \<open>Validated inputs\<close>

lemma validated_config:
  assumes "model_validate co OlagsaInput obj = Inr ins"
  shows "\<exists>cfg. olagsa_config ins = Inr cfg \<and> config_ok cfg"
proof -
  have d: "distinct (map fld_name OlagsaInput)" by (simp add: OlagsaInput_def)
  note int = validated_int [OF assms d] and flt = validated_float [OF assms d]
  obtain i where i: "input_int ins ''iterations'' = Inr i" "1 \<le> i" "i \<le> 3"
    using int [of "''iterations''" 1 "Some 3" None] by (auto simp: OlagsaInput_def)
  obtain g where g: "input_int ins ''generations'' = Inr g" "1 \<le> g"
    using int [of "''generations''" 1 None "Some (VInt 25)"] by (auto simp: OlagsaInput_def)
  obtain n where n: "input_int ins ''population_size'' = Inr n" "2 \<le> n"
    using int [of "''population_size''" 2 None "Some (VInt 50)"] by (auto simp: OlagsaInput_def)
  obtain c where c: "input_float ins ''crossover_rate'' = Inr c" "0 \<le> c" "c \<le> 1"
    using flt [of "''crossover_rate''" 0 1 "1 / 10"] by (auto simp: OlagsaInput_def)
  obtain x where x: "input_float ins ''inter_species_crossover_rate'' = Inr x" "0 \<le> x" "x \<le> 1"
    using flt [of "''inter_species_crossover_rate''" 0 1 "1 / 10"] by (auto simp: OlagsaInput_def)
  obtain m where m: "input_float ins ''mutation_rate'' = Inr m" "0 \<le> m" "m \<le> 1"
    using flt [of "''mutation_rate''" 0 1 "1 / 10"] by (auto simp: OlagsaInput_def)
  obtain e where e: "input_int ins ''expected_species_count'' = Inr e" "1 \<le> e"
    using int [of "''expected_species_count''" 1 None "Some (VInt 1)"] by (auto simp: OlagsaInput_def)
  obtain w where w: "input_int ins ''max_generations_without_improvement'' = Inr w" "1 \<le> w"
    using int [of "''max_generations_without_improvement''" 1 None "Some (VInt 10)"] by (auto simp: OlagsaInput_def)
  have "nat i \<in> {1, 2, 3}" "1 \<le> nat g" "2 \<le> nat n" "1 \<le> nat e" "1 \<le> nat w"
    using i(2,3) g(2) n(2) e(2) w(2) by auto
  then show ?thesis using i g n c x m e w by (simp add: olagsa_config_def config_ok_def)
qed

section \<open>Keys\<close>

definition last_surplus :: "key_result \<Rightarrow> real" where
  "last_surplus k = ir_surplus_total (last (kr_iterations k))"

definition olagsa_key_ok :: "nat \<Rightarrow> nat \<Rightarrow> key_result \<Rightarrow> bool" where
  "olagsa_key_ok n consumers k \<longleftrightarrow>
     (let its = kr_iterations k in
        its \<noteq> [] \<and> length its \<le> n \<and> map ir_number its = [1..<Suc (length its)] \<and>
        (\<exists>ch. allocation n ch \<and> map ir_energy_allocated_percentage its = take (length its) ch) \<and>
        list_all (\<lambda>it. shares consumers (map cr_energy_allocated_percentage (ir_consumers it))) its)"

lemma olagsa_iteration_fields:
  "ir_number (olagsa_iteration names (i, it)) = Suc i"
  "ir_energy_allocated_percentage (olagsa_iteration names (i, it)) = oi_energy_allocated_percentage it"
  "ir_surplus_total (olagsa_iteration names (i, it)) = oi_surplus_total it"
  "map cr_energy_allocated_percentage (ir_consumers (olagsa_iteration names (i, it))) =
     map oc_energy_allocated_percentage (oi_consumers it)"
proof -
  show "map cr_energy_allocated_percentage (ir_consumers (olagsa_iteration names (i, it))) =
     map oc_energy_allocated_percentage (oi_consumers it)"
    by (rule nth_equalityI) (simp_all add: olagsa_iteration_def nth_enumerate_eq)
qed (simp_all add: olagsa_iteration_def)

lemma key_chain_consumers:
  "key_chain v as carry C its \<Longrightarrow> list_all (\<lambda>it. length (oi_consumers it) = length C) its"
proof (induction rule: key_chain.induct)
  case (chain_round C p it a carry as its)
  then have "length (oi_consumers it) = length C" "length (round_residual it) = length C"
    by (simp_all add: round_iteration_def round_residual_def shares_def)
  with chain_round.IH show ?case by simp
qed simp

lemma to_key_result:
  assumes "best_ok cfg C v bs" "has_key bs"
  shows "\<exists>k. to_allocation_key_result names bs = Inr k \<and> last_surplus k = best_surplus bs \<and>
    olagsa_key_ok (num_key_iteration cfg) (length C) k"
proof -
  obtain ky where ky: "bs_key bs = Some ky" "length (key_iterations ky) \<le> num_key_iteration cfg"
    "key_chain v (chromosomes (bs_individual bs)) (zeros (length v)) C (key_iterations ky)"
    "key_iterations ky \<noteq> []"
    using assms by (auto simp: best_ok_def has_key_def)
  let ?src = "key_iterations ky" and ?ch = "chromosomes (bs_individual bs)"
  let ?its = "map (olagsa_iteration names) (enumerate 0 ?src)"
  obtain k where k: "to_allocation_key_result names bs = Inr k" "kr_iterations k = ?its"
    using ky(1) by (simp add: to_allocation_key_result_def Let_def)
  have nth: "?its ! i = olagsa_iteration names (i, ?src ! i)" if "i < length ?src" for i
    using that by (simp add: nth_enumerate_eq)
  note fields = olagsa_iteration_fields [of names]
  note ch = key_chain_shares [OF ky(3)] and len = key_chain_consumers [OF ky(3)]
  have "map ir_number ?its = [1..<Suc (length ?its)]"
    using nth by (intro nth_equalityI) (simp_all add: fields del: upt_Suc)
  moreover have "map ir_energy_allocated_percentage ?its = map oi_energy_allocated_percentage ?src"
    using nth by (intro nth_equalityI) (simp_all add: fields)
  moreover have "list_all (\<lambda>it. shares (length C) (map cr_energy_allocated_percentage (ir_consumers it))) ?its"
    using nth ch len by (simp add: list_all_length fields)
  moreover have "allocation (num_key_iteration cfg) ?ch" using assms(1) by (simp add: best_ok_def scored_def)
  ultimately have ok: "olagsa_key_ok (num_key_iteration cfg) (length C) k"
    using ch ky(2,4) k(2) by (auto simp: olagsa_key_ok_def Let_def)
  have ne: "?its \<noteq> []" using ky(4) by (metis length_0_conv length_enumerate length_map)
  have "last ?its = ?its ! (length ?src - 1)" using last_conv_nth [OF ne] by simp
  also have "\<dots> = olagsa_iteration names (length ?src - 1, last ?src)"
    unfolding last_conv_nth [OF ky(4)] by (rule nth) (use ky(4) in simp)
  finally have "last_surplus k = best_surplus bs"
    using k(2) ky(1,4) by (simp add: last_surplus_def best_surplus_def fields)
  then show ?thesis using k(1) ok by blast
qed

lemma olagsa_results:
  assumes "list_all (best_ok cfg C v) bss"
  shows "\<exists>keys. rmapM (to_allocation_key_result names) (filter has_key (sort_key best_surplus bss)) = Inr keys \<and>
    length keys \<le> length bss \<and> sorted (map last_surplus keys) \<and>
    list_all (olagsa_key_ok (num_key_iteration cfg) (length C)) keys"
proof -
  let ?bss = "filter has_key (sort_key best_surplus bss)"
  obtain keys where keys: "rmapM (to_allocation_key_result names) ?bss = Inr keys"
    "list_all2 (\<lambda>bs k. last_surplus k = best_surplus bs \<and> olagsa_key_ok (num_key_iteration cfg) (length C) k) ?bss keys"
  proof -
    have "\<exists>k. to_allocation_key_result names bs = Inr k \<and> last_surplus k = best_surplus bs \<and>
        olagsa_key_ok (num_key_iteration cfg) (length C) k" if "bs \<in> set ?bss" for bs
      using that assms by (intro to_key_result [of cfg C v]) (auto simp: list_all_iff)
    from rmapM_exists [of ?bss "to_allocation_key_result names", OF this] that show thesis by blast
  qed
  have "map last_surplus keys = map best_surplus ?bss"
    using keys(2) by (intro nth_equalityI) (simp_all add: list_all2_conv_all_nth)
  moreover have "sorted (map best_surplus ?bss)" by (intro sorted_filter) simp
  moreover have "length keys \<le> length bss"
    using keys(2) length_filter_le [of has_key "sort_key best_surplus bss"] by (simp add: list_all2_lengthD)
  moreover have "list_all (olagsa_key_ok (num_key_iteration cfg) (length C)) keys"
    using keys(2) by (auto simp: list_all2_conv_all_nth list_all_length)
  ultimately show ?thesis using keys(1) by simp
qed

section \<open>A concrete environment\<close>

text \<open>Constant generators: the middle of the unit interval, the lower bound, the first index.\<close>

definition steady_env :: "unit env" where
  "steady_env = \<lparr> random = areturn (1 / 2), randint = (\<lambda>a b. areturn a),
     np_choice = (\<lambda>n k p. areturn (replicate k 0)), cvx = uniform_solve \<rparr>"

lemma steady_env_ok: "rng_ok steady_env" "solver_optimal X (cvx steady_env)"
  by (auto simp: rng_ok_def steady_env_def uniform_solve_ok list_all_iff intro!: yields_return)

definition plain_coercion :: coercion where
  "plain_coercion = \<lparr> as_int = (\<lambda>j. case j of JInt i \<Rightarrow> Some i | _ \<Rightarrow> None),
     as_float = (\<lambda>j. case j of JFloat x \<Rightarrow> Some x | JInt i \<Rightarrow> Some (of_int i) | _ \<Rightarrow> None) \<rparr>"

definition example_inputs :: inputs where
  "example_inputs = [(''iterations'', VInt 2), (''generations'', VInt 25), (''population_size'', VInt 50),
     (''crossover_rate'', VFloat (1 / 10)), (''inter_species_crossover_rate'', VFloat (1 / 10)),
     (''mutation_rate'', VFloat (1 / 10)), (''expected_species_count'', VInt 1),
     (''max_generations_without_improvement'', VInt 10)]"

lemma example_inputs_valid:
  "model_validate plain_coercion OlagsaInput (JObj [(''iterations'', JInt 2)]) = Inr example_inputs"
  by (simp add: model_validate_def OlagsaInput_def plain_coercion_def example_inputs_def dict_keys_def)

definition olagsa_data :: raw_data where
  "olagsa_data = \<lparr> rd_C = [[1, 2], [3, 0]], rd_VA = [[2, 2], [2, 2]], rd_consumer_names = [''A'', ''B''] \<rparr>"

lemma olagsa_data_wf: "wf_input (rd_C olagsa_data) (rd_VA olagsa_data) [2, 2]"
  by (simp add: wf_input_def olagsa_data_def nonneg_def wf_matrix_def numeral_2_eq_2)

section \<open>Properties\<close>

text \<open>C14. A run of OLAGSA on validated inputs and well-formed data returns keys in order of final
  surplus, at most one per species. Each key has numbered iterations, at most as many as asked
  for; their production shares are the first entries of a vector of non-negative shares that add
  up to one; the consumers' shares in each iteration are not negative and add up to one. The run
  raises nothing but the solver's exceptions, the division by zero of a vector of zero shares, or
  the refusal of a child whose species has been dropped.\<close>

theorem olagsa_keys:
  assumes "model_validate co OlagsaInput obj = Inr ins" "rng_ok env" "solver_optimal X (cvx env)"
    "wf_input (rd_C rd) (rd_VA rd) v"
  shows "\<exists>n cfg. n \<in> {1, 2, 3} \<and> input_int ins ''iterations'' = Inr (int n) \<and> olagsa_config ins = Inr cfg \<and>
    yields (Olagsa_run env ins rd)
      (\<lambda>res. sorted (map last_surplus (ar_keys res)) \<and>
         length (ar_keys res) \<le> (if n = 1 then 1 else species_count n (species_waited cfg)) \<and>
         list_all (olagsa_key_ok n (length (rd_C rd))) (ar_keys res))
      (ga_errors X)"
proof -
  obtain cfg where cfg: "olagsa_config ins = Inr cfg" "config_ok cfg" using validated_config [OF assms(1)] by blast
  let ?n = "num_key_iteration cfg" and ?C = "rd_C rd"
  obtain i where i: "input_int ins ''iterations'' = Inr i" "?n = nat i"
    using cfg(1) by (auto simp: olagsa_config_def result_simps)
  have n: "?n \<in> {1, 2, 3}" using cfg(2) by (simp add: config_ok_def)
  then have "int (nat i) = i" using i(2) by auto
  with i have int_n: "input_int ins ''iterations'' = Inr (int ?n)" by simp
  let ?max = "if ?n = 1 then 1 else species_count ?n (species_waited cfg)"
  let ?post = "\<lambda>res. sorted (map last_surplus (ar_keys res)) \<and> length (ar_keys res) \<le> ?max \<and>
    list_all (olagsa_key_ok ?n (length ?C)) (ar_keys res)"
  have "yields (abind (alift (rmapM (to_allocation_key_result (rd_consumer_names rd))
          (filter has_key (sort_key best_surplus bss)))) (\<lambda>keys. areturn \<lparr> ar_keys = keys \<rparr>))
      ?post (ga_errors X)"
    if b: "list_all (best_ok cfg ?C v) bss \<and> length bss \<le> ?max" for bss
  proof -
    obtain keys where keys: "rmapM (to_allocation_key_result (rd_consumer_names rd))
        (filter has_key (sort_key best_surplus bss)) = Inr keys" "length keys \<le> length bss"
        "sorted (map last_surplus keys)" "list_all (olagsa_key_ok ?n (length ?C)) keys"
      using olagsa_results [OF conjunct1 [OF b]] by blast
    have "length keys \<le> ?max" using keys(2) b by linarith
    then show ?thesis unfolding keys(1) abind_simps using keys(3,4) by (intro yields_return) simp
  qed
  note run = yields_bind [OF ga_run_yields [OF assms(2-4) cfg(2)] this]
  have "yields (Olagsa_run env ins rd) ?post (ga_errors X)"
    unfolding Olagsa_run_def cfg(1) abind_simps by (rule run)
  then show ?thesis by (intro exI [of _ ?n] exI [of _ cfg] conjI n int_n cfg(1))
qed

theorem olagsa_keys_witness:
  "\<exists>n cfg. n \<in> {1, 2, 3} \<and> input_int example_inputs ''iterations'' = Inr (int n) \<and>
    olagsa_config example_inputs = Inr cfg \<and>
    yields (Olagsa_run steady_env example_inputs olagsa_data)
      (\<lambda>res. sorted (map last_surplus (ar_keys res)) \<and>
         length (ar_keys res) \<le> (if n = 1 then 1 else species_count n (species_waited cfg)) \<and>
         list_all (olagsa_key_ok n (length (rd_C olagsa_data))) (ar_keys res))
      (ga_errors (\<lambda>e. False))"
  by (rule olagsa_keys [OF example_inputs_valid steady_env_ok olagsa_data_wf])

text \<open>C18. The species cover the whole space of candidates: with two iterations the space is cut into
  the configured number of segments, with three into four to that power of triangles; they have
  distinct ids, and assigning any population of candidates to them succeeds and puts every
  individual into exactly one species.\<close>

theorem species_space_covers:
  assumes "num_key_iteration cfg = 2 \<or> num_key_iteration cfg = 3" "0 < species_waited cfg"
    "list_all (candidate cfg) pop"
  shows "\<exists>space counter waited ss. initialize_species (num_key_iteration cfg) (species_waited cfg) c =
      Inr (space, counter, waited) \<and> assign_species pop space = Inr ss \<and>
      length ss = species_count (num_key_iteration cfg) (species_waited cfg) \<and> distinct (map sp_id ss) \<and>
      mset (members ss) = mset pop \<and> waited = length ss"
  by (rule initial_assignment [OF assms])

definition example_config :: ga_config where
  "example_config = \<lparr> num_key_iteration = 3, num_generation = 25, population_size = 50, crossover_rate = 1 / 10,
     crossover_rate_inter_species = 1 / 10, mutation_rate = 1 / 10, species_waited = 2,
     max_iteration_without_improvement = 10 \<rparr>"

theorem species_space_covers_witness:
  "\<exists>space counter waited ss. initialize_species 3 2 0 = Inr (space, counter, waited) \<and>
      assign_species [Individual [1 / 3, 1 / 3, 1 / 3] 0, Individual [0, 1, 0] 0] space = Inr ss \<and>
      length ss = species_count 3 2 \<and> distinct (map sp_id ss) \<and>
      mset (members ss) = mset [Individual [1 / 3, 1 / 3, 1 / 3] 0, Individual [0, 1, 0] 0] \<and> waited = length ss"
  using species_space_covers [of example_config "[Individual [1 / 3, 1 / 3, 1 / 3] 0, Individual [0, 1, 0] 0]" 0]
  by (simp add: example_config_def candidate_def Individual_def allocation_def)

text \<open>A generation breeds at most as many children as the configured population size, and every
  child is a scored candidate.\<close>

theorem offspring_bounded:
  assumes "rng_ok env" "solver_optimal X (cvx env)" "wf_input C VA v" "0 < num_key_iteration cfg"
    "species_ok cfg ss" "total_adjusted (select_survivors ss) \<noteq> 0"
  shows "yields (breed_all env cfg C VA waited (select_survivors ss))
    (\<lambda>cs. length cs \<le> population_size cfg \<and> list_all (scored cfg) cs) (ga_errors X)"
proof -
  have v: "nonneg v" "wf_matrix (length v) C" "VA = replicate (length C) v" using assms(3) by (simp_all add: wf_input_def)
  show ?thesis unfolding v(3)
    by (rule breed_all_yields [OF assms(1,2) v(1,2) assms(4) select_survivors_breeding [OF assms(5)] assms(6)])
qed

definition example_specie :: specie where
  "example_specie = (Specie 0 [(Individual [1 / 2, 1 / 4, 1 / 4] 500), (Individual [1, 0, 0] 1000)])"

lemma example_specie_ok: "species_ok example_config [example_specie]"
  "total_adjusted (select_survivors [example_specie]) \<noteq> 0"
  by (simp_all add: species_ok_def example_specie_def Specie_def scored_def Individual_def allocation_def
      example_config_def PONDERATION_EXCEDENT_def total_adjusted_def select_survivors_def cull_weakest_def
      apply_adjusted_fitness_def sort_individuals_def Let_def)

theorem offspring_bounded_witness:
  "yields (breed_all steady_env example_config (rd_C olagsa_data) (rd_VA olagsa_data) 16 (select_survivors [example_specie]))
    (\<lambda>cs. length cs \<le> population_size example_config \<and> list_all (scored example_config) cs) (ga_errors (\<lambda>e. False))"
  by (rule offspring_bounded [OF steady_env_ok olagsa_data_wf _ example_specie_ok]) (simp add: example_config_def)

text \<open>C35. The check for improvement counts every generation, improving or not: the limit on
  generations without improvement is a limit on generations. Past one more generation than that
  limit, the number of generations makes no difference to a run.\<close>

theorem improvement_limit_caps_generations:
  assumes "1 \<le> max_iteration_without_improvement cfg" "max_iteration_without_improvement cfg < k"
  shows "ga_run env (cfg \<lparr> num_generation := k \<rparr>) C VA =
    ga_run env (cfg \<lparr> num_generation := Suc (max_iteration_without_improvement cfg) \<rparr>) C VA"
proof -
  obtain m where "max_iteration_without_improvement cfg = Suc m" using assms(1) by (cases "max_iteration_without_improvement cfg") auto
  then show ?thesis using ga_run_limit [of cfg m k] assms(2) by simp
qed

theorem improvement_limit_caps_generations_witness:
  "ga_run steady_env (example_config \<lparr> num_generation := 1000 \<rparr>) [[1]] [[1]] =
    ga_run steady_env (example_config \<lparr> num_generation := 11 \<rparr>) [[1]] [[1]]"
  using improvement_limit_caps_generations [of example_config 1000 steady_env "[[1]]" "[[1]]"]
  by (simp add: example_config_def)

text \<open>C36. A candidate the solver did not solve scores higher than every solved one, so in every
  species it belongs to it is the individual the search reports, whatever the others score.\<close>

theorem infeasible_outranks:
  assumes "status s \<noteq> ''optimal''" "status s' = ''optimal''" "sE s' = Some E" "0 \<le> sum_list (map sum_list E)"
    "list_all (scored cfg) inds" "ind \<in> set inds" "solution_fitness (Some s) = Inr (fitness ind)"
  shows "\<exists>f'. solution_fitness (Some s') = Inr f' \<and> f' < fitness ind \<and>
    fitness (hd (sort_individuals inds)) = fitness ind"
proof -
  let ?hd = "hd (sort_individuals inds)"
  have f: "fitness ind = 100 * PONDERATION_EXCEDENT" using assms(1,7) by (simp add: solution_fitness_def)
  have "scored cfg ?hd" using assms(5) hd_sort_in [of inds] assms(6) by (fastforce simp: list_all_iff)
  then have "fitness ?hd \<le> fitness ind" by (auto simp: scored_def f PONDERATION_EXCEDENT_def)
  then have "fitness ?hd = fitness ind" using sort_individuals_best [OF assms(6)] by simp
  moreover have "1 / (sum_list (map sum_list E) + 1) \<le> 1" using assms(4) by (simp add: divide_le_eq)
  ultimately show ?thesis using assms(2,3) f by (simp add: solution_fitness_def PONDERATION_EXCEDENT_def)
qed

theorem infeasible_outranks_witness:
  "\<exists>f'. solution_fitness (Some \<lparr> status = ''optimal'', VAP = None, sVA = [], sC = [], VAPA = None, sE = Some [[0]] \<rparr>) = Inr f' \<and>
    f' < fitness (Individual [1] 100000) \<and>
    fitness (hd (sort_individuals [Individual [1] 1000, Individual [1] 100000])) = fitness (Individual [1] 100000)"
  using infeasible_outranks [of "\<lparr> status = ''infeasible'', VAP = None, sVA = [], sC = [], VAPA = None, sE = None \<rparr>"
      "\<lparr> status = ''optimal'', VAP = None, sVA = [], sC = [], VAPA = None, sE = Some [[0]] \<rparr>" "[[0]]"
      "example_config \<lparr> num_key_iteration := 1 \<rparr>" "[Individual [1] 1000, Individual [1] 100000]" "Individual [1] 100000"]
  by (simp add: solution_fitness_def PONDERATION_EXCEDENT_def scored_def allocation_def Individual_def)

text \<open>The crossover rate is compared with a coin that is zero or one, so every rate above zero
  and up to one gives the same breeding.\<close>

theorem crossover_rate_is_a_switch:
  assumes "rng_ok env" "0 < r" "r \<le> 1"
  shows "breed_intra env (cfg \<lparr> crossover_rate := r \<rparr>) s w = breed_intra env (cfg \<lparr> crossover_rate := 1 \<rparr>) s w"
proof -
  have "abind (randint env 0 (Suc 0)) (\<lambda>coin. if real coin < r then f else g) w' =
      abind (randint env 0 (Suc 0)) (\<lambda>coin. if real coin < 1 then f else g) w'"
    for f g :: "('a, py_error, individual) act" and w'
  proof (cases "randint env 0 (Suc 0) w'")
    case (Pair res w'')
    have "yields (randint env 0 (Suc 0)) (\<lambda>i. 0 \<le> i \<and> i \<le> Suc 0) (\<lambda>_. False)"
      by (rule rng_randint [OF assms(1)]) simp
    then have "case res of Inl e \<Rightarrow> False | Inr i \<Rightarrow> i \<le> Suc 0"
      unfolding yields_def using Pair by (metis (no_types, lifting) fst_conv le0 sum.case_eq_if)
    moreover have "i = 0 \<or> i = 1" if "i \<le> Suc 0" for i :: nat using that by auto
    ultimately show ?thesis using Pair assms(2,3) by (auto simp: abind_def split: sum.splits)
  qed
  then have coin: "abind (randint env 0 (Suc 0)) (\<lambda>coin. if real coin < r then f else g) =
      abind (randint env 0 (Suc 0)) (\<lambda>coin. if real coin < 1 then f else g)"
    for f g :: "('a, py_error, individual) act" by (intro ext)
  show ?thesis unfolding breed_intra_def by (simp add: coin)
qed

theorem crossover_rate_is_a_switch_witness:
  "breed_intra steady_env (example_config \<lparr> crossover_rate := 1 / 100 \<rparr>) example_specie () =
    breed_intra steady_env (example_config \<lparr> crossover_rate := 1 \<rparr>) example_specie ()"
  by (rule crossover_rate_is_a_switch [OF steady_env_ok(1)]) simp_all

lemma assign_all_to_first:
  assumes "\<And>ind. ind \<in> set pop \<Longrightarrow> \<exists>p. chromosome_to_coordinate (chromosomes ind) = Inr p \<and> specie_accepts s p"
  shows "assign_species pop (s # ss) = Inr (s \<lparr> sp_individuals := sp_individuals s @ pop \<rparr> # ss)"
  using assms
proof (induction pop arbitrary: s)
  case (Cons ind pop)
  let ?s = "s \<lparr> sp_individuals := sp_individuals s @ [ind] \<rparr>"
  have acc: "specie_accepts ?s p = specie_accepts s p" for p by (simp add: specie_accepts_def)
  obtain p where "chromosome_to_coordinate (chromosomes ind) = Inr p" "specie_accepts s p"
    using Cons.prems by force
  moreover have "assign_species pop (?s # ss) = Inr (?s \<lparr> sp_individuals := sp_individuals ?s @ pop \<rparr> # ss)"
    using Cons.prems by (intro Cons.IH) (auto simp: acc)
  ultimately show ?case by simp
qed simp

lemma two_segments:
  "initialize_species 2 2 0 = Inr ([segment_specie 0 \<lparr> point_a = Coordinate 0 1, point_b = Coordinate (1 / 2) (1 / 2) \<rparr>,
     segment_specie 1 \<lparr> point_a = Coordinate (1 / 2) (1 / 2), point_b = Coordinate 1 0 \<rparr>], 2, 2)"
  by (simp add: initialize_species_def find_midpoints_def build_segments_def line_func_def next_specie_id_def
      numeral_2_eq_2)

lemma first_half_accepts:
  "segment_point_within \<lparr> point_a = Coordinate 0 1, point_b = Coordinate (1 / 2) (1 / 2) \<rparr> (Coordinate x (1 - x)) \<longleftrightarrow>
    0 \<le> x \<and> x \<le> 1 / 2"
  by (auto simp: segment_point_within_def Let_def power2_eq_square)

lemma selection_accepts:
  "specie_accepts (cull_weakest (apply_adjusted_fitness (fst (check_improvement cfg (init_best s))))) p = specie_accepts s p"
  by (simp add: specie_accepts_def cull_weakest_def apply_adjusted_fitness_def check_improvement_def
      init_best_def Let_def)

text \<open>A species without individuals is dropped at the end of the check, and no species takes its
  region over: with two segments and a population in the first one, a child in the second half
  of the space is refused.\<close>

theorem dropped_region_refuses_child:
  assumes "initialize_species 2 2 0 = Inr (space, counter, waited)"
    "assign_species pop space = Inr species" "pop \<noteq> []"
    "list_all (\<lambda>ind. \<exists>x. chromosomes ind = [x, 1 - x] \<and> 0 \<le> x \<and> x \<le> 1 / 2) pop"
    "chromosomes child = [y, 1 - y]" "1 / 2 < y"
  shows "assign_species [child] (select_survivors (map fst (map (check_improvement cfg) (map init_best species)))) =
    Inl (RuntimeError ''Individual could not be assigned to any species'')"
proof -
  define a where "a = segment_specie 0 \<lparr> point_a = Coordinate 0 1, point_b = Coordinate (1 / 2) (1 / 2) \<rparr>"
  define b where "b = segment_specie 1 \<lparr> point_a = Coordinate (1 / 2) (1 / 2), point_b = Coordinate 1 0 \<rparr>"
  have a: "specie_accepts a (Coordinate x (1 - x)) \<longleftrightarrow> 0 \<le> x \<and> x \<le> 1 / 2" for x
    by (simp add: specie_accepts_def a_def first_half_accepts)
  have "space = [a, b]" using assms(1) unfolding two_segments by (simp add: a_def b_def)
  moreover have "\<exists>p. chromosome_to_coordinate (chromosomes ind) = Inr p \<and> specie_accepts a p" if "ind \<in> set pop" for ind
    using that assms(4) a by (fastforce simp: list_all_iff chromosome_to_coordinate_def)
  ultimately have species: "species = [a \<lparr> sp_individuals := sp_individuals a @ pop \<rparr>, b]" (is "_ = [?a, _]")
    using assms(2) assign_all_to_first [of pop a "[b]"] by simp
  have "sp_individuals (fst (check_improvement cfg (init_best ?a))) \<noteq> []"
    using assms(3) by (simp add: check_improvement_def init_best_def Let_def)
  moreover have "sp_individuals (fst (check_improvement cfg (init_best b))) = []"
    by (simp add: check_improvement_def init_best_def b_def)
  ultimately have "select_survivors (map fst (map (check_improvement cfg) (map init_best species))) =
      [cull_weakest (apply_adjusted_fitness (fst (check_improvement cfg (init_best ?a))))]"
    by (simp add: species select_survivors_def)
  moreover have "\<not> specie_accepts ?a (Coordinate y (1 - y))"
    using a [of y] assms(6) by (simp add: specie_accepts_def)
  ultimately show ?thesis using assms(5) by (simp add: chromosome_to_coordinate_def selection_accepts)
qed

theorem dropped_region_refuses_child_witness:
  "\<exists>space species. initialize_species 2 2 0 = Inr (space, 2, 2) \<and>
    assign_species [Individual [1 / 4, 3 / 4] 500] space = Inr species \<and>
    assign_species [Individual [3 / 4, 1 / 4] 500]
      (select_survivors (map fst (map (check_improvement example_config) (map init_best species)))) =
    Inl (RuntimeError ''Individual could not be assigned to any species'')"
proof -
  have "list_all (candidate (example_config \<lparr> num_key_iteration := 2 \<rparr>)) [Individual [1 / 4, 3 / 4] 500]"
    by (simp add: candidate_def Individual_def allocation_def)
  from initial_assignment [OF _ _ this, of 0]
  obtain space species where sp: "initialize_species 2 2 0 = Inr (space, 2, 2)"
    "assign_species [Individual [1 / 4, 3 / 4] 500] space = Inr species"
    using two_segments by (auto simp: example_config_def)
  have half: "list_all (\<lambda>ind. \<exists>x. chromosomes ind = [x, 1 - x] \<and> 0 \<le> x \<and> x \<le> 1 / 2) [Individual [1 / 4, 3 / 4] 500]"
    by (auto simp: Individual_def intro!: exI [of _ "1 / 4"])
  have "assign_species [Individual [3 / 4, 1 / 4] 500]
      (select_survivors (map fst (map (check_improvement example_config) (map init_best species)))) =
    Inl (RuntimeError ''Individual could not be assigned to any species'')"
    by (rule dropped_region_refuses_child [OF sp _ half, of _ "3 / 4"]) (simp_all add: Individual_def)
  with sp show ?thesis by blast
qed

text \<open>The partner species of inter-species breeding is another species that has individuals, and
  none of the other such species has a closer centroid; without one the search falls back to the
  species itself.\<close>

theorem nearest_partner:
  "case find_nearest s species None of
     None \<Rightarrow> breed_inter env cfg s species = breed_intra env cfg s \<and> filter (partner s) species = []
   | Some r \<Rightarrow> r \<in> set species \<and> partner s r \<and>
       list_all (\<lambda>x. partner_distance s r \<le> partner_distance s x) (filter (partner s) species)"
  using find_nearest_ok [of None s species]
  by (auto simp: nearest_ok_def breed_inter_def list_all_iff filter_empty_conv split: option.splits)

end
