(* ===== verification/AppErrors.thy ===== *)
theory AppErrors
  imports Effects
begin

text \<open>
  Application errors: the error records of \<open>core/errors/errors.py\<close> with the catalogue of
  \<open>shared/custom_errors.py\<close>, the promotion of unexpected exceptions by
  \<open>core/errors/with_default_error.py\<close>, and the enumerations of \<open>shared/const.py\<close>.
\<close>

section \<open>Errors\<close>

record app_error =
  err_code :: nat
  err_key :: string

definition Error :: "nat \<Rightarrow> string \<Rightarrow> app_error" where
  "Error c k = \<lparr> err_code = c, err_key = k \<rparr>"

text \<open>\<open>ErrorException\<close> with its HTTP status, and every other exception with its message.\<close>

datatype exc = ErrorException app_error nat | OtherException string

definition error_default :: "app_error \<Rightarrow> exc" where
  "error_default e = ErrorException e 400"

definition show_exc :: "exc \<Rightarrow> string" where
  "show_exc x = (case x of
     ErrorException e _ \<Rightarrow> ''Error '' @ show_nat (err_code e) @ '': '' @ err_key e
   | OtherException m \<Rightarrow> m)"

definition with_default_error :: "app_error \<Rightarrow> ('w, exc, 'a) act \<Rightarrow> ('w, exc, 'a) act" where
  "with_default_error default_error func = (\<lambda>w.
     (case func w of
        (Inl (ErrorException e code), w') \<Rightarrow> (Inl (ErrorException e code), w')
      | (Inl (OtherException m), w') \<Rightarrow> (Inl (error_default default_error), w')
      | (Inr x, w') \<Rightarrow> (Inr x, w')))"

section \<open>Catalogue\<close>

definition UNAUTHORIZED :: app_error where "UNAUTHORIZED = Error 1 ''ERRORS.AUTH.UNAUTHORIZED''"
definition FORBIDDEN :: app_error where "FORBIDDEN = Error 2 ''ERRORS.AUTH.FORBIDDEN''"
definition RATE_LIMITED :: app_error where "RATE_LIMITED = Error 3 ''ERRORS.AUTH.RATE_LIMITED''"
definition AUTHORIZATION_MISSING :: app_error where
  "AUTHORIZATION_MISSING = Error 4 ''ERRORS.AUTH.AUTHORIZATION_MISSING''"
definition NOT_SUBSCRIBED :: app_error where "NOT_SUBSCRIBED = Error 1003 ''ERRORS.SUBSCRIPTION.NOT_SUBSCRIBED''"
definition GET_GENERATIONS :: app_error where "GET_GENERATIONS = Error 2000 ''ERRORS.GENERATION.GET_GENERATIONS''"
definition GET_ALLOCATION_KEYS :: app_error where
  "GET_ALLOCATION_KEYS = Error 2001 ''ERRORS.GENERATION.GET_ALLOCATION_KEYS''"
definition GET_ALLOCATION_KEY :: app_error where
  "GET_ALLOCATION_KEY = Error 2002 ''ERRORS.GENERATION.GET_ALLOCATION_KEY''"
definition ALLOCATION_KEY_NOT_FOUND :: app_error where
  "ALLOCATION_KEY_NOT_FOUND = Error 2003 ''ERRORS.GENERATION.ALLOCATION_KEY_NOT_FOUND''"
definition SAVE_KEY :: app_error where "SAVE_KEY = Error 2004 ''ERRORS.GENERATION.SAVE_KEY''"
definition DELETE_GENERATION :: app_error where
  "DELETE_GENERATION = Error 2005 ''ERRORS.GENERATION.DELETE_GENERATION''"
definition DELETE_KEY :: app_error where "DELETE_KEY = Error 2006 ''ERRORS.GENERATION.DELETE_KEY''"
definition GENERATION_NOT_FOUND :: app_error where
  "GENERATION_NOT_FOUND = Error 2007 ''ERRORS.GENERATION.GENERATION_NOT_FOUND''"
definition GET_ALGORITHMS :: app_error where "GET_ALGORITHMS = Error 2008 ''ERRORS.GENERATION.GET_ALGORITHMS''"
definition GET_ALGORITHM_INPUT :: app_error where
  "GET_ALGORITHM_INPUT = Error 2009 ''ERRORS.GENERATION.GET_ALGORITHM_INPUT''"
definition ALGORITHM_NOT_FOUND :: app_error where
  "ALGORITHM_NOT_FOUND = Error 2010 ''ERRORS.GENERATION.ALGORITHM.NOT_FOUND''"
definition START_GENERATION :: app_error where
  "START_GENERATION = Error 2011 ''ERRORS.GENERATION.START_GENERATION''"
definition INVALID_ALGORITHM_INPUTS :: app_error where
  "INVALID_ALGORITHM_INPUTS = Error 2012 ''ERRORS.GENERATION.INVALID_ALGORITHM_INPUTS''"
definition STORAGE_UPLOAD_FAILED :: app_error where
  "STORAGE_UPLOAD_FAILED = Error 2013 ''ERRORS.GENERATION.STORAGE_UPLOAD_FAILED''"
definition INVALID_FILE :: app_error where "INVALID_FILE = Error 2014 ''ERRORS.GENERATION.INVALID_FILE''"
definition FILE_TOO_LARGE :: app_error where "FILE_TOO_LARGE = Error 2015 ''ERRORS.GENERATION.FILE_TOO_LARGE''"
definition INVALID_PERIOD :: app_error where "INVALID_PERIOD = Error 2016 ''ERRORS.GENERATION.INVALID_PERIOD''"
definition SHARING_OPERATION_NOT_FOUND :: app_error where
  "SHARING_OPERATION_NOT_FOUND = Error 2017 ''ERRORS.GENERATION.SHARING_OPERATION_NOT_FOUND''"
definition CRM_NO_DATA :: app_error where "CRM_NO_DATA = Error 2018 ''ERRORS.GENERATION.CRM_NO_DATA''"
definition CRM_DUPLICATE_READINGS :: app_error where
  "CRM_DUPLICATE_READINGS = Error 2019 ''ERRORS.GENERATION.CRM_DUPLICATE_READINGS''"
definition CRM_NO_INJECTION :: app_error where
  "CRM_NO_INJECTION = Error 2020 ''ERRORS.GENERATION.CRM_NO_INJECTION''"
definition CRM_NO_CONSUMERS :: app_error where
  "CRM_NO_CONSUMERS = Error 2021 ''ERRORS.GENERATION.CRM_NO_CONSUMERS''"
definition CRM_RANGE_TOO_LARGE :: app_error where
  "CRM_RANGE_TOO_LARGE = Error 2022 ''ERRORS.GENERATION.CRM_RANGE_TOO_LARGE''"
definition GET_CRM_PREVIEW :: app_error where "GET_CRM_PREVIEW = Error 2023 ''ERRORS.GENERATION.GET_CRM_PREVIEW''"
definition PROBLEM_TOO_LARGE :: app_error where
  "PROBLEM_TOO_LARGE = Error 2024 ''ERRORS.GENERATION.PROBLEM_TOO_LARGE''"

section \<open>Enumerations\<close>

datatype generation_status = PENDING | SUCCESS | FAILED

datatype data_source = FILE | CRM

definition status_code :: "generation_status \<Rightarrow> nat" where
  "status_code s = (case s of PENDING \<Rightarrow> 0 | SUCCESS \<Rightarrow> 1 | FAILED \<Rightarrow> 2)"

definition source_code :: "data_source \<Rightarrow> nat" where
  "source_code s = (case s of FILE \<Rightarrow> 1 | CRM \<Rightarrow> 2)"

text \<open>The default error leaves domain errors alone and hides every other exception.\<close>

lemma with_default_error_yields:
  assumes "yields m Q (\<lambda>_. True)"
  shows "yields (with_default_error d m) Q
    (\<lambda>x. \<exists>e c. x = ErrorException e c)"
  unfolding yields_def
proof
  fix w
  obtain r w' where m: "m w = (r, w')" by (cases "m w")
  have "case r of Inl _ \<Rightarrow> True | Inr x \<Rightarrow> Q x"
    using assms m unfolding yields_def by (metis (mono_tags, lifting) fst_conv)
  then show "case fst (with_default_error d m w) of
      Inl x \<Rightarrow> \<exists>e c. x = ErrorException e c | Inr x \<Rightarrow> Q x"
    using m by (auto simp: with_default_error_def error_default_def split: sum.splits exc.splits)
qed

end
