(* ===== verification/PyText.thy ===== *)
theory PyText
  imports Prelude
begin

text \<open>
  The string operations of Python that the service uses: \<open>lower\<close>, \<open>strip\<close>, \<open>split\<close>,
  \<open>startswith\<close>, \<open>int(text)\<close>, and PostgreSQL's \<open>ILIKE\<close>. Text is in the Latin-1 range; the
  lower-casing is that of ASCII.
\<close>

section \<open>Operations\<close>

definition lower_char :: "char \<Rightarrow> char" where
  "lower_char c = (if 65 \<le> (of_char c :: nat) \<and> (of_char c :: nat) \<le> 90 then char_of ((of_char c :: nat) + 32) else c)"

definition lower :: "string \<Rightarrow> string" where
  "lower s = map lower_char s"

definition is_space :: "char \<Rightarrow> bool" where
  "is_space c = ((of_char c :: nat) \<in> {9, 10, 11, 12, 13, 28, 29, 30, 31, 32, 133, 160})"

definition lstrip_by :: "(char \<Rightarrow> bool) \<Rightarrow> string \<Rightarrow> string" where
  "lstrip_by p s = dropWhile p s"

definition rstrip_by :: "(char \<Rightarrow> bool) \<Rightarrow> string \<Rightarrow> string" where
  "rstrip_by p s = rev (dropWhile p (rev s))"

definition strip :: "string \<Rightarrow> string" where
  "strip s = rstrip_by is_space (lstrip_by is_space s)"

text \<open>\<open>s.split(c)\<close> at a character; there is always at least one part.\<close>

fun split_at :: "char \<Rightarrow> string \<Rightarrow> string list" where
  "split_at c [] = [[]]"
| "split_at c (x # xs) =
     (if x = c then [] # split_at c xs
      else (case split_at c xs of [] \<Rightarrow> [[x]] | p # ps \<Rightarrow> (x # p) # ps))"

text \<open>\<open>s.split()\<close>: the maximal runs of non-spaces.\<close>

definition words :: "string \<Rightarrow> string list" where
  "words s = filter (\<lambda>p. p \<noteq> []) (split_at (CHR '' '') (map (\<lambda>c. if is_space c then CHR '' '' else c) s))"

definition startswith :: "string \<Rightarrow> string \<Rightarrow> bool" where
  "startswith s p = (take (length p) s = p)"

definition is_digit :: "char \<Rightarrow> bool" where
  "is_digit c = (48 \<le> (of_char c :: nat) \<and> (of_char c :: nat) \<le> 57)"

definition digits_value :: "string \<Rightarrow> nat" where
  "digits_value s = foldl (\<lambda>n c. 10 * n + (of_char c - 48)) 0 s"

text \<open>\<open>int(text)\<close>: surrounding spaces, a sign, digits with single underscores between them;
  \<open>None\<close> is \<open>ValueError\<close>.\<close>

definition digit_groups :: "string \<Rightarrow> string option" where
  "digit_groups s =
     (let gs = split_at (CHR ''_'') s
      in if list_all (\<lambda>g. g \<noteq> [] \<and> list_all is_digit g) gs then Some (concat gs) else None)"

definition py_int :: "string \<Rightarrow> int option" where
  "py_int text = (case strip text of
     [] \<Rightarrow> None
   | c # cs \<Rightarrow>
       if c = CHR ''-'' then map_option (\<lambda>d. - int (digits_value d)) (digit_groups cs)
       else if c = CHR ''+'' then map_option (\<lambda>d. int (digits_value d)) (digit_groups cs)
       else map_option (\<lambda>d. int (digits_value d)) (digit_groups (c # cs)))"

text \<open>\<open>LIKE\<close> with its wildcards and the escape character; a pattern that ends in the escape
  character never matches here (PostgreSQL refuses it).\<close>

fun like :: "string \<Rightarrow> string \<Rightarrow> bool" where
  "like [] s = (s = [])"
| "like (p # ps) s =
     (if p = CHR ''%'' then list_ex (\<lambda>i. like ps (drop i s)) [0..<Suc (length s)]
      else if p = CHR ''_'' then (case s of [] \<Rightarrow> False | _ # cs \<Rightarrow> like ps cs)
      else if p = CHR 0x5C then
        (case (ps, s) of (e # es, c # cs) \<Rightarrow> e = c \<and> like es cs | _ \<Rightarrow> False)
      else (case s of [] \<Rightarrow> False | c # cs \<Rightarrow> p = c \<and> like ps cs))"

definition ilike :: "string \<Rightarrow> string \<Rightarrow> bool" where
  "ilike pat s = like (lower pat) (lower s)"

section \<open>Decimal numerals are unambiguous\<close>

lemma digit_char_value: "d < 10 \<Longrightarrow> (of_char (digit_char d) :: nat) - 48 = d"
  by (simp add: digit_char_def)

lemma digits_value_show: "digits_value (show_nat n) = n"
proof (induction n rule: show_nat.induct)
  case (1 n)
  show ?case
  proof (cases "n < 10")
    case True
    then show ?thesis by (simp add: show_nat.simps [of n] digits_value_def digit_char_value)
  next
    case False
    have "digits_value (show_nat (n div 10) @ [digit_char (n mod 10)]) =
        10 * digits_value (show_nat (n div 10)) + ((of_char (digit_char (n mod 10)) :: nat) - 48)"
      by (simp add: digits_value_def)
    also have "\<dots> = n" using 1 [OF False] digit_char_value [of "n mod 10"] by simp
    finally show ?thesis using False by (simp add: show_nat.simps [of n])
  qed
qed

lemma show_nat_inject: "show_nat m = show_nat n \<longleftrightarrow> m = n"
  by (metis digits_value_show)

lemma digit_char_range:
  assumes "d < 10"
  shows "digit_char d \<noteq> CHR '':''" "digit_char d \<noteq> CHR ''-''"
proof -
  have d: "(of_char (digit_char d) :: nat) = 48 + d" using assms by (simp add: digit_char_def)
  show "digit_char d \<noteq> CHR '':''"
  proof
    assume eq: "digit_char d = CHR '':''"
    from d show False unfolding eq using assms by simp
  qed
  show "digit_char d \<noteq> CHR ''-''"
  proof
    assume eq: "digit_char d = CHR ''-''"
    from d show False unfolding eq using assms by simp
  qed
qed

lemma show_nat_chars: "CHR '':'' \<notin> set (show_nat n)" "CHR ''-'' \<notin> set (show_nat n)"
proof (induction n rule: show_nat.induct)
  case (1 n)
  { case 1 show ?case using "1.IH"(1) digit_char_range(1) [of n] digit_char_range(1) [of "n mod 10"]
      by (subst show_nat.simps) auto }
  { case 2 show ?case using "1.IH"(2) digit_char_range(2) [of n] digit_char_range(2) [of "n mod 10"]
      by (subst show_nat.simps) auto }
qed

lemma show_int_inject: "show_int i = show_int j \<longleftrightarrow> i = j"
proof
  assume eq: "show_int i = show_int j"
  have hd: "CHR ''-'' # xs \<noteq> show_nat n" "show_nat n \<noteq> CHR ''-'' # xs" for xs n
    using show_nat_chars(2) [of n] by (metis list.set_intros(1))+
  show "i = j"
  proof (cases "i < 0"; cases "j < 0")
    assume "i < 0" "j < 0"
    with eq have "nat (- i) = nat (- j)" by (simp add: show_int_def show_nat_inject)
    with \<open>i < 0\<close> \<open>j < 0\<close> show ?thesis by simp
  next
    assume "\<not> i < 0" "\<not> j < 0"
    with eq have "nat i = nat j" by (simp add: show_int_def show_nat_inject)
    with \<open>\<not> i < 0\<close> \<open>\<not> j < 0\<close> show ?thesis by simp
  qed (use eq hd in \<open>auto simp: show_int_def\<close>)
qed simp

lemma show_int_no_colon: "CHR '':'' \<notin> set (show_int i)"
  using show_nat_chars(1) by (auto simp: show_int_def)

section \<open>Reading back a numeral\<close>

lemma split_at_none: "c \<notin> set s \<Longrightarrow> split_at c s = [s]"
  by (induction s) auto

lemma show_nat_digits: "list_all is_digit (show_nat n)" "show_nat n \<noteq> []"
proof (induction n rule: show_nat.induct)
  case (1 n)
  have d: "d < 10 \<Longrightarrow> is_digit (digit_char d)" for d by (simp add: is_digit_def digit_char_def)
  { case 1 show ?case using "1.IH"(1) d by (subst show_nat.simps) auto }
  { case 2 show ?case by (subst show_nat.simps) auto }
qed

lemma digit_not_space: "is_digit c \<Longrightarrow> \<not> is_space c"
  by (auto simp: is_digit_def is_space_def)

lemma digit_not_sign: "is_digit c \<Longrightarrow> c \<noteq> CHR ''-'' \<and> c \<noteq> CHR ''+'' \<and> c \<noteq> CHR ''_''"
  by (auto simp: is_digit_def)

lemma digit_groups_show: "digit_groups (show_nat n) = Some (show_nat n)"
proof -
  have "CHR ''_'' \<notin> set (show_nat n)"
    using show_nat_digits(1) [of n] digit_not_sign unfolding list_all_iff by blast
  then show ?thesis using show_nat_digits [of n] by (simp add: digit_groups_def Let_def split_at_none)
qed

lemma strip_no_space: "list_all (\<lambda>c. \<not> is_space c) s \<Longrightarrow> strip s = s"
proof -
  assume s: "list_all (\<lambda>c. \<not> is_space c) s"
  have keep: "dropWhile is_space t = t" if "list_all (\<lambda>c. \<not> is_space c) t" for t
    using that by (cases t) simp_all
  have "dropWhile is_space s = s" "dropWhile is_space (rev s) = rev s"
    using keep [OF s] keep [of "rev s"] s by (simp_all add: list_all_iff)
  then show ?thesis by (simp add: strip_def lstrip_by_def rstrip_by_def)
qed

lemma py_int_show: "py_int (show_int i) = Some i"
proof -
  have strip: "strip (show_int i) = show_int i"
    using show_nat_digits(1) digit_not_space
    by (intro strip_no_space) (auto simp: show_int_def list_all_iff is_space_def)
  obtain c cs where n: "show_nat (nat i) = c # cs" "is_digit c"
    using show_nat_digits [of "nat i"] by (cases "show_nat (nat i)") auto
  show ?thesis
  proof (cases "i < 0")
    case True
    then show ?thesis
      using strip by (simp add: py_int_def show_int_def digit_groups_show digits_value_show)
  next
    case False
    then show ?thesis
      using strip n digit_not_sign [OF n(2)] digit_groups_show [of "nat i"] digits_value_show [of "nat i"]
      by (simp add: py_int_def show_int_def)
  qed
qed

section \<open>Searching by name\<close>

text \<open>Without special characters \<open>ILIKE '%name%'\<close> is the search for a part of the text, ignoring case.\<close>

definition plain :: "string \<Rightarrow> bool" where
  "plain s = list_all (\<lambda>c. c \<noteq> CHR ''%'' \<and> c \<noteq> CHR ''_'' \<and> c \<noteq> CHR 0x5C) s"

lemma like_percent: "like [CHR ''%''] s"
  by (auto simp: list_ex_iff intro!: bexI [of _ "length s"])

lemma like_prefix: "plain p \<Longrightarrow> like (p @ [CHR ''%'']) s \<longleftrightarrow> (\<exists>b. s = p @ b)"
proof (induction p arbitrary: s)
  case Nil
  then show ?case using like_percent by simp
next
  case (Cons c p)
  then show ?case by (cases s) (auto simp: plain_def)
qed

lemma like_part: "plain p \<Longrightarrow> like (CHR ''%'' # p @ [CHR ''%'']) s \<longleftrightarrow> (\<exists>a b. s = a @ p @ b)"
proof
  assume p: "plain p" and "like (CHR ''%'' # p @ [CHR ''%'']) s"
  then obtain i where "like (p @ [CHR ''%'']) (drop i s)"
    by (auto simp: list_ex_iff simp del: upt_Suc)
  with p obtain b where "drop i s = p @ b" by (auto simp: like_prefix)
  then have "s = take i s @ p @ b" by (metis append_take_drop_id)
  then show "\<exists>a b. s = a @ p @ b" by blast
next
  assume p: "plain p" and "\<exists>a b. s = a @ p @ b"
  then obtain a b where "s = a @ p @ b" by blast
  with p have "like (p @ [CHR ''%'']) (drop (length a) s)" by (simp add: like_prefix)
  then show "like (CHR ''%'' # p @ [CHR ''%'']) s"
    using \<open>s = a @ p @ b\<close> by (auto simp: list_ex_iff intro!: bexI [of _ "length a"])
qed

end
