(* ===== verification/DataLoading.thy ===== *)
theory DataLoading
  imports AlgorithmBase AppErrors PyText
begin

text \<open>
  From a parsed table to the matrices of an algorithm (\<open>shared/data_loading.py\<close>), and the limit on
  the size of a problem (\<open>shared/problem_size.py\<close>). Parsing by pandas is a parameter: two
  functions from the bytes of a file to a table or an exception message.
\<close>

section \<open>Tables\<close>

text \<open>A data frame: its columns in order; the table has one row per time step.\<close>

type_synonym table = "(string \<times> vec) list"

datatype load_error =
    InvalidInjectionColumnError string
  | UnsupportedFileFormatError string
  | ParserError string

definition show_load_error :: "load_error \<Rightarrow> string" where
  "show_load_error e = (case e of
     InvalidInjectionColumnError m \<Rightarrow> m | UnsupportedFileFormatError m \<Rightarrow> m | ParserError m \<Rightarrow> m)"

record parsers =
  read_csv :: "string \<Rightarrow> string + table"
  read_excel :: "string \<Rightarrow> string + table"

text \<open>\<open>file_name.rsplit(".", 1)[-1].lower()\<close>: the whole name when there is no dot.\<close>

definition file_extension :: "string \<Rightarrow> string" where
  "file_extension name = map lower_char (rev (takeWhile (\<lambda>c. c \<noteq> CHR ''.'') (rev name)))"

text \<open>\<open>repr\<close> of a string in the range of the messages: quotes around the text.\<close>

definition repr :: "string \<Rightarrow> string" where
  "repr s = [CHR 0x27] @ s @ [CHR 0x27]"

definition parse_file :: "parsers \<Rightarrow> string \<Rightarrow> string \<Rightarrow> load_error + table" where
  "parse_file ps content file_name =
     (let extension = file_extension file_name;
          wrap = (\<lambda>r. case r of Inl m \<Rightarrow> Inl (ParserError m) | Inr t \<Rightarrow> Inr t)
      in if extension = ''csv'' then wrap (read_csv ps content)
         else if extension = ''xlsx'' \<or> extension = ''xls'' then wrap (read_excel ps content)
         else Inl (UnsupportedFileFormatError (''Unsupported file extension: '' @ repr extension)))"

definition to_algorithm_raw_data :: "table \<Rightarrow> string \<Rightarrow> load_error + raw_data" where
  "to_algorithm_raw_data df injection_name =
     (case map_of df injection_name of
        None \<Rightarrow> Inl (InvalidInjectionColumnError (''Injection column '' @ repr injection_name @ '' not found in file''))
      | Some production_series \<Rightarrow>
          (let consumer_columns = filter (\<lambda>(c, _). c \<noteq> injection_name) df;
               consumption = map snd consumer_columns
           in Inr \<lparr> rd_C = consumption, rd_VA = replicate (length consumption) production_series,
                    rd_consumer_names = map fst consumer_columns \<rparr>))"

definition load :: "parsers \<Rightarrow> string \<Rightarrow> string \<Rightarrow> string \<Rightarrow> load_error + raw_data" where
  "load ps content file_name injection_name =
     rbind (parse_file ps content file_name) (\<lambda>df. to_algorithm_raw_data df injection_name)"

section \<open>Problem size\<close>

definition MAX_PROBLEM_CELLS :: nat where
  "MAX_PROBLEM_CELLS = 400000"

definition too_large :: "nat \<Rightarrow> nat \<Rightarrow> string option" where
  "too_large participants timesteps =
     (let cells = participants * timesteps
      in if cells \<le> MAX_PROBLEM_CELLS then None
         else Some (show_nat participants @ '' participants x '' @ show_nat timesteps @ '' timesteps = '' @
                    show_nat cells @ '' values exceed the '' @ show_nat MAX_PROBLEM_CELLS @
                    '' limit; shorten the period or reduce the participants''))"

section \<open>Lemmas\<close>

lemma too_large_None [simp]: "too_large n t = None \<longleftrightarrow> n * t \<le> MAX_PROBLEM_CELLS"
  by (simp add: too_large_def Let_def)

text \<open>A rectangular table: every column has one value per time step, no name occurs twice.\<close>

definition rectangular :: "nat \<Rightarrow> table \<Rightarrow> bool" where
  "rectangular T df \<longleftrightarrow> distinct (map fst df) \<and> list_all (\<lambda>(_, v). length v = T) df"

lemma raw_data_of_table:
  assumes "rectangular T df" "map_of df icol = Some v"
  shows "\<exists>rd. to_algorithm_raw_data df icol = Inr rd \<and>
    list_all (\<lambda>r. length r = T) (rd_C rd) \<and> length v = T \<and>
    rd_VA rd = replicate (length (rd_C rd)) v \<and> length (rd_C rd) = length (rd_consumer_names rd) \<and>
    length (rd_C rd) + 1 = length df \<and>
    (\<forall>i<length (rd_C rd). map_of df (rd_consumer_names rd ! i) = Some (rd_C rd ! i))"
proof -
  let ?cols = "filter (\<lambda>(c, _). c \<noteq> icol) df"
  have v: "(icol, v) \<in> set df" using assms(2) by (rule map_of_SomeD)
  have d: "distinct (map fst df)" and T: "list_all (\<lambda>(_, v). length v = T) df"
    using assms(1) by (simp_all add: rectangular_def)
  have one: "filter (\<lambda>(c, _). \<not> c \<noteq> icol) df = [(icol, v)]"
    using d v by (induction df) (auto simp: filter_empty_conv rev_image_eqI)
  have "length ?cols + length (filter (\<lambda>(c, _). \<not> c \<noteq> icol) df) = length df"
    using sum_length_filter_compl [of "\<lambda>(c, _). c \<noteq> icol" df] by (simp add: case_prod_beta')
  then have len: "length ?cols + 1 = length df" unfolding one by simp
  have "map_of df (fst (?cols ! i)) = Some (snd (?cols ! i))" if "i < length ?cols" for i
  proof -
    have "?cols ! i \<in> set df" using nth_mem [OF that] by auto
    then show ?thesis using d by (simp add: map_of_eq_Some_iff)
  qed
  then show ?thesis using assms(2) len T v
    by (auto simp: to_algorithm_raw_data_def Let_def list_all_iff)
qed

lemma load_errors:
  "file_extension name \<notin> {''csv'', ''xlsx'', ''xls''} \<Longrightarrow>
    load ps content name icol = Inl (UnsupportedFileFormatError (''Unsupported file extension: '' @ repr (file_extension name)))"
  by (simp add: load_def parse_file_def Let_def)

end
