(* ===== verification/CrmData.thy ===== *)
theory CrmData
  imports DataLoading "HOL-Library.Char_ord" "HOL-Library.List_Lexorder" "HOL-Library.Product_Lexorder"
begin

text \<open>
  Metering data of the CRM: the SELECT statements of \<open>shared/crm_meter_repository.py\<close> over the
  table \<open>meter_consumption\<close>, the pre-flight of \<open>shared/crm_preflight.py\<close> and the pivot of
  \<open>shared/crm_timeseries.py\<close>. Instants are integers; the conversion of a local date into the
  instant of its midnight (zoneinfo) is a parameter \<open>midnight\<close>.
\<close>

section \<open>Period and table\<close>

definition period_bounds :: "(int \<Rightarrow> int) \<Rightarrow> int \<Rightarrow> int \<Rightarrow> int \<times> int" where
  "period_bounds midnight period_start period_end = (midnight period_start, midnight (period_end + 1))"

text \<open>A row of \<open>meter_consumption\<close>; the volumes are nullable.\<close>

record meter_row =
  mc_community :: int
  mc_operation :: int
  mc_timestamp :: int
  mc_ean :: string
  mc_gross :: "real option"
  mc_inj_gross :: "real option"

record crm_query =
  q_community :: int
  q_operation :: int
  q_start :: int
  q_end :: int

definition query_rows :: "(int \<Rightarrow> int) \<Rightarrow> crm_query \<Rightarrow> meter_row list \<Rightarrow> meter_row list" where
  "query_rows midnight q tab =
     (let (start, end_exclusive) = period_bounds midnight (q_start q) (q_end q)
      in filter (\<lambda>r. mc_community r = q_community q \<and> mc_operation r = q_operation q \<and>
                      start \<le> mc_timestamp r \<and> mc_timestamp r < end_exclusive) tab)"

definition sharing_operation_exists :: "(int \<times> int) list \<Rightarrow> int \<Rightarrow> int \<Rightarrow> bool" where
  "sharing_operation_exists operations id_community id_sharing_operation =
     list_ex (\<lambda>(op, cid). op = id_sharing_operation \<and> cid = id_community) operations"

section \<open>Summary\<close>

record ean_coverage =
  ec_ean :: string
  ec_row_count :: nat
  ec_distinct_ts :: nat
  ec_consumption_kwh :: real
  ec_injection_kwh :: real

definition has_duplicate_rows :: "ean_coverage \<Rightarrow> bool" where
  "has_duplicate_rows e = (ec_row_count e \<noteq> ec_distinct_ts e)"

definition is_consumer :: "ean_coverage \<Rightarrow> bool" where
  "is_consumer e = (ec_consumption_kwh e > 0)"

record crm_summary =
  cs_eans :: "ean_coverage list"
  cs_grid_size :: nat
  cs_first_timestamp :: "int option"
  cs_last_timestamp :: "int option"

definition total_rows :: "crm_summary \<Rightarrow> nat" where
  "total_rows s = sum_list (map ec_row_count (cs_eans s))"

definition total_consumption_kwh :: "crm_summary \<Rightarrow> real" where
  "total_consumption_kwh s = sum_list (map ec_consumption_kwh (cs_eans s))"

definition total_injection_kwh :: "crm_summary \<Rightarrow> real" where
  "total_injection_kwh s = sum_list (map ec_injection_kwh (cs_eans s))"

definition all_eans :: "crm_summary \<Rightarrow> string list" where
  "all_eans s = map ec_ean (cs_eans s)"

definition consumer_eans :: "crm_summary \<Rightarrow> string list" where
  "consumer_eans s = map ec_ean (filter is_consumer (cs_eans s))"

definition duplicate_eans :: "crm_summary \<Rightarrow> string list" where
  "duplicate_eans s = map ec_ean (filter has_duplicate_rows (cs_eans s))"

definition incomplete :: "crm_summary \<Rightarrow> ean_coverage list" where
  "incomplete s = filter (\<lambda>e. ec_distinct_ts e < cs_grid_size s) (cs_eans s)"

text \<open>\<open>COALESCE(SUM(x), 0)\<close> and \<open>COALESCE(x, 0)\<close>: a null counts as zero.\<close>

definition coalesce0 :: "real option \<Rightarrow> real" where
  "coalesce0 x = (case x of None \<Rightarrow> 0 | Some v \<Rightarrow> v)"

definition coverage_of :: "meter_row list \<Rightarrow> string \<Rightarrow> ean_coverage" where
  "coverage_of sel e =
     (let rs = filter (\<lambda>r. mc_ean r = e) sel
      in \<lparr> ec_ean = e, ec_row_count = length rs, ec_distinct_ts = length (remdups (map mc_timestamp rs)),
           ec_consumption_kwh = sum_list (map (\<lambda>r. coalesce0 (mc_gross r)) rs),
           ec_injection_kwh = sum_list (map (\<lambda>r. coalesce0 (mc_inj_gross r)) rs) \<rparr>)"

definition timestamps :: "meter_row list \<Rightarrow> int list" where
  "timestamps sel = sort (remdups (map mc_timestamp sel))"

definition summarize :: "(int \<Rightarrow> int) \<Rightarrow> crm_query \<Rightarrow> meter_row list \<Rightarrow> crm_summary" where
  "summarize midnight q tab =
     (let sel = query_rows midnight q tab; grid = timestamps sel
      in \<lparr> cs_eans = map (coverage_of sel) (sort (remdups (map mc_ean sel))),
           cs_grid_size = length grid,
           cs_first_timestamp = (if grid = [] then None else Some (hd grid)),
           cs_last_timestamp = (if grid = [] then None else Some (last grid)) \<rparr>)"

record consumption_row =
  cr_timestamp :: int
  cr_ean :: string
  cr_gross :: real
  cr_inj_gross :: real

definition fetch_rows :: "(int \<Rightarrow> int) \<Rightarrow> crm_query \<Rightarrow> meter_row list \<Rightarrow> consumption_row list" where
  "fetch_rows midnight q tab =
     map (\<lambda>r. \<lparr> cr_timestamp = mc_timestamp r, cr_ean = mc_ean r, cr_gross = coalesce0 (mc_gross r),
                 cr_inj_gross = coalesce0 (mc_inj_gross r) \<rparr>)
       (sort_key (\<lambda>r. (mc_timestamp r, mc_ean r)) (query_rows midnight q tab))"

section \<open>Pre-flight\<close>

definition MAX_READING_ROWS :: nat where
  "MAX_READING_ROWS = 5000000"

record blocker =
  bl_error :: app_error
  bl_detail :: string

record incomplete_meter =
  im_ean :: string
  im_readings :: nat
  im_expected :: nat
  im_missing :: nat

record preflight =
  pf_summary :: crm_summary
  pf_consumer_eans :: "string list"
  pf_blockers :: "blocker list"
  pf_warnings :: "incomplete_meter list option"

definition pf_ok :: "preflight \<Rightarrow> bool" where
  "pf_ok p = (pf_blockers p = [])"

definition block :: "app_error \<Rightarrow> string \<Rightarrow> blocker" where
  "block e d = \<lparr> bl_error = e, bl_detail = d \<rparr>"

definition crm_evaluate :: "crm_summary \<Rightarrow> preflight" where
  "crm_evaluate s =
     (if cs_eans s = [] then
        \<lparr> pf_summary = s, pf_consumer_eans = [],
          pf_blockers = [block CRM_NO_DATA ''no readings for this sharing operation over this period''],
          pf_warnings = None \<rparr>
      else
        (let b1 = (if total_rows s > MAX_READING_ROWS
                   then [block CRM_RANGE_TOO_LARGE (show_nat (total_rows s) @ '' readings exceed the '' @
                           show_nat MAX_READING_ROWS @ '' limit; choose a shorter period'')]
                   else []);
             b2 = (if duplicate_eans s \<noteq> []
                   then [block CRM_DUPLICATE_READINGS
                           (''the same timestamp appears more than once for meter(s) '' @
                            join '', '' (duplicate_eans s) @ '' '' @ [CHR 0xE2, CHR 0x80, CHR 0x94] @
                            '' the data was most likely imported twice'')]
                   else []);
             b3 = (if consumer_eans s = []
                   then [block CRM_NO_CONSUMERS ''no meter drew any energy over this period'']
                   else (case too_large (length (consumer_eans s)) (cs_grid_size s) of
                           None \<Rightarrow> []
                         | Some oversize \<Rightarrow> [block PROBLEM_TOO_LARGE oversize]));
             b4 = (if total_injection_kwh s \<le> 0
                   then [block CRM_NO_INJECTION (''no energy was injected over this period '' @
                           [CHR 0xE2, CHR 0x80, CHR 0x94] @ '' there is nothing to share'')]
                   else []);
             warnings = (if incomplete s = [] then None
                         else Some (map (\<lambda>e. \<lparr> im_ean = ec_ean e, im_readings = ec_distinct_ts e,
                                                im_expected = cs_grid_size s,
                                                im_missing = cs_grid_size s - ec_distinct_ts e \<rparr>) (incomplete s)))
         in \<lparr> pf_summary = s, pf_consumer_eans = consumer_eans s, pf_blockers = b1 @ b2 @ b3 @ b4,
              pf_warnings = warnings \<rparr>))"

section \<open>Pivot\<close>

definition INJECTION_COLUMN :: string where
  "INJECTION_COLUMN = ''__injection__''"

text \<open>\<open>CrmPivotError\<close> with its cause.\<close>

datatype pivot_error =
    NoReadings
  | NoConsumers
  | ReservedColumn
  | DuplicateReadings
  | MissingParticipants "string list"

text \<open>A cell of the pivot: the reading of a meter at an instant; a gap is filled with zero.\<close>

definition cell :: "consumption_row list \<Rightarrow> int \<Rightarrow> string \<Rightarrow> real" where
  "cell rows t e =
     (case filter (\<lambda>r. cr_timestamp r = t \<and> cr_ean r = e) rows of [] \<Rightarrow> 0 | r # _ \<Rightarrow> cr_gross r)"

definition injection_at :: "consumption_row list \<Rightarrow> int \<Rightarrow> real" where
  "injection_at rows t = sum_list (map cr_inj_gross (filter (\<lambda>r. cr_timestamp r = t) rows))"

definition build_dataframe :: "consumption_row list \<Rightarrow> string list \<Rightarrow> pivot_error + table" where
  "build_dataframe rows eans =
     (if rows = [] then Inl NoReadings
      else if eans = [] then Inl NoConsumers
      else if INJECTION_COLUMN \<in> set eans then Inl ReservedColumn
      else if \<not> distinct (map (\<lambda>r. (cr_timestamp r, cr_ean r)) rows) then Inl DuplicateReadings
      else (let missing = filter (\<lambda>e. e \<notin> set (map cr_ean rows)) eans;
                index = sort (remdups (map cr_timestamp rows))
            in if missing \<noteq> [] then Inl (MissingParticipants missing)
               else Inr (map (\<lambda>e. (e, map (\<lambda>t. cell rows t e) index)) eans @
                         [(INJECTION_COLUMN, map (injection_at rows) index)])))"

section \<open>Queries\<close>

lemma sum_list_by_key:
  fixes g :: "'r \<Rightarrow> real"
  assumes "distinct idx" "\<And>r. r \<in> set rs \<Longrightarrow> key r \<in> set idx"
  shows "sum_list (map (\<lambda>t. sum_list (map g (filter (\<lambda>r. key r = t) rs))) idx) = sum_list (map g rs)"
  using assms(2)
proof (induction rs)
  case Nil
  show ?case by (simp add: sum_list_const_map)
next
  case (Cons r rs)
  have "sum_list (map (\<lambda>t. if t = key r then g r else 0) idx) = g r"
    using assms(1) Cons.prems by (simp add: sum_list_distinct_conv_sum_set)
  moreover have "sum_list (map (\<lambda>t. sum_list (map g (filter (\<lambda>x. key x = t) (r # rs)))) idx) =
      sum_list (map (\<lambda>t. (if t = key r then g r else 0) + sum_list (map g (filter (\<lambda>x. key x = t) rs))) idx)"
    by (intro arg_cong [of _ _ sum_list] map_cong) auto
  ultimately show ?case using Cons by (simp add: sum_list_addf)
qed

lemma distinct_pairs:
  assumes "\<And>e. e \<in> ean ` set rs \<Longrightarrow> distinct (map ts (filter (\<lambda>r. ean r = e) rs))"
  shows "distinct (map (\<lambda>r. (ts r, ean r)) rs)"
  using assms
proof (induction rs)
  case (Cons r rs)
  have IH: "distinct (map ts (filter (\<lambda>x. ean x = e) rs))" if "e \<in> ean ` set rs" for e
    using Cons.prems [of e] that by (auto split: if_splits)
  have "ts r \<notin> ts ` set (filter (\<lambda>x. ean x = ean r) rs)" using Cons.prems [of "ean r"] by simp
  then show ?case using Cons.IH [OF IH] by (auto simp: image_iff)
qed simp

lemma distinct_of_count: "length xs = length (remdups xs) \<Longrightarrow> distinct xs"
  by (metis length_remdups_eq remdups_id_iff_distinct)

lemma fetch_rows_mset:
  "mset (fetch_rows midnight q tab) =
    mset (map (\<lambda>r. \<lparr> cr_timestamp = mc_timestamp r, cr_ean = mc_ean r, cr_gross = coalesce0 (mc_gross r),
      cr_inj_gross = coalesce0 (mc_inj_gross r) \<rparr>) (query_rows midnight q tab))"
  by (simp add: fetch_rows_def)

lemma sum_list_mset_cong: "mset xs = mset ys \<Longrightarrow> sum_list (map g xs) = (sum_list (map g ys) :: real)"
  by (metis mset_map sum_mset_sum_list)

lemma fetch_rows_map:
  assumes "\<And>r. f \<lparr> cr_timestamp = mc_timestamp r, cr_ean = mc_ean r, cr_gross = coalesce0 (mc_gross r),
      cr_inj_gross = coalesce0 (mc_inj_gross r) \<rparr> = g r"
  shows "mset (map f (fetch_rows midnight q tab)) = mset (map g (query_rows midnight q tab))"
  by (simp add: fetch_rows_mset image_mset.compositionality comp_def assms)

lemma fetch_rows_fields:
  "set (map cr_ean (fetch_rows midnight q tab)) = set (map mc_ean (query_rows midnight q tab))"
  "set (map cr_timestamp (fetch_rows midnight q tab)) = set (map mc_timestamp (query_rows midnight q tab))"
  "fetch_rows midnight q tab = [] \<longleftrightarrow> query_rows midnight q tab = []"
  by (auto simp: fetch_rows_def simp flip: length_0_conv)

lemma fetch_rows_distinct:
  "distinct (map (\<lambda>r. (cr_timestamp r, cr_ean r)) (fetch_rows midnight q tab)) \<longleftrightarrow>
    distinct (map (\<lambda>r. (mc_timestamp r, mc_ean r)) (query_rows midnight q tab))"
  by (intro mset_eq_imp_distinct_iff fetch_rows_map) simp

lemma fetch_rows_index:
  "sort (remdups (map cr_timestamp (fetch_rows midnight q tab))) = timestamps (query_rows midnight q tab)"
  unfolding timestamps_def
  by (simp only: sorted_list_of_set_sort_remdups [symmetric] fetch_rows_fields(2))

lemma fetch_rows_sum:
  assumes "\<And>r. P \<lparr> cr_timestamp = mc_timestamp r, cr_ean = mc_ean r, cr_gross = coalesce0 (mc_gross r),
      cr_inj_gross = coalesce0 (mc_inj_gross r) \<rparr> = P' r"
    "\<And>r. f \<lparr> cr_timestamp = mc_timestamp r, cr_ean = mc_ean r, cr_gross = coalesce0 (mc_gross r),
      cr_inj_gross = coalesce0 (mc_inj_gross r) \<rparr> = g r"
  shows "sum_list (map f (filter P (fetch_rows midnight q tab))) =
    (sum_list (map g (filter P' (query_rows midnight q tab))) :: real)"
proof -
  have "mset (filter P (fetch_rows midnight q tab)) =
      mset (filter P (map (\<lambda>r. \<lparr> cr_timestamp = mc_timestamp r, cr_ean = mc_ean r,
        cr_gross = coalesce0 (mc_gross r), cr_inj_gross = coalesce0 (mc_inj_gross r) \<rparr>) (query_rows midnight q tab)))"
    by (simp only: mset_filter fetch_rows_mset)
  from sum_list_mset_cong [OF this, of f] show ?thesis
    by (simp add: filter_map comp_def assms)
qed

section \<open>Cells\<close>

lemma distinct_replicate_le: "distinct (replicate n x) \<Longrightarrow> n \<le> 1"
  by (cases n) auto

lemma cell_sum:
  assumes "distinct (map (\<lambda>r. (cr_timestamp r, cr_ean r)) rows)"
  shows "cell rows t e = sum_list (map cr_gross (filter (\<lambda>r. cr_timestamp r = t) (filter (\<lambda>r. cr_ean r = e) rows)))"
proof -
  let ?xs = "filter (\<lambda>r. cr_timestamp r = t \<and> cr_ean r = e) rows"
  have "distinct (map (\<lambda>r. (cr_timestamp r, cr_ean r)) ?xs)" using assms by (rule distinct_map_filter)
  moreover have "map (\<lambda>r. (cr_timestamp r, cr_ean r)) ?xs = replicate (length ?xs) (t, e)"
    by (induction rows) auto
  ultimately have "length ?xs \<le> 1" by (simp only: distinct_replicate_le)
  then have "?xs = [] \<or> (\<exists>x. ?xs = [x])" by (cases ?xs) auto
  moreover have "filter (\<lambda>r. cr_timestamp r = t) (filter (\<lambda>r. cr_ean r = e) rows) = ?xs"
    by (simp add: conj_commute)
  ultimately show ?thesis by (auto simp: cell_def)
qed

lemma column_sum:
  assumes "distinct (map (\<lambda>r. (cr_timestamp r, cr_ean r)) rows)"
  shows "sum_list (map (\<lambda>t. cell rows t e) (sort (remdups (map cr_timestamp rows)))) =
    sum_list (map cr_gross (filter (\<lambda>r. cr_ean r = e) rows))"
  unfolding cell_sum [OF assms] by (rule sum_list_by_key) auto

lemma injection_sum:
  "sum_list (map (injection_at rows) (sort (remdups (map cr_timestamp rows)))) = sum_list (map cr_inj_gross rows)"
proof -
  have "sum_list (map (\<lambda>t. sum_list (map cr_inj_gross (filter (\<lambda>r. cr_timestamp r = t) rows)))
      (sort (remdups (map cr_timestamp rows)))) = sum_list (map cr_inj_gross rows)"
    by (rule sum_list_by_key) auto
  then show ?thesis by (simp add: injection_at_def [abs_def])
qed

section \<open>Accepted periods\<close>

lemma evaluate_ok_iff:
  "pf_ok (crm_evaluate s) \<longleftrightarrow>
     cs_eans s \<noteq> [] \<and> total_rows s \<le> MAX_READING_ROWS \<and>
     list_all (\<lambda>e. ec_row_count e = ec_distinct_ts e) (cs_eans s) \<and>
     list_ex (\<lambda>e. 0 < ec_consumption_kwh e) (cs_eans s) \<and>
     length (consumer_eans s) * cs_grid_size s \<le> MAX_PROBLEM_CELLS \<and> 0 < total_injection_kwh s"
proof -
  have "duplicate_eans s = [] \<longleftrightarrow> list_all (\<lambda>e. ec_row_count e = ec_distinct_ts e) (cs_eans s)"
    by (auto simp: duplicate_eans_def filter_empty_conv list_all_iff has_duplicate_rows_def)
  moreover have "consumer_eans s = [] \<longleftrightarrow> \<not> list_ex (\<lambda>e. 0 < ec_consumption_kwh e) (cs_eans s)"
    by (auto simp: consumer_eans_def filter_empty_conv list_ex_iff is_consumer_def)
  ultimately show ?thesis unfolding too_large_None [symmetric]
    by (auto simp: pf_ok_def crm_evaluate_def Let_def not_less not_le simp del: too_large_None split: option.splits)
qed

lemma evaluate_ok:
  assumes "pf_ok (crm_evaluate s)"
  shows "cs_eans s \<noteq> []" "total_rows s \<le> MAX_READING_ROWS" "duplicate_eans s = []" "consumer_eans s \<noteq> []"
    "length (consumer_eans s) * cs_grid_size s \<le> MAX_PROBLEM_CELLS" "0 < total_injection_kwh s"
    "pf_consumer_eans (crm_evaluate s) = consumer_eans s"
  using assms by (auto simp: pf_ok_def crm_evaluate_def Let_def split: if_splits option.splits)

lemma summary_fields:
  "map ec_ean (cs_eans (summarize midnight q tab)) = sort (remdups (map mc_ean (query_rows midnight q tab)))"
  "cs_grid_size (summarize midnight q tab) = length (timestamps (query_rows midnight q tab))"
  "cs_eans (summarize midnight q tab) =
     map (coverage_of (query_rows midnight q tab)) (sort (remdups (map mc_ean (query_rows midnight q tab))))"
  by (simp_all add: summarize_def Let_def comp_def coverage_of_def)

lemma no_duplicates_distinct:
  assumes "duplicate_eans (summarize midnight q tab) = []"
  shows "distinct (map (\<lambda>r. (mc_timestamp r, mc_ean r)) (query_rows midnight q tab))"
proof (rule distinct_pairs)
  let ?sel = "query_rows midnight q tab"
  fix e assume "e \<in> mc_ean ` set ?sel"
  then have "\<not> has_duplicate_rows (coverage_of ?sel e)"
    using assms by (auto simp: duplicate_eans_def summary_fields(3) filter_empty_conv)
  then have "length (map mc_timestamp (filter (\<lambda>r. mc_ean r = e) ?sel)) =
      length (remdups (map mc_timestamp (filter (\<lambda>r. mc_ean r = e) ?sel)))"
    by (simp add: has_duplicate_rows_def coverage_of_def Let_def)
  then show "distinct (map mc_timestamp (filter (\<lambda>r. mc_ean r = e) ?sel))" by (rule distinct_of_count)
qed

lemma consumer_eans_subset:
  "set (consumer_eans (summarize midnight q tab)) \<subseteq> set (map mc_ean (query_rows midnight q tab))"
  "distinct (consumer_eans (summarize midnight q tab))"
proof -
  let ?cs = "cs_eans (summarize midnight q tab)"
  have "set (map ec_ean ?cs) = set (map mc_ean (query_rows midnight q tab))" by (simp only: summary_fields(1)) simp
  then show "set (consumer_eans (summarize midnight q tab)) \<subseteq> set (map mc_ean (query_rows midnight q tab))"
    by (auto simp: consumer_eans_def)
  have "distinct (map ec_ean ?cs)" by (simp only: summary_fields(1)) simp
  then show "distinct (consumer_eans (summarize midnight q tab))"
    by (simp add: consumer_eans_def distinct_map_filter)
qed

lemma summary_injection:
  "total_injection_kwh (summarize midnight q tab) =
    sum_list (map (\<lambda>r. coalesce0 (mc_inj_gross r)) (query_rows midnight q tab))"
proof -
  let ?sel = "query_rows midnight q tab"
  have "total_injection_kwh (summarize midnight q tab) =
      sum_list (map (\<lambda>e. sum_list (map (\<lambda>r. coalesce0 (mc_inj_gross r)) (filter (\<lambda>r. mc_ean r = e) ?sel)))
        (sort (remdups (map mc_ean ?sel))))"
    by (simp add: total_injection_kwh_def summary_fields(3) coverage_of_def Let_def comp_def)
  also have "\<dots> = sum_list (map (\<lambda>r. coalesce0 (mc_inj_gross r)) ?sel)" by (rule sum_list_by_key) auto
  finally show ?thesis .
qed

lemma consumer_volumes:
  "map ec_consumption_kwh (filter is_consumer (cs_eans (summarize midnight q tab))) =
    map (\<lambda>e. sum_list (map (\<lambda>r. coalesce0 (mc_gross r)) (filter (\<lambda>r. mc_ean r = e) (query_rows midnight q tab))))
      (consumer_eans (summarize midnight q tab))"
  by (simp add: consumer_eans_def summary_fields(3) filter_map comp_def coverage_of_def Let_def)

lemma pivot_of_accepted:
  assumes "pf_ok (crm_evaluate (summarize midnight q tab))" "INJECTION_COLUMN \<notin> mc_ean ` set tab"
  defines "rows \<equiv> fetch_rows midnight q tab" and "eans \<equiv> consumer_eans (summarize midnight q tab)"
    and "idx \<equiv> timestamps (query_rows midnight q tab)"
  shows "build_dataframe rows eans = Inr (map (\<lambda>e. (e, map (\<lambda>t. cell rows t e) idx)) eans @
      [(INJECTION_COLUMN, map (injection_at rows) idx)])"
    "distinct (map (\<lambda>r. (cr_timestamp r, cr_ean r)) rows)" "INJECTION_COLUMN \<notin> set eans"
proof -
  note ok = evaluate_ok [OF assms(1)]
  show d: "distinct (map (\<lambda>r. (cr_timestamp r, cr_ean r)) rows)"
    using no_duplicates_distinct [OF ok(3)] by (simp add: rows_def fetch_rows_distinct)
  have sub: "set eans \<subseteq> set (map cr_ean rows)"
    using consumer_eans_subset(1) unfolding rows_def eans_def fetch_rows_fields(1) .
  have "set (map cr_ean rows) \<subseteq> mc_ean ` set tab"
    unfolding rows_def fetch_rows_fields(1) by (auto simp: query_rows_def)
  then show inj: "INJECTION_COLUMN \<notin> set eans" using sub assms(2) by blast
  have ne: "eans \<noteq> []" using ok(4) by (simp add: eans_def)
  then have "rows \<noteq> []" using sub by auto
  moreover have "filter (\<lambda>e. e \<notin> set (map cr_ean rows)) eans = []" using sub by (auto simp: filter_empty_conv)
  moreover have "sort (remdups (map cr_timestamp rows)) = idx" by (simp add: rows_def idx_def fetch_rows_index)
  ultimately show "build_dataframe rows eans = Inr (map (\<lambda>e. (e, map (\<lambda>t. cell rows t e) idx)) eans @
      [(INJECTION_COLUMN, map (injection_at rows) idx)])"
    using ne inj d by (simp add: build_dataframe_def Let_def)
qed

text \<open>The converter on a frame of participant columns followed by the injection column.\<close>

lemma wide_raw_data:
  assumes "k \<notin> set names"
  shows "to_algorithm_raw_data (map (\<lambda>e. (e, f e)) names @ [(k, v)]) k =
    Inr \<lparr> rd_C = map f names, rd_VA = replicate (length names) v, rd_consumer_names = names \<rparr>"
proof -
  have cols: "filter (\<lambda>(c, _). c \<noteq> k) (map (\<lambda>e. (e, f e)) names @ [(k, v)]) = map (\<lambda>e. (e, f e)) names"
    using assms by (auto simp: filter_id_conv)
  have "map_of (map (\<lambda>e. (e, f e)) names) k = None" using assms by (simp add: map_of_eq_None_iff image_image)
  then have col: "map_of (map (\<lambda>e. (e, f e)) names @ [(k, v)]) k = Some v" by (simp add: map_add_def)
  show ?thesis unfolding to_algorithm_raw_data_def col option.case Let_def cols by (simp add: comp_def)
qed

section \<open>Properties\<close>

text \<open>C17. A period the pre-flight accepts always yields data an algorithm can run on: the pivot of
  the readings succeeds, the converter returns one row per consuming meter on the grid of the
  period, in the order of the summary, within the size limit; the production profile is repeated
  on every row; each row adds up to the consumption the summary reports for the meter, which is
  positive, and the profile to the total injection, which is positive. Null volumes count as
  zero. The meter numbers must not be the reserved column name.\<close>

theorem preflight_guarantees_data:
  assumes "pf_ok (crm_evaluate (summarize midnight q tab))" "INJECTION_COLUMN \<notin> mc_ean ` set tab"
  shows "\<exists>df rd v. build_dataframe (fetch_rows midnight q tab)
        (pf_consumer_eans (crm_evaluate (summarize midnight q tab))) = Inr df \<and>
      to_algorithm_raw_data df INJECTION_COLUMN = Inr rd \<and>
      rd_consumer_names rd = consumer_eans (summarize midnight q tab) \<and> rd_C rd \<noteq> [] \<and>
      list_all (\<lambda>r. length r = cs_grid_size (summarize midnight q tab)) (rd_C rd) \<and>
      length (rd_C rd) * cs_grid_size (summarize midnight q tab) \<le> MAX_PROBLEM_CELLS \<and>
      rd_VA rd = replicate (length (rd_C rd)) v \<and> length v = cs_grid_size (summarize midnight q tab) \<and>
      map sum_list (rd_C rd) = map ec_consumption_kwh (filter is_consumer (cs_eans (summarize midnight q tab))) \<and>
      list_all (\<lambda>r. 0 < sum_list r) (rd_C rd) \<and>
      sum_list v = total_injection_kwh (summarize midnight q tab) \<and> 0 < sum_list v"
proof -
  let ?s = "summarize midnight q tab"
  let ?rows = "fetch_rows midnight q tab" and ?idx = "timestamps (query_rows midnight q tab)"
  let ?eans = "consumer_eans ?s"
  let ?C = "map (\<lambda>e. map (\<lambda>t. cell ?rows t e) ?idx) ?eans" and ?v = "map (injection_at ?rows) ?idx"
  let ?df = "map (\<lambda>e. (e, map (\<lambda>t. cell ?rows t e) ?idx)) ?eans @ [(INJECTION_COLUMN, ?v)]"
  let ?rd = "\<lparr> rd_C = ?C, rd_VA = replicate (length ?C) ?v, rd_consumer_names = ?eans \<rparr>"
  note ok = evaluate_ok [OF assms(1)] and pivot = pivot_of_accepted [OF assms]
  have rd: "to_algorithm_raw_data ?df INJECTION_COLUMN = Inr ?rd"
    using wide_raw_data [OF pivot(3)] by simp
  have vols: "map sum_list ?C = map ec_consumption_kwh (filter is_consumer (cs_eans ?s))"
    unfolding consumer_volumes map_map comp_def
  proof (intro map_cong refl)
    fix e show "sum_list (map (\<lambda>t. cell ?rows t e) ?idx) =
        sum_list (map (\<lambda>r. coalesce0 (mc_gross r)) (filter (\<lambda>r. mc_ean r = e) (query_rows midnight q tab)))"
      using column_sum [OF pivot(2), of e]
        fetch_rows_sum [of "\<lambda>r. cr_ean r = e" "\<lambda>r. mc_ean r = e" cr_gross "\<lambda>r. coalesce0 (mc_gross r)" midnight q tab]
      by (simp add: fetch_rows_index)
  qed
  have pos: "list_all (\<lambda>r. 0 < sum_list r) ?C"
  proof -
    have "\<forall>x\<in>set (map sum_list ?C). 0 < x" unfolding vols by (auto simp: is_consumer_def)
    then show ?thesis by (simp add: list_all_iff)
  qed
  have inj: "sum_list ?v = total_injection_kwh ?s"
    using injection_sum [of ?rows]
      fetch_rows_sum [of "\<lambda>_. True" "\<lambda>_. True" cr_inj_gross "\<lambda>r. coalesce0 (mc_inj_gross r)" midnight q tab]
    by (simp add: fetch_rows_index summary_injection)
  show ?thesis
    by (rule exI [of _ ?df], rule exI [of _ ?rd], rule exI [of _ ?v])
       (use pivot(1) rd ok(4-7) vols pos inj summary_fields(2) in \<open>simp add: list_all_iff comp_def\<close>)
qed

definition example_table :: "meter_row list" where
  "example_table =
     [\<lparr> mc_community = 7, mc_operation = 1, mc_timestamp = 0, mc_ean = ''541'', mc_gross = Some 2, mc_inj_gross = None \<rparr>,
      \<lparr> mc_community = 7, mc_operation = 1, mc_timestamp = 0, mc_ean = ''542'', mc_gross = None, mc_inj_gross = Some 3 \<rparr>,
      \<lparr> mc_community = 7, mc_operation = 1, mc_timestamp = 900, mc_ean = ''541'', mc_gross = Some 1, mc_inj_gross = Some 1 \<rparr>,
      \<lparr> mc_community = 8, mc_operation = 1, mc_timestamp = 900, mc_ean = ''543'', mc_gross = Some 9, mc_inj_gross = Some 1 \<rparr>]"

definition example_query :: crm_query where
  "example_query = \<lparr> q_community = 7, q_operation = 1, q_start = 0, q_end = 0 \<rparr>"

abbreviation example_summary :: crm_summary where
  "example_summary \<equiv> summarize (\<lambda>d. d * 86400) example_query example_table"

lemma example_summary_eq:
  "example_summary =
     \<lparr> cs_eans = [\<lparr> ec_ean = ''541'', ec_row_count = 2, ec_distinct_ts = 2, ec_consumption_kwh = 3, ec_injection_kwh = 1 \<rparr>,
          \<lparr> ec_ean = ''542'', ec_row_count = 1, ec_distinct_ts = 1, ec_consumption_kwh = 0, ec_injection_kwh = 3 \<rparr>],
       cs_grid_size = 2, cs_first_timestamp = Some 0, cs_last_timestamp = Some 900 \<rparr>"
  by code_simp

lemma example_summary_ok: "pf_ok (crm_evaluate example_summary)" "INJECTION_COLUMN \<notin> mc_ean ` set example_table"
proof -
  show "pf_ok (crm_evaluate example_summary)" unfolding example_summary_eq evaluate_ok_iff
    by (simp add: total_rows_def MAX_READING_ROWS_def consumer_eans_def is_consumer_def
        MAX_PROBLEM_CELLS_def total_injection_kwh_def)
qed (simp add: example_table_def INJECTION_COLUMN_def)

theorem preflight_guarantees_data_witness:
  "\<exists>df rd v. build_dataframe (fetch_rows (\<lambda>d. d * 86400) example_query example_table)
        (pf_consumer_eans (crm_evaluate example_summary)) = Inr df \<and>
      to_algorithm_raw_data df INJECTION_COLUMN = Inr rd \<and>
      rd_consumer_names rd = consumer_eans example_summary \<and> rd_C rd \<noteq> [] \<and>
      list_all (\<lambda>r. length r = cs_grid_size example_summary) (rd_C rd) \<and>
      length (rd_C rd) * cs_grid_size example_summary \<le> MAX_PROBLEM_CELLS \<and>
      rd_VA rd = replicate (length (rd_C rd)) v \<and> length v = cs_grid_size example_summary \<and>
      map sum_list (rd_C rd) = map ec_consumption_kwh (filter is_consumer (cs_eans example_summary)) \<and>
      list_all (\<lambda>r. 0 < sum_list r) (rd_C rd) \<and> sum_list v = total_injection_kwh example_summary \<and> 0 < sum_list v"
  by (rule preflight_guarantees_data [OF example_summary_ok])

text \<open>The pre-flight refuses a period exactly for the reasons it names: without any reading, with
  more readings than the limit, with a meter that reports an instant twice, without a consuming
  meter, with more values than a solver may hold, or without injected energy. Gaps are reported
  and never refused.\<close>

theorem preflight_blocks_iff:
  "pf_ok (crm_evaluate s) \<longleftrightarrow>
     cs_eans s \<noteq> [] \<and> total_rows s \<le> MAX_READING_ROWS \<and>
     list_all (\<lambda>e. ec_row_count e = ec_distinct_ts e) (cs_eans s) \<and>
     list_ex (\<lambda>e. 0 < ec_consumption_kwh e) (cs_eans s) \<and>
     length (consumer_eans s) * cs_grid_size s \<le> MAX_PROBLEM_CELLS \<and> 0 < total_injection_kwh s"
  by (rule evaluate_ok_iff)

end
