(* ===== verification/Realtime.thy ===== *)
theory Realtime
  imports AppErrors PyText
begin

text \<open>
  The realtime publisher: channel names (\<open>core/realtime/channels.py\<close>), envelopes
  (\<open>core/realtime/envelope.py\<close>) and the redaction of the broker address
  (\<open>core/realtime/bus.py\<close>). The lemmas show that a channel name determines its audience.
\<close>

section \<open>Channels\<close>

datatype tier = MEMBER | MANAGER

definition tier_value :: "tier \<Rightarrow> string" where
  "tier_value t = (case t of MEMBER \<Rightarrow> ''MEMBER'' | MANAGER \<Rightarrow> ''MANAGER'')"

definition PREFIX :: string where
  "PREFIX = ''notify:v1''"

definition user_channel :: "int \<Rightarrow> string" where
  "user_channel uid = PREFIX @ '':u:'' @ show_int uid"

definition community_channel :: "int \<Rightarrow> tier \<Rightarrow> string" where
  "community_channel cid t = PREFIX @ '':c:'' @ show_int cid @ '':'' @ tier_value t"

datatype audience = UserAudience int | UsersAudience "int list" | CommunityAudience int tier

text \<open>\<open>dict.fromkeys\<close> keeps the first occurrence of every element.\<close>

fun dedup :: "'a list \<Rightarrow> 'a list" where
  "dedup [] = []"
| "dedup (x # xs) = x # dedup (filter (\<lambda>y. y \<noteq> x) xs)"

fun channels :: "audience \<Rightarrow> string list" where
  "channels (UserAudience uid) = [user_channel uid]"
| "channels (UsersAudience uids) = map user_channel (dedup uids)"
| "channels (CommunityAudience cid t) = [community_channel cid t]"

section \<open>Envelopes\<close>

definition MAX_ENVELOPE_BYTES :: nat where
  "MAX_ENVELOPE_BYTES = 1024"

definition TOPICS :: "string list" where
  "TOPICS = [''notification.created'', ''generation.finished'', ''simulation.finished'',
     ''billing_run.finished'', ''session.revoked'']"

definition is_scalar :: "json \<Rightarrow> bool" where
  "is_scalar v = (case v of JList _ \<Rightarrow> False | JObj _ \<Rightarrow> False | _ \<Rightarrow> True)"

definition opt_int :: "int option \<Rightarrow> json" where
  "opt_int x = (case x of None \<Rightarrow> JNull | Some i \<Rightarrow> JInt i)"

text \<open>
  \<open>build_envelope\<close>: the fresh id, the time and the length of the serialised envelope are
  parameters; a resource is its kind and the text of its id.
\<close>

definition build_envelope ::
  "(json \<Rightarrow> nat) \<Rightarrow> string \<Rightarrow> string \<Rightarrow> string \<Rightarrow> string \<times> string option \<Rightarrow> (string \<times> json) list \<Rightarrow> int option \<Rightarrow> json option" where
  "build_envelope byte_length token now topic resource hint scope =
     (if topic \<notin> set TOPICS then None
      else (case resource of
              (kind, None) \<Rightarrow> None
            | (kind, Some ref_id) \<Rightarrow>
                if kind = [] then None
                else if \<not> list_all (\<lambda>(_, v). is_scalar v) hint then None
                else (let envelope = JObj [(''v'', JInt 1), (''id'', JStr token), (''topic'', JStr topic),
                        (''at'', JStr now), (''scope'', JObj [(''community_id'', opt_int scope)]),
                        (''ref'', JObj [(''kind'', JStr kind), (''id'', JStr ref_id)]), (''hint'', JObj hint)]
                      in if byte_length envelope > MAX_ENVELOPE_BYTES then None else Some envelope)))"

section \<open>Redaction of the broker address\<close>

text \<open>\<open>str.partition(sep)\<close> and \<open>str.rpartition\<close> at a single character.\<close>

fun partition_at :: "string \<Rightarrow> string \<Rightarrow> (string \<times> string) option" where
  "partition_at sep [] = None"
| "partition_at sep (c # cs) =
     (if take (length sep) (c # cs) = sep then Some ([], drop (length sep) (c # cs))
      else map_option (\<lambda>(a, b). (c # a, b)) (partition_at sep cs))"

definition after_last :: "char \<Rightarrow> string \<Rightarrow> string" where
  "after_last ch s = rev (takeWhile (\<lambda>c. c \<noteq> ch) (rev s))"

definition redacted_url :: "string \<Rightarrow> string" where
  "redacted_url url =
     (case partition_at ''://'' url of
        None \<Rightarrow> url
      | Some (scheme, rest) \<Rightarrow>
          if CHR ''@'' \<notin> set rest then url
          else scheme @ ''://***@'' @ after_last (CHR ''@'') rest)"

section \<open>Channel names are unambiguous\<close>

lemma split_at_colon:
  assumes "CHR '':'' \<notin> set a" "CHR '':'' \<notin> set b" "a @ '':'' @ x = b @ '':'' @ y"
  shows "a = b \<and> x = y"
proof -
  have "takeWhile (\<lambda>c. c \<noteq> CHR '':'') (a @ '':'' @ x) = a" "takeWhile (\<lambda>c. c \<noteq> CHR '':'') (b @ '':'' @ y) = b"
    using assms(1,2) by (auto simp: takeWhile_append intro!: takeWhile_eq_all_conv [THEN iffD2])
  with assms(3) show ?thesis by simp
qed

lemma community_channel_inject: "community_channel c t = community_channel c' t' \<longleftrightarrow> c = c' \<and> t = t'"
proof
  assume "community_channel c t = community_channel c' t'"
  then have "show_int c @ '':'' @ tier_value t = show_int c' @ '':'' @ tier_value t'"
    by (simp add: community_channel_def)
  from split_at_colon [OF show_int_no_colon show_int_no_colon this] show "c = c' \<and> t = t'"
    by (auto simp: show_int_inject tier_value_def split: tier.splits)
qed simp

lemma user_channel_inject: "user_channel u = user_channel u' \<longleftrightarrow> u = u'"
  by (simp add: user_channel_def show_int_inject)

lemma channel_families: "user_channel u \<noteq> community_channel c t"
  by (simp add: user_channel_def community_channel_def PREFIX_def)

lemma dedup_set: "set (dedup xs) = set xs"
  by (induction xs rule: dedup.induct) auto

section \<open>Properties\<close>

text \<open>A channel name determines whom it addresses: two audiences share a channel only when both
  address the same user, or the same tier of the same community. An event for one community is
  never published on a channel of another.\<close>

theorem channels_separate_audiences:
  assumes "ch \<in> set (channels a)" "ch \<in> set (channels b)"
  shows "(\<exists>u. ch = user_channel u \<and> (a = UserAudience u \<or> (\<exists>us. a = UsersAudience us \<and> u \<in> set us)) \<and>
      (b = UserAudience u \<or> (\<exists>us. b = UsersAudience us \<and> u \<in> set us))) \<or>
    (\<exists>c t. ch = community_channel c t \<and> a = CommunityAudience c t \<and> b = CommunityAudience c t)"
  using assms channel_families channel_families [symmetric]
  by (cases a; cases b) (auto simp: dedup_set user_channel_inject community_channel_inject)

theorem channels_separate_audiences_witness:
  "user_channel 7 \<in> set (channels (UsersAudience [3, 7, 3])) \<and>
   ((\<exists>u. user_channel 7 = user_channel u \<and>
      (UserAudience 7 = UserAudience u \<or> (\<exists>us. UserAudience 7 = UsersAudience us \<and> u \<in> set us)) \<and>
      (UsersAudience [3, 7, 3] = UserAudience u \<or> (\<exists>us. UsersAudience [3, 7, 3] = UsersAudience us \<and> u \<in> set us))) \<or>
    (\<exists>c t. user_channel 7 = community_channel c t \<and> UserAudience 7 = CommunityAudience c t \<and>
      UsersAudience [3, 7, 3] = CommunityAudience c t))"
proof -
  have 1: "user_channel 7 \<in> set (channels (UserAudience 7))" by simp
  have 2: "user_channel 7 \<in> set (channels (UsersAudience [3, 7, 3]))" by (simp add: dedup_set)
  show ?thesis by (intro conjI 2) (rule channels_separate_audiences [OF 1 2])
qed

end
