(* ===== verification/Platform.thy ===== *)
theory Platform
  imports CrmData Realtime
begin

text \<open>
  The world the service and the worker run in: the local database with the generations and their
  generated keys, the CRM database with the audit log, the object store, the published realtime
  events and the replies to the message broker. Every call to an outside service consumes one
  entry of an oracle that decides whether the call works or how it fails, so that statements
  about all worlds cover every pattern of failures.

  On top of it: the object storage client (\<open>core/storage/client.py\<close>), the audit log service
  (\<open>core/audit_log\<close>), the tables of \<open>shared/models/local_models.py\<close>, and \<open>emit\<close> of
  \<open>core/realtime/bus.py\<close>.
\<close>

section \<open>Tables\<close>

record generation_row =
  g_id :: int
  g_name :: string
  g_community :: int
  g_source :: data_source
  g_file_storage_key :: "string option"
  g_file_name :: "string option"
  g_injection_name :: "string option"
  g_sharing_operation :: "int option"
  g_period_start :: "int option"
  g_period_end :: "int option"
  g_algorithm_name :: string
  g_algorithm_version :: string
  g_inputs :: "json option"
  g_status :: generation_status
  g_error_message :: "string option"
  g_data_warnings :: "incomplete_meter list option"

record consumer_row =
  crow_id :: int
  crow_name :: string
  crow_percentage :: real
  crow_community :: int

record iteration_row =
  irow_id :: int
  irow_number :: nat
  irow_percentage :: real
  irow_surplus_total :: real
  irow_community :: int
  irow_consumers :: "consumer_row list"

record key_row =
  k_id :: int
  k_name :: string
  k_description :: string
  k_surplus_total :: real
  k_generation :: int
  k_community :: int
  k_iterations :: "iteration_row list"

text \<open>The tables of the CRM database the service writes to (\<open>shared/models/crm_models.py\<close>).\<close>

record crm_consumer_row =
  cc_name :: string
  cc_percentage :: real
  cc_community :: int

record crm_iteration_row =
  ci_number :: nat
  ci_percentage :: real
  ci_community :: int
  ci_consumers :: "crm_consumer_row list"

record crm_key_row =
  ck_id :: int
  ck_name :: string
  ck_description :: string
  ck_community :: int
  ck_iterations :: "crm_iteration_row list"

record audit_row =
  a_community :: "int option"
  a_action :: string
  a_source :: string
  a_entity_type :: string
  a_entity_id :: "string option"
  a_user_id :: "int option"
  a_user_email :: "string option"
  a_payload :: "(string \<times> json) list"

text \<open>
  The tables of the CRM database the service reads (\<open>core/database/models.py\<close>). The database keeps the
  id of a community, its id at the identity provider, and the pair of community and feature unique.
\<close>

record community_row =
  cm_id :: int
  cm_name :: string
  cm_auth_community_id :: string

record subscription_row =
  sb_id :: int
  sb_community :: int
  sb_feature :: string
  sb_is_active :: bool

section \<open>The world\<close>

datatype outcome = Works | ClientError string "nat option" | Transport string | Fails string

datatype reply = Ack | Nak nat

record world =
  clock :: nat
  outcomes :: "nat \<Rightarrow> outcome"
  generations_t :: "int \<Rightarrow> generation_row option"
  next_generation_id :: int
  keys_t :: "key_row list"
  next_key_id :: int
  next_iteration_id :: int
  next_consumer_id :: int
  crm_keys_t :: "crm_key_row list"
  next_crm_key_id :: int
  audit_t :: "audit_row list"
  audit_staged :: "audit_row list"
  app_users :: "(string \<times> int \<times> string) list"
  communities :: "community_row list"
  subscriptions :: "subscription_row list"
  auth_user :: "string option"
  auth_community :: "string option"
  user_role :: "string option"
  locale_code :: string
  context_community :: "int option"
  meters :: "meter_row list"
  operations :: "(int \<times> int) list"
  store :: "string \<Rightarrow> string option"
  published :: "(string \<times> json) list"
  realtime_on :: bool
  replies :: "reply list"
  queue :: "(string \<times> json) list"

definition tick :: "world \<Rightarrow> world" where
  "tick w = w \<lparr> clock := Suc (clock w) \<rparr>"

text \<open>An outside call: its outcome, and the state change \<open>f\<close> when it works.\<close>

definition outside :: "(outcome \<Rightarrow> 'e) \<Rightarrow> (world \<Rightarrow> 'a \<times> world) \<Rightarrow> (world, 'e, 'a) act" where
  "outside raise f = (\<lambda>w.
     (case outcomes w (clock w) of
        Works \<Rightarrow> (let (x, w') = f (tick w) in (Inr x, w'))
      | bad \<Rightarrow> (Inl (raise bad), tick w)))"

definition outcome_message :: "outcome \<Rightarrow> string" where
  "outcome_message x = (case x of Works \<Rightarrow> '''' | ClientError c _ \<Rightarrow> c | Transport m \<Rightarrow> m | Fails m \<Rightarrow> m)"

text \<open>\<open>try: m except e: h e\<close>, and a block whose exceptions are swallowed.\<close>

definition acatch :: "('w, 'e, 'a) act \<Rightarrow> ('e \<Rightarrow> ('w, 'f, 'a) act) \<Rightarrow> ('w, 'f, 'a) act" where
  "acatch m h = (\<lambda>w. case m w of (Inl e, w') \<Rightarrow> h e w' | (Inr x, w') \<Rightarrow> (Inr x, w'))"

definition aget :: "('w \<Rightarrow> 'a) \<Rightarrow> ('w, 'e, 'a) act" where
  "aget f = (\<lambda>w. (Inr (f w), w))"

definition amodify :: "('w \<Rightarrow> 'w) \<Rightarrow> ('w, 'e, unit) act" where
  "amodify f = (\<lambda>w. (Inr (), f w))"

section \<open>Object storage\<close>

datatype storage_error = ObjectNotFound string | TransientStorageError string | StorageOther string

definition NOT_FOUND_CODES :: "string list" where
  "NOT_FOUND_CODES = [''NoSuchKey'', ''NoSuchBucket'', ''404'']"

definition classify_download :: "string \<Rightarrow> outcome \<Rightarrow> storage_error" where
  "classify_download k bad =
     (case bad of
        ClientError code st \<Rightarrow>
          if code \<in> set NOT_FOUND_CODES \<or> st = Some 404 then ObjectNotFound k
          else (case st of
                  Some n \<Rightarrow> if 500 \<le> n \<and> n < 600 then TransientStorageError (''storage '' @ show_nat n @ '' for '' @ k)
                            else StorageOther code
                | None \<Rightarrow> StorageOther code)
      | Transport m \<Rightarrow> TransientStorageError (''storage transport: '' @ m)
      | Fails m \<Rightarrow> StorageOther m
      | Works \<Rightarrow> StorageOther '''')"

definition upload :: "string \<Rightarrow> string \<Rightarrow> (world, string, unit) act" where
  "upload k content = outside outcome_message (\<lambda>w. ((), w \<lparr> store := (store w)(k \<mapsto> content) \<rparr>))"

text \<open>A call that works on a missing key is answered with \<open>NoSuchKey\<close>.\<close>

definition download :: "string \<Rightarrow> (world, storage_error, string) act" where
  "download k =
     abind (outside (classify_download k) (\<lambda>w. (store w k, w))) (\<lambda>found.
       (case found of
          Some content \<Rightarrow> areturn content
        | None \<Rightarrow> araise (classify_download k (ClientError ''NoSuchKey'' (Some 404)))))"

definition delete_object :: "string \<Rightarrow> (world, 'e, unit) act" where
  "delete_object k =
     acatch (outside id (\<lambda>w. ((), w \<lparr> store := (store w)(k := None) \<rparr>))) (\<lambda>_. areturn ())"

section \<open>Audit log\<close>

definition AUDIT_LOG_DEFAULT_SOURCE :: string where
  "AUDIT_LOG_DEFAULT_SOURCE = ''allocation-key-generation''"

definition GENERATION_CREATED :: string where "GENERATION_CREATED = ''allocation_key_generation.generation.created''"
definition GENERATION_QUEUE_FAILED :: string where
  "GENERATION_QUEUE_FAILED = ''allocation_key_generation.generation.queue_failed''"
definition GENERATION_SUCCEEDED :: string where
  "GENERATION_SUCCEEDED = ''allocation_key_generation.generation.succeeded''"
definition GENERATION_FAILED :: string where "GENERATION_FAILED = ''allocation_key_generation.generation.failed''"
definition GENERATION_DELETED :: string where "GENERATION_DELETED = ''allocation_key_generation.generation.deleted''"
definition ALLOCATION_KEY_SAVED :: string where
  "ALLOCATION_KEY_SAVED = ''allocation_key_generation.allocation_key.saved''"
definition ALLOCATION_KEY_GENERATED_DELETED :: string where
  "ALLOCATION_KEY_GENERATED_DELETED = ''allocation_key_generation.allocation_key_generated.deleted''"

record audit_input =
  ai_action :: string
  ai_entity_type :: string
  ai_entity_id :: "string option"
  ai_payload :: "(string \<times> json) list"
  ai_source :: "string option"

definition audit_row_of :: "audit_input \<Rightarrow> int option \<Rightarrow> world \<Rightarrow> audit_row" where
  "audit_row_of entry id_community w =
     (let user = (case auth_user w of None \<Rightarrow> None | Some a \<Rightarrow> if a = [] then None else map_of (app_users w) a)
      in \<lparr> a_community = (case id_community of Some c \<Rightarrow> Some c | None \<Rightarrow> context_community w),
           a_action = ai_action entry,
           a_source = (case ai_source entry of None \<Rightarrow> AUDIT_LOG_DEFAULT_SOURCE | Some s \<Rightarrow> if s = [] then AUDIT_LOG_DEFAULT_SOURCE else s),
           a_entity_type = ai_entity_type entry,
           a_entity_id = ai_entity_id entry, a_user_id = map_option fst user, a_user_email = map_option snd user,
           a_payload = ai_payload entry \<rparr>)"

text \<open>\<open>AuditLogService.log\<close>: stages the row on the CRM session; failures are swallowed.\<close>

definition audit_log :: "audit_input \<Rightarrow> int option \<Rightarrow> (world, 'e, unit) act" where
  "audit_log entry id_community =
     acatch (outside id (\<lambda>w. ((), w \<lparr> audit_staged := audit_staged w @ [audit_row_of entry id_community w] \<rparr>)))
       (\<lambda>_. areturn ())"

text \<open>A CRM session: opened with nothing staged; a commit makes the staged rows durable; closing it
  rolls back what was not committed. Sessions nest; the outer one is untouched by the inner one.\<close>

definition crm_commit :: "(world, string, unit) act" where
  "crm_commit =
     outside outcome_message (\<lambda>w. ((), w \<lparr> audit_t := audit_t w @ audit_staged w, audit_staged := [] \<rparr>))"

definition with_crm_session :: "(world, 'e, 'a) act \<Rightarrow> (world, 'e, 'a) act" where
  "with_crm_session body = (\<lambda>w.
     (case body (w \<lparr> audit_staged := [] \<rparr>) of (r, w') \<Rightarrow> (r, w' \<lparr> audit_staged := audit_staged w \<rparr>)))"

section \<open>Realtime events\<close>

fun publish_all :: "string list \<Rightarrow> json \<Rightarrow> (world, outcome, unit) act" where
  "publish_all [] body = areturn ()"
| "publish_all (ch # chs) body =
     abind (outside id (\<lambda>w. ((), w \<lparr> published := published w @ [(ch, body)] \<rparr>))) (\<lambda>_. publish_all chs body)"

text \<open>
  \<open>emit\<close> never raises. The fresh id and the time of an envelope do not matter to anyone here and
  are left empty; the byte length of the serialised envelope is a parameter.
\<close>

definition emit ::
  "(json \<Rightarrow> nat) \<Rightarrow> string \<Rightarrow> audience \<Rightarrow> string \<times> string option \<Rightarrow> (string \<times> json) list \<Rightarrow> int option \<Rightarrow> (world, 'e, unit) act" where
  "emit byte_length topic aud resource hint scope = (\<lambda>w.
     if \<not> realtime_on w then (Inr (), w)
     else (case build_envelope byte_length '''' '''' topic resource hint scope of
             None \<Rightarrow> (Inr (), w)
           | Some envelope \<Rightarrow> acatch (publish_all (channels aud) envelope) (\<lambda>_. areturn ()) w))"

section \<open>Lemmas\<close>

text \<open>What an action leaves alone: the field \<open>f\<close> of the world is the same afterwards.\<close>

definition keeps :: "('w \<Rightarrow> 'f) \<Rightarrow> ('w, 'e, 'a) act \<Rightarrow> bool" where
  "keeps f m \<longleftrightarrow> (\<forall>w. f (snd (m w)) = f w)"

named_theorems keeps_intros "actions that leave a field of the world alone"

lemma keeps_pure [keeps_intros]: "keeps f (areturn x)" "keeps f (araise e)" "keeps f (alift r)" "keeps f (aget g)"
  by (simp_all add: keeps_def areturn_def araise_def alift_def aget_def)

lemma keeps_bind [keeps_intros]: "keeps f m \<Longrightarrow> (\<And>x. keeps f (g x)) \<Longrightarrow> keeps f (abind m g)"
  unfolding keeps_def abind_def by (auto split: prod.splits sum.splits) (metis snd_conv)+

lemma keeps_catch [keeps_intros]: "keeps f m \<Longrightarrow> (\<And>e. keeps f (h e)) \<Longrightarrow> keeps f (acatch m h)"
  unfolding keeps_def acatch_def by (auto split: prod.splits sum.splits) (metis snd_conv)+

lemma keeps_if [keeps_intros]: "keeps f m \<Longrightarrow> keeps f m' \<Longrightarrow> keeps f (if b then m else m')"
  by simp

lemma keeps_amodify: "(\<And>w. f (g w) = f w) \<Longrightarrow> keeps f (amodify g)"
  by (simp add: keeps_def amodify_def)

lemma keeps_outside:
  assumes "\<And>w. f (tick w) = f w" "\<And>w. f (snd (g w)) = f w"
  shows "keeps f (outside r g)"
  using assms unfolding keeps_def outside_def
  by (auto simp: Let_def split: outcome.splits prod.splits) (metis snd_conv)+

lemma keeps_atry [keeps_intros]: "keeps f m \<Longrightarrow> keeps f (atry m)"
  unfolding keeps_def atry_def by (auto split: prod.splits) (metis snd_conv)

lemma keeps_case_option [keeps_intros]:
  "keeps f m \<Longrightarrow> (\<And>x. keeps f (g x)) \<Longrightarrow> keeps f (case opt of None \<Rightarrow> m | Some x \<Rightarrow> g x)"
  by (cases opt) simp_all

lemma keeps_case_sum [keeps_intros]:
  "(\<And>e. keeps f (h e)) \<Longrightarrow> (\<And>x. keeps f (g x)) \<Longrightarrow> keeps f (case r of Inl e \<Rightarrow> h e | Inr x \<Rightarrow> g x)"
  by (cases r) simp_all

lemma valid_keeps: "keeps f m \<Longrightarrow> valid (\<lambda>w. f w = c) m (\<lambda>_ w. f w = c) (\<lambda>_ w. f w = c)"
  unfolding valid_def keeps_def by (auto split: prod.splits sum.splits) (metis snd_conv)+

lemma valid_keeping:
  assumes "keeps f m" "valid (\<lambda>_. True) m (\<lambda>_ _. True) (\<lambda>e _. X e)"
  shows "valid (\<lambda>w. f w = c) m (\<lambda>_ w. f w = c) (\<lambda>e w. f w = c \<and> X e)"
  using valid_conj [OF valid_keeps [OF assms(1)] assms(2), of c] by simp

lemma valid_outside:
  assumes "\<And>w. P w \<Longrightarrow> Q (fst (f (tick w))) (snd (f (tick w)))" "\<And>w bad. P w \<Longrightarrow> bad \<noteq> Works \<Longrightarrow> X (raise bad) (tick w)"
  shows "valid P (outside raise f) Q X"
  using assms unfolding valid_def outside_def by (auto simp: case_prod_beta Let_def split: outcome.splits)

section \<open>A concrete world\<close>

text \<open>Empty tables, and outside services that always work.\<close>

definition quiet_world :: world where
  "quiet_world = \<lparr> clock = 0, outcomes = (\<lambda>_. Works), generations_t = (\<lambda>_. None), next_generation_id = 1,
     keys_t = [], next_key_id = 1, next_iteration_id = 1, next_consumer_id = 1, crm_keys_t = [], next_crm_key_id = 1, audit_t = [], audit_staged = [], app_users = [],
     communities = [], subscriptions = [], auth_user = None, auth_community = None, user_role = None,
     locale_code = ''fr_FR'', context_community = None, meters = [], operations = [], store = (\<lambda>_. None),
     published = [], realtime_on = False, replies = [], queue = [] \<rparr>"

definition pending_file_row :: generation_row where
  "pending_file_row = \<lparr> g_id = 5, g_name = ''run'', g_community = 7, g_source = FILE,
     g_file_storage_key = Some ''generations/5.csv'', g_file_name = Some ''data.csv'', g_injection_name = Some ''pv'',
     g_sharing_operation = None, g_period_start = None, g_period_end = None, g_algorithm_name = ''brute_force'',
     g_algorithm_version = ''1.0.0'', g_inputs = Some (JObj [(''iterations'', JInt 1)]), g_status = PENDING,
     g_error_message = None, g_data_warnings = None \<rparr>"

definition pending_world :: world where
  "pending_world = quiet_world \<lparr> generations_t := [5 \<mapsto> pending_file_row],
     store := [''generations/5.csv'' \<mapsto> ''a,pv''] \<rparr>"

end
