(* ===== verification/ApiRepository.thy ===== *)
theory ApiRepository
  imports Platform
begin

text \<open>
  Reading and writing the tables from the API: the community scope
  (\<open>core/database/with_community.py\<close>), the repository (\<open>api/generation/repository.py\<close>), the CRM
  repository (\<open>shared/crm_repository.py\<close>), the schemas and mappers (\<open>api/generation/schemas.py\<close>,
  \<open>api/generation/mappers.py\<close>) and the paginated responses (\<open>core/api_response.py\<close>).

  What the database decides is a parameter (\<open>db_env\<close>): the collation of names, and the answer to
  an ORDER BY on the surplus subquery, which the statement never joins. Rows that the requested
  order does not distinguish keep the order of their ids.
\<close>

record db_env =
  name_le :: "string \<Rightarrow> string \<Rightarrow> bool"
  surplus_order :: "(string \<times> bool) list \<Rightarrow> key_row list \<Rightarrow> string + key_row list"

definition raise_db :: "outcome \<Rightarrow> exc" where
  "raise_db x = OtherException (outcome_message x)"

section \<open>Scope and order\<close>

definition with_community_scope :: "int option \<Rightarrow> ('r \<Rightarrow> int) \<Rightarrow> 'r list \<Rightarrow> 'r list" where
  "with_community_scope internal_id id_community rows =
     (case internal_id of None \<Rightarrow> [] | Some c \<Rightarrow> filter (\<lambda>r. id_community r = c) rows)"

text \<open>The rows of the generation table: ids come from its sequence.\<close>

definition generation_rows :: "world \<Rightarrow> generation_row list" where
  "generation_rows w = List.map_filter (generations_t w) [1..next_generation_id w - 1]"

definition sort_direction :: "(string \<times> string) list \<Rightarrow> string \<Rightarrow> bool option" where
  "sort_direction q key =
     (case map_of q (''sort_'' @ key) of
        None \<Rightarrow> None
      | Some direction \<Rightarrow>
          if lower direction = ''desc'' then Some True
          else if lower direction = ''asc'' then Some False else None)"

definition sort_clauses :: "(string \<times> string) list \<Rightarrow> string list \<Rightarrow> (string \<times> bool) list" where
  "sort_clauses q keys = List.map_filter (\<lambda>k. map_option (Pair k) (sort_direction q k)) keys"

text \<open>Insertion into a sorted list, after the rows that compare equal.\<close>

fun insert_by :: "('a \<Rightarrow> 'a \<Rightarrow> bool) \<Rightarrow> 'a \<Rightarrow> 'a list \<Rightarrow> 'a list" where
  "insert_by leq x [] = [x]"
| "insert_by leq x (y # ys) = (if leq x y then x # y # ys else y # insert_by leq x ys)"

definition sort_by :: "('a \<Rightarrow> 'a \<Rightarrow> bool) \<Rightarrow> 'a list \<Rightarrow> 'a list" where
  "sort_by leq xs = foldr (insert_by leq) xs []"

fun lex_le :: "('a \<Rightarrow> 'a \<Rightarrow> bool) list \<Rightarrow> 'a \<Rightarrow> 'a \<Rightarrow> bool" where
  "lex_le [] x y = True"
| "lex_le (leq # leqs) x y = (if leq x y \<and> leq y x then lex_le leqs x y else leq x y)"

definition directed :: "bool \<Rightarrow> ('a \<Rightarrow> 'a \<Rightarrow> bool) \<Rightarrow> 'a \<Rightarrow> 'a \<Rightarrow> bool" where
  "directed descending leq x y = (if descending then leq y x else leq x y)"

definition page_of :: "int \<Rightarrow> int \<Rightarrow> 'r list \<Rightarrow> exc + 'r list" where
  "page_of page page_size rows =
     (if (page - 1) * page_size < 0 then Inl (OtherException ''OFFSET must not be negative'')
      else if page_size < 0 then Inl (OtherException ''LIMIT must not be negative'')
      else Inr (take (nat page_size) (drop (nat ((page - 1) * page_size)) rows)))"

section \<open>Repository\<close>

definition generation_column :: "db_env \<Rightarrow> string \<Rightarrow> generation_row \<Rightarrow> generation_row \<Rightarrow> bool" where
  "generation_column db col x y =
     (if col = ''id'' then g_id x \<le> g_id y
      else if col = ''name'' then name_le db (g_name x) (g_name y)
      else status_code (g_status x) \<le> status_code (g_status y))"

definition status_filter :: "(string \<times> string) list \<Rightarrow> exc + int option" where
  "status_filter q =
     (case map_of q ''status'' of
        None \<Rightarrow> Inr None
      | Some t \<Rightarrow> if t = [] then Inr None
          else (case py_int t of None \<Rightarrow> Inl (OtherException ''invalid literal for int()'') | Some i \<Rightarrow> Inr (Some i)))"

definition name_filter :: "(string \<times> string) list \<Rightarrow> ('r \<Rightarrow> string) \<Rightarrow> 'r list \<Rightarrow> 'r list" where
  "name_filter q name_of rows =
     (case map_of q ''name'' of
        None \<Rightarrow> rows
      | Some n \<Rightarrow> if n = [] then rows else filter (\<lambda>r. ilike (''%'' @ n @ ''%'') (name_of r)) rows)"

definition order_of :: "(string \<Rightarrow> 'r \<Rightarrow> 'r \<Rightarrow> bool) \<Rightarrow> (string \<times> bool) list \<Rightarrow> 'r \<Rightarrow> 'r \<Rightarrow> bool" where
  "order_of column clauses =
     (if clauses = [] then column ''id''
      else lex_le (map (\<lambda>(col, descending). directed descending (column col)) clauses))"

definition select_generations ::
  "db_env \<Rightarrow> int option \<Rightarrow> int option \<Rightarrow> (string \<times> string) list \<Rightarrow> generation_row list \<Rightarrow> generation_row list" where
  "select_generations db internal_id status q rows =
     (let named = name_filter q g_name (with_community_scope internal_id g_community rows);
          selected = (case status of None \<Rightarrow> named | Some i \<Rightarrow> filter (\<lambda>g. int (status_code (g_status g)) = i) named)
      in sort_by (order_of (generation_column db) (sort_clauses q [''id'', ''name'', ''status''])) selected)"

text \<open>Two statements: the count, then the page.\<close>

definition get_list_generations ::
  "db_env \<Rightarrow> int \<Rightarrow> int \<Rightarrow> (string \<times> string) list \<Rightarrow> (world, exc, generation_row list \<times> int) act" where
  "get_list_generations db page page_size q =
     abind (aget context_community) (\<lambda>internal_id.
     abind (alift (status_filter q)) (\<lambda>status.
     abind (outside raise_db (\<lambda>w. (length (select_generations db internal_id status q (generation_rows w)), w))) (\<lambda>count.
     abind (outside raise_db (\<lambda>w. (page_of page page_size (select_generations db internal_id status q (generation_rows w)), w))) (\<lambda>fetched.
     abind (alift fetched) (\<lambda>rows. areturn (rows, int count))))))"

definition key_column :: "db_env \<Rightarrow> string \<Rightarrow> key_row \<Rightarrow> key_row \<Rightarrow> bool" where
  "key_column db col x y = (if col = ''id'' then k_id x \<le> k_id y else name_le db (k_name x) (k_name y))"

definition select_keys ::
  "db_env \<Rightarrow> int option \<Rightarrow> int \<Rightarrow> (string \<times> string) list \<Rightarrow> key_row list \<Rightarrow> exc + key_row list" where
  "select_keys db internal_id gid q rows =
     (let selected = name_filter q k_name (with_community_scope internal_id k_community (filter (\<lambda>k. k_generation k = gid) rows));
          clauses = sort_clauses q [''id'', ''name'', ''surplus'']
      in if ''surplus'' \<in> set (map fst clauses)
         then (case surplus_order db clauses selected of Inl m \<Rightarrow> Inl (OtherException m) | Inr ks \<Rightarrow> Inr ks)
         else Inr (sort_by (order_of (key_column db) clauses) selected))"

definition get_allocation_keys_list ::
  "db_env \<Rightarrow> int \<Rightarrow> int \<Rightarrow> int \<Rightarrow> (string \<times> string) list \<Rightarrow> (world, exc, key_row list \<times> int) act" where
  "get_allocation_keys_list db gid page page_size q =
     abind (aget context_community) (\<lambda>internal_id.
     abind (outside raise_db (\<lambda>w. (select_keys db internal_id gid q (keys_t w), w))) (\<lambda>counted.
     abind (alift counted) (\<lambda>all_rows.
     abind (outside raise_db (\<lambda>w. (rbind (select_keys db internal_id gid q (keys_t w)) (page_of page page_size), w))) (\<lambda>fetched.
     abind (alift fetched) (\<lambda>rows. areturn (rows, int (length all_rows)))))))"

text \<open>\<open>scalar_one_or_none\<close> on a primary key.\<close>

definition one_or_none :: "'r list \<Rightarrow> 'r option" where
  "one_or_none rows = (case rows of [] \<Rightarrow> None | r # _ \<Rightarrow> Some r)"

definition repo_get_allocation_key :: "int \<Rightarrow> (world, exc, key_row option) act" where
  "repo_get_allocation_key id_key =
     abind (aget context_community) (\<lambda>internal_id.
     outside raise_db (\<lambda>w.
       (one_or_none (with_community_scope internal_id k_community (filter (\<lambda>k. k_id k = id_key) (keys_t w))), w)))"

definition repo_get_generation :: "int \<Rightarrow> (world, exc, generation_row option) act" where
  "repo_get_generation id_generation =
     abind (aget context_community) (\<lambda>internal_id.
     outside raise_db (\<lambda>w.
       (one_or_none (with_community_scope internal_id g_community
          (case generations_t w id_generation of None \<Rightarrow> [] | Some g \<Rightarrow> [g])), w)))"

text \<open>
  Writes. Flushing an INSERT takes an id from the sequence; the row becomes visible with the commit.
  Deleting a generation takes its keys along (ON DELETE CASCADE).
\<close>

definition create_generation :: "generation_row \<Rightarrow> (world, exc, generation_row) act" where
  "create_generation model =
     outside raise_db (\<lambda>w. (model \<lparr> g_id := next_generation_id w \<rparr>,
       w \<lparr> next_generation_id := next_generation_id w + 1 \<rparr>))"

definition commit_generation :: "generation_row \<Rightarrow> (world, exc, unit) act" where
  "commit_generation g =
     outside raise_db (\<lambda>w. ((), w \<lparr> generations_t := (generations_t w)(g_id g \<mapsto> g) \<rparr>))"

definition flush_statement :: "(world, exc, unit) act" where
  "flush_statement = outside raise_db (\<lambda>w. ((), w))"

definition commit_delete_generation :: "int \<Rightarrow> (world, exc, unit) act" where
  "commit_delete_generation gid =
     outside raise_db (\<lambda>w. ((), w \<lparr> generations_t := (generations_t w)(gid := None),
       keys_t := filter (\<lambda>k. k_generation k \<noteq> gid) (keys_t w) \<rparr>))"

definition commit_delete_key :: "int \<Rightarrow> (world, exc, unit) act" where
  "commit_delete_key kid =
     outside raise_db (\<lambda>w. ((), w \<lparr> keys_t := filter (\<lambda>k. k_id k \<noteq> kid) (keys_t w) \<rparr>))"

definition save_allocation_key :: "crm_key_row \<Rightarrow> (world, exc, crm_key_row) act" where
  "save_allocation_key k =
     outside raise_db (\<lambda>w. (k \<lparr> ck_id := next_crm_key_id w \<rparr>, w \<lparr> next_crm_key_id := next_crm_key_id w + 1 \<rparr>))"

definition commit_crm_key :: "crm_key_row \<Rightarrow> (world, exc, unit) act" where
  "commit_crm_key k =
     outside raise_db (\<lambda>w. ((), w \<lparr> crm_keys_t := crm_keys_t w @ [k],
       audit_t := audit_t w @ audit_staged w, audit_staged := [] \<rparr>))"

section \<open>Schemas and mappers\<close>

record api_generation =
  ag_id :: int
  ag_name :: string
  ag_status :: generation_status

record api_consumer =
  ac_id :: int
  ac_name :: string
  ac_percentage :: real

record api_iteration =
  an_id :: int
  an_number :: nat
  an_percentage :: real
  an_consumers :: "api_consumer list"
  an_surplus_total :: real

record api_partial_key =
  ak_id :: int
  ak_name :: string
  ak_description :: string
  ak_surplus_total :: real

record api_key = api_partial_key +
  ak_iterations :: "api_iteration list"

definition to_generation_schema :: "generation_row \<Rightarrow> api_generation" where
  "to_generation_schema g = \<lparr> ag_id = g_id g, ag_name = g_name g, ag_status = g_status g \<rparr>"

definition to_consumer_generated_schema :: "consumer_row \<Rightarrow> api_consumer" where
  "to_consumer_generated_schema c = \<lparr> ac_id = crow_id c, ac_name = crow_name c, ac_percentage = crow_percentage c \<rparr>"

definition to_iteration_generated_schema :: "iteration_row \<Rightarrow> api_iteration" where
  "to_iteration_generated_schema it =
     \<lparr> an_id = irow_id it, an_number = irow_number it, an_percentage = irow_percentage it,
       an_consumers = map to_consumer_generated_schema (irow_consumers it), an_surplus_total = irow_surplus_total it \<rparr>"

definition to_partial_allocation_key_generated_schema :: "key_row \<Rightarrow> api_partial_key" where
  "to_partial_allocation_key_generated_schema k =
     \<lparr> ak_id = k_id k, ak_name = k_name k, ak_description = k_description k,
       ak_surplus_total = sum_list (map irow_surplus_total (k_iterations k)) \<rparr>"

definition to_allocation_key_generated_schema :: "key_row \<Rightarrow> api_key" where
  "to_allocation_key_generated_schema k =
     \<lparr> ak_id = k_id k, ak_name = k_name k, ak_description = k_description k,
       ak_surplus_total = sum_list (map irow_surplus_total (k_iterations k)),
       ak_iterations = map to_iteration_generated_schema (k_iterations k) \<rparr>"

definition to_consumer_crm :: "consumer_row \<Rightarrow> crm_consumer_row" where
  "to_consumer_crm c = \<lparr> cc_name = crow_name c, cc_percentage = crow_percentage c, cc_community = crow_community c \<rparr>"

definition to_iteration_crm :: "iteration_row \<Rightarrow> crm_iteration_row" where
  "to_iteration_crm it = \<lparr> ci_number = irow_number it, ci_percentage = irow_percentage it, ci_community = irow_community it,
     ci_consumers = map to_consumer_crm (irow_consumers it) \<rparr>"

text \<open>The id is assigned by the flush.\<close>

definition to_allocation_key_crm :: "key_row \<Rightarrow> crm_key_row" where
  "to_allocation_key_crm k = \<lparr> ck_id = 0, ck_name = k_name k, ck_description = k_description k,
     ck_community = k_community k, ck_iterations = map to_iteration_crm (k_iterations k) \<rparr>"

record pagination =
  pg_page :: int
  pg_limit :: int
  pg_total :: int
  pg_total_pages :: int

text \<open>\<open>-(-total // page_size)\<close>.\<close>

definition paginate :: "int \<Rightarrow> int \<Rightarrow> int \<Rightarrow> exc + pagination" where
  "paginate page page_size total_rows' =
     (if page_size = 0 then Inl (OtherException ''division by zero'')
      else Inr \<lparr> pg_page = page, pg_limit = page_size, pg_total = total_rows',
                 pg_total_pages = - ((- total_rows') div page_size) \<rparr>)"

end
