(* ===== verification/Regex.thy ===== *)
theory Regex
  imports PyText
begin

text \<open>
  The part of Python's \<open>re\<close> that the service uses: literals, repeated character classes (greedy
  or lazy), optional parts, groups and word boundaries. A match is a list of all ways to match
  at a position, in the order in which backtracking tries them; the first one counts. Used by
  \<open>UploadShape\<close> and \<open>Security\<close>.
\<close>

datatype re =
    Lit string
  | One "char \<Rightarrow> bool"
  | Many bool nat "char \<Rightarrow> bool"
  | SeqR re re
  | OptR re
  | Grp re
  | WordB

text \<open>\<open>Many lazy k p\<close> repeats the class \<open>p\<close> at least \<open>k\<close> times.\<close>

definition is_letter :: "char \<Rightarrow> bool" where
  "is_letter c = ((65 \<le> (of_char c :: nat) \<and> (of_char c :: nat) \<le> 90) \<or> (97 \<le> (of_char c :: nat) \<and> (of_char c :: nat) \<le> 122))"

definition is_word :: "char \<Rightarrow> bool" where
  "is_word c = (is_letter c \<or> is_digit c \<or> c = CHR ''_'')"

definition byte_space :: "char \<Rightarrow> bool" where
  "byte_space c = ((of_char c :: nat) \<in> {9, 10, 11, 12, 13, 32})"

definition is_boundary :: "char option \<Rightarrow> string \<Rightarrow> bool" where
  "is_boundary prev s =
     ((case prev of None \<Rightarrow> False | Some c \<Rightarrow> is_word c) \<noteq> (case s of [] \<Rightarrow> False | c # _ \<Rightarrow> is_word c))"

definition after_chars :: "char option \<Rightarrow> string \<Rightarrow> nat \<Rightarrow> char option" where
  "after_chars prev s n = (if n = 0 then prev else Some (s ! (n - 1)))"

fun rmatch :: "re \<Rightarrow> char option \<Rightarrow> string \<Rightarrow> (string list \<times> char option \<times> string) list" where
  "rmatch (Lit l) prev s =
     (if startswith s l then [([], after_chars prev s (length l), drop (length l) s)] else [])"
| "rmatch (One p) prev s = (case s of [] \<Rightarrow> [] | c # cs \<Rightarrow> if p c then [([], Some c, cs)] else [])"
| "rmatch (Many lazy k p) prev s =
     (let n = length (takeWhile p s);
          lens = (if lazy then [k..<Suc n] else rev [k..<Suc n])
      in map (\<lambda>i. ([], after_chars prev s i, drop i s)) lens)"
| "rmatch (SeqR a b) prev s =
     concat (map (\<lambda>(g1, p1, r1). map (\<lambda>(g2, p2, r2). (g1 @ g2, p2, r2)) (rmatch b p1 r1)) (rmatch a prev s))"
| "rmatch (OptR a) prev s = rmatch a prev s @ [([], prev, s)]"
| "rmatch (Grp a) prev s = map (\<lambda>(g, p, r). (take (length s - length r) s # g, p, r)) (rmatch a prev s)"
| "rmatch WordB prev s = (if is_boundary prev s then [([], prev, s)] else [])"

fun seqr :: "re list \<Rightarrow> re" where
  "seqr [] = Lit []"
| "seqr [r] = r"
| "seqr (r # rs) = SeqR r (seqr rs)"

text \<open>\<open>pattern.search(text)\<close>: the groups of the first match.\<close>

fun search_from :: "re \<Rightarrow> char option \<Rightarrow> string \<Rightarrow> (string list \<times> char option \<times> string) option" where
  "search_from r prev [] = (case rmatch r prev [] of [] \<Rightarrow> None | m # _ \<Rightarrow> Some m)"
| "search_from r prev (c # cs) =
     (case rmatch r prev (c # cs) of [] \<Rightarrow> search_from r (Some c) cs | m # _ \<Rightarrow> Some m)"

definition search :: "re \<Rightarrow> string \<Rightarrow> string list option" where
  "search r s = map_option fst (search_from r None s)"

section \<open>Matches consume text from the left\<close>

lemma rmatch_rest: "(g, p, r) \<in> set (rmatch re prev s) \<Longrightarrow> \<exists>a. s = a @ r"
proof (induction re arbitrary: prev s g p r)
  case (Lit l)
  then show ?case by (auto simp: startswith_def split: if_splits) (metis append_take_drop_id)
next
  case (One c)
  then show ?case by (auto split: list.splits if_splits)
next
  case (Many lazy k c)
  then show ?case by (auto simp: Let_def simp del: upt_Suc) (metis append_take_drop_id)+
next
  case (SeqR a b)
  then obtain g1 p1 r1 g2 where "(g1, p1, r1) \<in> set (rmatch a prev s)" "(g2, p, r) \<in> set (rmatch b p1 r1)"
    by auto
  with SeqR.IH obtain x y where "s = x @ r1" "r1 = y @ r" by blast
  then show ?case by (intro exI [of _ "x @ y"]) simp
qed (auto split: if_splits)

lemma search_from_rest: "search_from re prev s = Some (g, p, r) \<Longrightarrow> \<exists>a. s = a @ r"
proof (induction s arbitrary: prev)
  case Nil
  then have "(g, p, r) \<in> set (rmatch re prev [])" by (auto split: list.splits)
  then show ?case by (rule rmatch_rest)
next
  case (Cons c s)
  show ?case
  proof (cases "rmatch re prev (c # s)")
    case Nil
    with Cons.prems have "search_from re (Some c) s = Some (g, p, r)" by simp
    from Cons.IH [OF this] obtain a where "s = a @ r" by blast
    then show ?thesis by (intro exI [of _ "c # a"]) simp
  next
    case (Cons m ms)
    with Cons.prems have "(g, p, r) \<in> set (rmatch re prev (c # s))" by simp
    then show ?thesis by (rule rmatch_rest)
  qed
qed

text \<open>\<open>pattern.finditer(text)\<close>: each search goes on where the last match ended; after an empty
  match the text that follows is searched one character further on.\<close>

function find_all :: "re \<Rightarrow> char option \<Rightarrow> string \<Rightarrow> string list list" where
  "find_all r prev s =
     (case search_from r prev s of
        None \<Rightarrow> []
      | Some (g, p, rest) \<Rightarrow>
          g # (if length rest < length s then find_all r p rest
               else (case s of [] \<Rightarrow> [] | c # cs \<Rightarrow> find_all r (Some c) cs)))"
  by pat_completeness auto

termination by (relation "measure (\<lambda>(_, _, s). length s)") auto

declare find_all.simps [simp del]

end
