(* ===== verification/Security.thy ===== *)
theory Security
  imports Platform Regex
begin

text \<open>
  Who may do what: roles (\<open>core/security/user_context.py\<close>), the organisations header of the
  gateway (\<open>core/security/gateway_auth.py\<close>), the context of a request set from the gateway's
  headers (\<open>core/middleware/set_auth_context.py\<close>), the resolution of the community
  (\<open>core/security/community_scope.py\<close>) and the guards of the routes
  (\<open>core/security/dependencies.py\<close>).
\<close>

section \<open>Roles\<close>

datatype Role = MEMBER_ROLE | MANAGER_ROLE | ADMIN_ROLE

definition role_value :: "Role \<Rightarrow> string" where
  "role_value r = (case r of MEMBER_ROLE \<Rightarrow> ''MEMBER'' | MANAGER_ROLE \<Rightarrow> ''MANAGER'' | ADMIN_ROLE \<Rightarrow> ''ADMIN'')"

text \<open>\<open>Role(text)\<close>; \<open>None\<close> is \<open>ValueError\<close>.\<close>

definition role_of :: "string \<Rightarrow> Role option" where
  "role_of s = (if s = ''MEMBER'' then Some MEMBER_ROLE else if s = ''MANAGER'' then Some MANAGER_ROLE
     else if s = ''ADMIN'' then Some ADMIN_ROLE else None)"

definition ROLE_HIERARCHY :: "Role \<Rightarrow> int" where
  "ROLE_HIERARCHY r = (case r of MEMBER_ROLE \<Rightarrow> 1 | MANAGER_ROLE \<Rightarrow> 2 | ADMIN_ROLE \<Rightarrow> 3)"

text \<open>Roles are ordered by their rank.\<close>

instantiation Role :: linorder
begin

definition less_eq_Role :: "Role \<Rightarrow> Role \<Rightarrow> bool" where
  "less_eq_Role r s \<longleftrightarrow> ROLE_HIERARCHY r \<le> ROLE_HIERARCHY s"

definition less_Role :: "Role \<Rightarrow> Role \<Rightarrow> bool" where
  "less_Role r s \<longleftrightarrow> ROLE_HIERARCHY r < ROLE_HIERARCHY s"

instance
  by standard (auto simp: less_eq_Role_def less_Role_def ROLE_HIERARCHY_def split: Role.splits)

end

lemma finite_roles [simp]: "finite (A :: Role set)"
proof (rule finite_subset)
  show "A \<subseteq> {MEMBER_ROLE, MANAGER_ROLE, ADMIN_ROLE}" using Role.exhaust by auto
qed simp

record OrgToken =
  org_id :: string
  org_path :: string
  org_role :: Role

section \<open>The organisations header\<close>

definition not_newline :: "char \<Rightarrow> bool" where
  "not_newline c = (c \<noteq> CHR 0x0A)"

definition ORG_RE :: re where
  "ORG_RE = seqr [Lit ''orgId:'', Grp (Many False 1 (\<lambda>c. \<not> is_space c)), Many False 1 is_space,
     Lit ''orgPath:'', Grp (Many True 0 not_newline), Many False 1 is_space,
     Lit ''roles:['', Grp (Many False 0 (\<lambda>c. c \<noteq> CHR '']'')), Lit '']'']"

text \<open>\<open>for r in roles\<close>: the best role so far and its rank.\<close>

fun highest_from :: "Role option \<Rightarrow> int \<Rightarrow> string list \<Rightarrow> Role option" where
  "highest_from best best_rank [] = best"
| "highest_from best best_rank (r # rs) =
     (case role_of r of
        None \<Rightarrow> highest_from best best_rank rs
      | Some role \<Rightarrow>
          if best_rank < ROLE_HIERARCHY role then highest_from (Some role) (ROLE_HIERARCHY role) rs
          else highest_from best best_rank rs)"

definition resolve_highest_role :: "string list \<Rightarrow> Role option" where
  "resolve_highest_role roles = highest_from None (-1) roles"

text \<open>\<open>re.split(r"[,\s]+", text)\<close> without its empty parts.\<close>

definition split_roles :: "string \<Rightarrow> string list" where
  "split_roles s = filter (\<lambda>r. r \<noteq> [])
     (split_at (CHR '','') (map (\<lambda>c. if is_space c then CHR '','' else c) (strip s)))"

definition parse_user_orgs :: "string \<Rightarrow> OrgToken list" where
  "parse_user_orgs user_orgs =
     List.map_filter (\<lambda>groups.
       (case groups of
          [oid, path, roles_raw] \<Rightarrow>
            map_option (\<lambda>role. \<lparr> org_id = oid, org_path = path, org_role = role \<rparr>)
              (resolve_highest_role (split_roles roles_raw))
        | _ \<Rightarrow> None)) (find_all ORG_RE None user_orgs)"

section \<open>The context of a request\<close>

text \<open>
  Header names are matched without regard to case; the model keeps them in lower case. The source
  address is set and reset like the other three variables, but nothing reads it: it is left out.
\<close>

type_synonym headers = "(string \<times> string) list"

definition role_for :: "string option \<Rightarrow> string option \<Rightarrow> string option" where
  "role_for community_id user_orgs =
     (case (community_id, user_orgs) of
        (Some cid, Some orgs) \<Rightarrow>
          if cid = [] \<or> orgs = [] then None
          else map_option (\<lambda>t. role_value (org_role t)) (find (\<lambda>t. org_id t = cid) (parse_user_orgs orgs))
      | _ \<Rightarrow> None)"

definition gateway_scope :: "headers \<Rightarrow> (world, 'e, 'a) act \<Rightarrow> (world, 'e, 'a) act" where
  "gateway_scope hs call_next = (\<lambda>w.
     (case call_next (w \<lparr> auth_user := map_of hs ''x-user-id'', auth_community := map_of hs ''x-community-id'',
          user_role := role_for (map_of hs ''x-community-id'') (map_of hs ''x-user-orgs'') \<rparr>) of
        (r, w') \<Rightarrow> (r, w' \<lparr> auth_user := auth_user w, auth_community := auth_community w, user_role := user_role w \<rparr>)))"

section \<open>Guards\<close>

definition auth_error :: "app_error \<Rightarrow> exc" where
  "auth_error e = error_default e"

definition require_authenticated :: "(world, exc, string) act" where
  "require_authenticated =
     abind (aget auth_user) (\<lambda>u.
       (case u of Some s \<Rightarrow> if s = [] then araise (auth_error UNAUTHORIZED) else areturn s
        | None \<Rightarrow> araise (auth_error UNAUTHORIZED)))"

definition require_community :: "(world, exc, string) act" where
  "require_community =
     abind require_authenticated (\<lambda>_.
     abind (aget auth_community) (\<lambda>c.
       (case c of Some s \<Rightarrow> if s = [] then araise (auth_error AUTHORIZATION_MISSING) else areturn s
        | None \<Rightarrow> araise (auth_error AUTHORIZATION_MISSING))))"

definition require_min_role :: "Role \<Rightarrow> (world, exc, string) act" where
  "require_min_role min_role =
     abind require_authenticated (\<lambda>user_id.
     abind require_community (\<lambda>_.
     abind (aget user_role) (\<lambda>role_str.
       (case role_str of
          None \<Rightarrow> araise (auth_error FORBIDDEN)
        | Some s \<Rightarrow>
            if s = [] then araise (auth_error FORBIDDEN)
            else (case role_of s of
                    None \<Rightarrow> araise (auth_error FORBIDDEN)
                  | Some role \<Rightarrow>
                      if ROLE_HIERARCHY role < ROLE_HIERARCHY min_role then araise (auth_error FORBIDDEN)
                      else areturn user_id)))))"

definition raise_crm_db :: "outcome \<Rightarrow> exc" where
  "raise_crm_db x = OtherException (outcome_message x)"

text \<open>\<open>scalar_one_or_none\<close> over the communities with an id at the identity provider.\<close>

definition community_of_auth :: "community_row list \<Rightarrow> string \<Rightarrow> int option" where
  "community_of_auth rows auth_id = map_option cm_id (find (\<lambda>c. cm_auth_community_id c = auth_id) rows)"

text \<open>The internal id of the community of the request, cached in the context.\<close>

definition resolve_internal_community :: "(world, exc, int option) act" where
  "resolve_internal_community =
     abind (aget auth_community) (\<lambda>auth_id.
       (case auth_id of
          None \<Rightarrow> areturn None
        | Some a \<Rightarrow>
            abind (aget context_community) (\<lambda>cached.
              (case cached of
                 Some c \<Rightarrow> areturn (Some c)
               | None \<Rightarrow>
                   abind (outside raise_crm_db (\<lambda>w. (community_of_auth (communities w) a, w))) (\<lambda>internal_id.
                     (case internal_id of
                        None \<Rightarrow> areturn None
                      | Some i \<Rightarrow> abind (amodify (\<lambda>w. w \<lparr> context_community := Some i \<rparr>)) (\<lambda>_. areturn (Some i))))))))"

definition ALGORITHM_FEATURE :: string where
  "ALGORITHM_FEATURE = ''algorithm''"

text \<open>\<open>scalar_one_or_none\<close> over the scoped subscriptions of the feature: whether it is active.\<close>

definition subscription_of :: "int option \<Rightarrow> string \<Rightarrow> subscription_row list \<Rightarrow> bool option" where
  "subscription_of internal_id feature rows =
     (case internal_id of
        None \<Rightarrow> None
      | Some c \<Rightarrow> map_option sb_is_active (find (\<lambda>s. sb_community s = c \<and> sb_feature s = feature) rows))"

definition ensure_active_subscription :: "string \<Rightarrow> (world, exc, unit) act" where
  "ensure_active_subscription feature =
     abind require_community (\<lambda>_.
     abind (aget context_community) (\<lambda>internal_id.
     abind (outside raise_crm_db (\<lambda>w. (subscription_of internal_id feature (subscriptions w), w)))
       (\<lambda>sub. if sub = Some True then areturn () else araise (ErrorException NOT_SUBSCRIBED 403))))"

text \<open>The dependencies of the generation router, in their order.\<close>

definition router_dependencies :: "(world, exc, unit) act" where
  "router_dependencies = abind resolve_internal_community (\<lambda>_. ensure_active_subscription ALGORITHM_FEATURE)"

section \<open>Lemmas\<close>

lemma rank_inject: "ROLE_HIERARCHY r = ROLE_HIERARCHY s \<longleftrightarrow> r = s"
  by (simp add: ROLE_HIERARCHY_def split: Role.splits)

lemma rank_positive: "0 < ROLE_HIERARCHY r"
  by (simp add: ROLE_HIERARCHY_def split: Role.splits)

text \<open>The loop keeps the best role seen: its result dominates every valid role of the list.\<close>

lemma highest_from_spec:
  assumes "case best of None \<Rightarrow> best_rank = -1 | Some b \<Rightarrow> best_rank = ROLE_HIERARCHY b"
  shows "case highest_from best best_rank roles of
      None \<Rightarrow> best = None \<and> (\<forall>s\<in>set roles. role_of s = None)
    | Some r \<Rightarrow> (best = Some r \<or> Some r \<in> role_of ` set roles) \<and> best_rank \<le> ROLE_HIERARCHY r \<and>
        (\<forall>s\<in>set roles. \<forall>r'. role_of s = Some r' \<longrightarrow> ROLE_HIERARCHY r' \<le> ROLE_HIERARCHY r)"
  using assms
proof (induction best best_rank roles rule: highest_from.induct)
  case (1 best best_rank)
  then show ?case by (auto split: option.splits)
next
  case (2 best best_rank r rs)
  show ?case
  proof (cases "role_of r")
    case None
    with "2.IH"(1) [OF None "2.prems"] show ?thesis by (auto split: option.splits)
  next
    case (Some role)
    show ?thesis
    proof (cases "best_rank < ROLE_HIERARCHY role")
      case True
      have "case highest_from (Some role) (ROLE_HIERARCHY role) rs of
          None \<Rightarrow> Some role = None \<and> (\<forall>s\<in>set rs. role_of s = None)
        | Some x \<Rightarrow> (Some role = Some x \<or> Some x \<in> role_of ` set rs) \<and> ROLE_HIERARCHY role \<le> ROLE_HIERARCHY x \<and>
            (\<forall>s\<in>set rs. \<forall>r'. role_of s = Some r' \<longrightarrow> ROLE_HIERARCHY r' \<le> ROLE_HIERARCHY x)"
        using "2.IH"(2) [OF Some True] by simp
      with True Some show ?thesis by (cases "highest_from (Some role) (ROLE_HIERARCHY role) rs") (auto simp: rev_image_eqI)
    next
      case False
      from "2.IH"(3) [OF Some False "2.prems"] False Some show ?thesis
        using "2.prems" rank_positive [of role] by (cases "highest_from best best_rank rs"; cases best) (auto simp: rev_image_eqI)
    qed
  qed
qed

lemma resolve_highest_role_spec:
  "case resolve_highest_role roles of
      None \<Rightarrow> \<forall>s\<in>set roles. role_of s = None
    | Some r \<Rightarrow> Some r \<in> role_of ` set roles \<and>
        (\<forall>s\<in>set roles. \<forall>r'. role_of s = Some r' \<longrightarrow> ROLE_HIERARCHY r' \<le> ROLE_HIERARCHY r)"
  using highest_from_spec [of "-1" None roles] by (auto simp: resolve_highest_role_def split: option.splits)

lemma require_community_cases:
  "fst (require_community w) = Inr c \<longleftrightarrow>
     (\<exists>u. auth_user w = Some u \<and> u \<noteq> []) \<and> auth_community w = Some c \<and> c \<noteq> []"
  "snd (require_community w) = w"
  by (auto simp: require_community_def require_authenticated_def abind_def aget_def areturn_def araise_def
      split: option.splits)

text \<open>A community with an active subscription to a feature.\<close>

definition subscribed :: "world \<Rightarrow> int \<Rightarrow> string \<Rightarrow> bool" where
  "subscribed w c feature = list_ex (\<lambda>s. sb_community s = c \<and> sb_feature s = feature \<and> sb_is_active s) (subscriptions w)"

lemma subscription_of_active:
  "subscription_of i feature (subscriptions w) = Some True \<Longrightarrow> \<exists>c. i = Some c \<and> subscribed w c feature"
  by (auto simp: subscription_of_def subscribed_def list_ex_iff find_Some_iff split: option.splits)

lemma role_of_iff: "role_of s = Some r \<longleftrightarrow> s = role_value r"
  by (auto simp: role_of_def role_value_def split: Role.splits if_splits)

lemma role_value_inject: "role_value r = role_value s \<longleftrightarrow> r = s"
  by (simp add: role_value_def split: Role.splits)

lemma role_of_value: "role_of (role_value r) = Some r" "role_value r \<noteq> []"
  by (simp_all add: role_of_def role_value_def split: Role.splits)

text \<open>The router's dependencies let a request through only when all of them hold, and touch nothing.\<close>

lemma dependencies_passed:
  assumes "router_dependencies w = (Inr (), w')" "context_community w = None"
  shows "\<exists>u a c. auth_user w = Some u \<and> u \<noteq> [] \<and> auth_community w = Some a \<and> a \<noteq> [] \<and>
    community_of_auth (communities w) a = Some c \<and> context_community w' = Some c \<and> subscribed w c ''algorithm''"
proof -
  obtain oc w1 where r: "resolve_internal_community w = (Inr oc, w1)"
    and e: "ensure_active_subscription ALGORITHM_FEATURE w1 = (Inr (), w')"
    using assms(1) by (auto simp: router_dependencies_def abind_def split: prod.splits sum.splits)
  obtain s where s: "fst (require_community w1) = Inr s"
    using e by (cases "require_community w1") (auto simp: ensure_active_subscription_def abind_def split: sum.splits)
  note u = require_community_cases(1) [of w1 s, THEN iffD1, OF s]
  have w1: "auth_user w1 = auth_user w" "auth_community w1 = auth_community w" "subscriptions w1 = subscriptions w"
    "context_community w1 = None \<or> (\<exists>a. auth_community w = Some a \<and> context_community w1 = community_of_auth (communities w) a)"
    using r assms(2) by (auto simp: resolve_internal_community_def abind_def aget_def areturn_def amodify_def outside_def tick_def
        split: option.splits outcome.splits)
  have sub: "subscription_of (context_community w1) ALGORITHM_FEATURE (subscriptions w1) = Some True"
    "context_community w' = context_community w1"
    using e s require_community_cases(2) [of w1]
    by (cases "require_community w1";
        auto simp: ensure_active_subscription_def abind_def aget_def areturn_def araise_def outside_def tick_def
          split: outcome.splits if_splits)+
  obtain c where "context_community w1 = Some c" "subscribed w c ALGORITHM_FEATURE"
    using subscription_of_active [OF sub(1)] w1(3) by (auto simp: subscribed_def)
  then have "community_of_auth (communities w) s = Some c" "context_community w' = Some c" "subscribed w c ''algorithm''"
    using u w1 sub(2) by (auto simp: ALGORITHM_FEATURE_def)
  then show ?thesis using u w1(1,2) by auto
qed

definition without_context :: "world \<Rightarrow> world" where
  "without_context w = w \<lparr> clock := 0, context_community := None \<rparr>"

lemma dependencies_keep: "keeps without_context router_dependencies"
  unfolding router_dependencies_def resolve_internal_community_def ensure_active_subscription_def require_community_def
    require_authenticated_def
  by (auto intro!: keeps_intros keeps_outside keeps_amodify simp: without_context_def tick_def split: option.split)

section \<open>Properties\<close>

text \<open>The highest role of an organisation wins: the service uses the maximum of the known roles listed
  for it, and none when no known role is listed. So a caller is never given more, nor less, than
  the header grants.\<close>

theorem highest_role_wins:
  "resolve_highest_role roles =
     (let granted = {r. list_ex (\<lambda>s. role_of s = Some r) roles} in if granted = {} then None else Some (Max granted))"
proof (cases "resolve_highest_role roles")
  case None
  then have "{r. list_ex (\<lambda>s. role_of s = Some r) roles} = {}"
    using resolve_highest_role_spec [of roles] by (auto simp: list_ex_iff)
  with None show ?thesis by simp
next
  case (Some r)
  then have r: "r \<in> {r. list_ex (\<lambda>s. role_of s = Some r) roles}" "\<forall>s\<in>set roles. \<forall>r'. role_of s = Some r' \<longrightarrow> r' \<le> r"
    using resolve_highest_role_spec [of roles] by (auto simp: list_ex_iff less_eq_Role_def)
  then have "Max {r. list_ex (\<lambda>s. role_of s = Some r) roles} = r"
    by (intro Max_eqI) (auto simp: list_ex_iff)
  with Some r(1) show ?thesis by (auto simp: Let_def)
qed

text \<open>A route of the generation API runs only for an authenticated user of a community that is known
  to the CRM and has an active subscription to the algorithms; from then on the context carries
  the internal id of exactly that community.\<close>

theorem routes_are_guarded:
  assumes "router_dependencies w = (Inr (), w')" "context_community w = None"
  shows "\<exists>u a c. auth_user w = Some u \<and> u \<noteq> [] \<and> auth_community w = Some a \<and> a \<noteq> [] \<and>
    community_of_auth (communities w) a = Some c \<and> context_community w' = Some c \<and> subscribed w c ''algorithm''"
  using assms by (rule dependencies_passed)

text \<open>A request of a subscribed community.\<close>

definition member_world :: world where
  "member_world = quiet_world \<lparr> communities := [\<lparr> cm_id = 7, cm_name = ''Watts'', cm_auth_community_id = ''kc-7'' \<rparr>],
     subscriptions := [\<lparr> sb_id = 1, sb_community = 7, sb_feature = ''algorithm'', sb_is_active = True \<rparr>],
     auth_user := Some ''alice'', auth_community := Some ''kc-7'' \<rparr>"

theorem routes_are_guarded_witness:
  "\<exists>u a c. auth_user member_world = Some u \<and> u \<noteq> [] \<and> auth_community member_world = Some a \<and> a \<noteq> [] \<and>
    community_of_auth (communities member_world) a = Some c \<and> context_community (snd (router_dependencies member_world)) = Some c \<and>
    subscribed member_world c ''algorithm''"
proof (rule routes_are_guarded)
  show "router_dependencies member_world = (Inr (), snd (router_dependencies member_world))"
    by (simp add: router_dependencies_def resolve_internal_community_def ensure_active_subscription_def require_community_def
        require_authenticated_def abind_def aget_def areturn_def amodify_def outside_def tick_def member_world_def
        quiet_world_def ALGORITHM_FEATURE_def subscription_of_def community_of_auth_def)
  show "context_community member_world = None" by (simp add: member_world_def quiet_world_def)
qed

text \<open>A role check passes exactly when the user is known, a community is selected and the role of
  the user there ranks at least as high as the required one.\<close>

theorem min_role_check:
  "(\<exists>u. fst (require_min_role min_role w) = Inr u) \<longleftrightarrow>
     (\<exists>u c r. auth_user w = Some u \<and> u \<noteq> [] \<and> auth_community w = Some c \<and> c \<noteq> [] \<and>
        user_role w = Some (role_value r) \<and> min_role \<le> r)"
proof (cases "user_role w")
  case None
  then show ?thesis
    by (auto simp: require_min_role_def require_community_def require_authenticated_def abind_def aget_def araise_def areturn_def
        split: option.splits)
next
  case (Some s)
  show ?thesis using Some role_of_value(2) [symmetric]
    by (cases "role_of s")
       (auto simp: require_min_role_def require_community_def require_authenticated_def abind_def aget_def areturn_def
        araise_def role_of_iff role_of_value role_value_inject not_less less_eq_Role_def split: option.splits)
qed

end
