(* ===== verification/Middleware.thy ===== *)
theory Middleware
  imports Security
begin

text \<open>
  What surrounds a route: translations (\<open>core/i18n.py\<close>), the locale of a request
  (\<open>core/middleware/locale_middleware.py\<close>), its identifier
  (\<open>core/middleware/correlation_id.py\<close>), the limits on its size and duration
  (\<open>core/middleware/request_limits.py\<close>) and the answers to exceptions
  (\<open>core/errors/handlers.py\<close>), stacked in the order of \<open>main.py\<close>. The locale files are a parameter:
  the JSON value of each file that exists. A request that outlives the time limit is cancelled:
  what it had done to the world by then is a parameter (\<open>None\<close> when the request ends in time). The
  CORS headers are left out.
\<close>

section \<open>Translations\<close>

definition SUPPORTED_LOCALES :: "string list" where
  "SUPPORTED_LOCALES = [''fr'', ''en'', ''de'', ''nl'']"

definition DEFAULT_LOCALE :: string where
  "DEFAULT_LOCALE = ''fr''"

type_synonym locale_files = "string \<Rightarrow> json option"

definition load_locale :: "locale_files \<Rightarrow> string \<Rightarrow> json option" where
  "load_locale files code = (case files code of Some data \<Rightarrow> Some data | None \<Rightarrow> files DEFAULT_LOCALE)"

fun lookup_path :: "json \<Rightarrow> string list \<Rightarrow> json option" where
  "lookup_path node [] = Some node"
| "lookup_path node (part # parts) =
     (case node of
        JObj kvs \<Rightarrow> (case map_of kvs part of None \<Rightarrow> None | Some child \<Rightarrow> lookup_path child parts)
      | _ \<Rightarrow> None)"

text \<open>\<open>None\<close>: not even the default file could be opened.\<close>

definition translate :: "locale_files \<Rightarrow> string \<Rightarrow> string \<Rightarrow> string option" where
  "translate files key code =
     (let resolved_locale = (if code \<in> set SUPPORTED_LOCALES then code else DEFAULT_LOCALE)
      in map_option (\<lambda>data. (case lookup_path data (split_at (CHR ''.'') key) of Some (JStr s) \<Rightarrow> s | _ \<Rightarrow> key))
           (load_locale files resolved_locale))"

section \<open>Requests and responses\<close>

record request =
  rq_method :: string
  rq_path :: string
  rq_headers :: headers

record response =
  rs_status :: nat
  rs_body :: json
  rs_headers :: headers

definition error_body :: "string \<Rightarrow> nat \<Rightarrow> json" where
  "error_body message code = JObj [(''data'', JStr message), (''error_code'', JInt (int code))]"

section \<open>Middleware\<close>

definition upper :: "string \<Rightarrow> string" where
  "upper s = map (\<lambda>c. if 97 \<le> (of_char c :: nat) \<and> (of_char c :: nat) \<le> 122 then char_of ((of_char c :: nat) - 32) else c) s"

definition resolve_locale :: "headers \<Rightarrow> string" where
  "resolve_locale hs =
     (let raw = (case map_of hs ''accept-language'' of None \<Rightarrow> DEFAULT_LOCALE | Some r \<Rightarrow> r);
          code = lower (strip (hd (split_at (CHR ''-'') (hd (split_at (CHR '','') raw)))))
      in if code \<in> set SUPPORTED_LOCALES then code else DEFAULT_LOCALE)"

definition locale_middleware :: "request \<Rightarrow> (world, 'e, 'a) act \<Rightarrow> (world, 'e, 'a) act" where
  "locale_middleware rq call_next = (\<lambda>w.
     (case call_next (w \<lparr> locale_code := resolve_locale (rq_headers rq) \<rparr>) of
        (r, w') \<Rightarrow> (r, w' \<lparr> locale_code := locale_code w \<rparr>)))"

definition MAX_BODY_BYTES :: nat where "MAX_BODY_BYTES = 2 * 1024 * 1024"
definition UPLOAD_MAX_BODY_BYTES :: nat where "UPLOAD_MAX_BODY_BYTES = 50 * 1024 * 1024"
definition UPLOAD_ROUTES :: "(string \<times> string) list" where "UPLOAD_ROUTES = [(''POST'', ''/'')]"
definition TIMEOUT_SECONDS :: nat where "TIMEOUT_SECONDS = 30"

definition max_body_for :: "request \<Rightarrow> nat" where
  "max_body_for rq =
     (if (upper (rq_method rq), rq_path rq) \<in> set UPLOAD_ROUTES then UPLOAD_MAX_BODY_BYTES else MAX_BODY_BYTES)"

definition body_too_large :: "request \<Rightarrow> bool" where
  "body_too_large rq =
     (case Option.bind (map_of (rq_headers rq) ''content-length'') py_int of
        None \<Rightarrow> False
      | Some n \<Rightarrow> int (max_body_for rq) < n)"

definition request_limits :: "(world \<Rightarrow> world) option \<Rightarrow> request \<Rightarrow> (world, 'e, response) act \<Rightarrow> (world, 'e, response) act" where
  "request_limits cancelled rq call_next =
     (if body_too_large rq then areturn \<lparr> rs_status = 413, rs_body = error_body ''Payload too large'' 0, rs_headers = [] \<rparr>
      else (case cancelled of
              Some progress \<Rightarrow> abind (amodify progress) (\<lambda>_.
                areturn \<lparr> rs_status = 504, rs_body = error_body ''Request timeout'' 0, rs_headers = [] \<rparr>)
            | None \<Rightarrow> call_next))"

text \<open>The fresh identifier is a parameter.\<close>

definition request_id_of :: "string \<Rightarrow> request \<Rightarrow> string" where
  "request_id_of fresh rq = (case map_of (rq_headers rq) ''x-request-id'' of None \<Rightarrow> fresh | Some r \<Rightarrow> if r = [] then fresh else r)"

definition correlation_id :: "string \<Rightarrow> request \<Rightarrow> (world, 'e, response) act \<Rightarrow> (world, 'e, response) act" where
  "correlation_id fresh rq call_next =
     abind call_next (\<lambda>rs. areturn (rs \<lparr> rs_headers := dict_set ''x-request-id'' (request_id_of fresh rq) (rs_headers rs) \<rparr>))"

section \<open>Answers to exceptions\<close>

definition error_exception_handler :: "locale_files \<Rightarrow> string \<Rightarrow> app_error \<Rightarrow> nat \<Rightarrow> (world, exc, response) act" where
  "error_exception_handler files request_id e status =
     abind (aget locale_code) (\<lambda>code.
       (case translate files (err_key e) code of
          None \<Rightarrow> araise (OtherException ''no locale file'')
        | Some message \<Rightarrow>
            areturn \<lparr> rs_status = status, rs_body = error_body message (err_code e),
              rs_headers = (if request_id = [] then [] else [(''x-request-id'', request_id)]) \<rparr>))"

definition unhandled_exception_handler :: "string \<Rightarrow> (world, 'e, response) act" where
  "unhandled_exception_handler request_id =
     areturn \<lparr> rs_status = 500, rs_body = error_body ''Erreur interne du serveur'' 0,
       rs_headers = (if request_id = [] then [] else [(''x-request-id'', request_id)]) \<rparr>"

text \<open>A route with the handler for \<open>ErrorException\<close> around it.\<close>

definition with_error_handler :: "locale_files \<Rightarrow> string \<Rightarrow> (world, exc, response) act \<Rightarrow> (world, exc, response) act" where
  "with_error_handler files request_id route =
     acatch route (\<lambda>x. (case x of
        ErrorException e status \<Rightarrow> error_exception_handler files request_id e status
      | OtherException m \<Rightarrow> araise (OtherException m)))"

text \<open>
  The stack of \<open>main.py\<close>, outermost first: what is left of the exceptions, the gateway's scope, the
  identifier, the limits, the locale, and the exception handler around the router. The context
  of a request starts empty.
\<close>

definition serve ::
  "locale_files \<Rightarrow> string \<Rightarrow> (world \<Rightarrow> world) option \<Rightarrow> request \<Rightarrow> (world, exc, response) act \<Rightarrow> (world, exc, response) act" where
  "serve files fresh cancelled rq route = (\<lambda>w.
     (case acatch
        (gateway_scope (rq_headers rq)
          (correlation_id fresh rq
            (request_limits cancelled rq
              (locale_middleware rq
                (with_error_handler files (request_id_of fresh rq) (abind router_dependencies (\<lambda>_. route)))))))
        (\<lambda>_. unhandled_exception_handler []) (w \<lparr> context_community := None \<rparr>) of
      (r, w') \<Rightarrow> (r, w' \<lparr> context_community := context_community w \<rparr>)))"

section \<open>Lemmas\<close>

lemma split_at_nonempty: "split_at c s \<noteq> []"
  by (induction s) (auto split: list.splits)

lemma translate_default: "files DEFAULT_LOCALE = Some d \<Longrightarrow> \<exists>m. translate files key code = Some m"
  by (auto simp: translate_def load_locale_def Let_def split: option.splits)

lemma serve_too_large:
  "body_too_large rq \<Longrightarrow> serve files fresh t rq route w =
     (Inr \<lparr> rs_status = 413, rs_body = error_body ''Payload too large'' 0,
        rs_headers = [(''x-request-id'', request_id_of fresh rq)] \<rparr>, w)"
  by (simp add: serve_def acatch_def gateway_scope_def correlation_id_def request_limits_def abind_def areturn_def)

text \<open>Exceptions with an HTTP error status.\<close>

definition http_error :: "exc \<Rightarrow> bool" where
  "http_error x = (case x of ErrorException _ status \<Rightarrow> 400 \<le> status | OtherException _ \<Rightarrow> True)"

lemma yields_world:
  "yields (aget g) (\<lambda>_. True) X" "yields (amodify h) (\<lambda>_. True) X"
  "(\<And>bad. X (raise bad)) \<Longrightarrow> yields (outside raise f) (\<lambda>_. True) X"
  by (auto simp: yields_def aget_def amodify_def outside_def Let_def case_prod_beta split: outcome.splits)

lemma dependencies_errors: "yields router_dependencies (\<lambda>_. True) http_error"
proof -
  have "http_error (auth_error e)" "http_error (raise_crm_db bad)" "http_error (ErrorException NOT_SUBSCRIBED 403)" for e bad
    by (simp_all add: http_error_def auth_error_def error_default_def raise_crm_db_def)
  then show ?thesis
    unfolding router_dependencies_def resolve_internal_community_def ensure_active_subscription_def require_community_def
      require_authenticated_def
    by (auto intro!: yields_bind [where P = "\<lambda>_. True"] yields_world yields_intros split: option.split)
qed

text \<open>The world a route sees at the start of a request.\<close>

definition request_world :: "request \<Rightarrow> world \<Rightarrow> world" where
  "request_world rq w = w \<lparr> context_community := None, auth_user := map_of (rq_headers rq) ''x-user-id'',
     auth_community := map_of (rq_headers rq) ''x-community-id'',
     user_role := role_for (map_of (rq_headers rq) ''x-community-id'') (map_of (rq_headers rq) ''x-user-orgs''),
     locale_code := resolve_locale (rq_headers rq) \<rparr>"

lemma error_handler_outcome:
  assumes "http_error x" "m w = (Inl x, w')"
  shows "\<exists>r. with_error_handler files rid m w = (r, w') \<and> (case r of Inr rs \<Rightarrow> 400 \<le> rs_status rs | Inl _ \<Rightarrow> True)"
  using assms
  by (auto simp: with_error_handler_def acatch_def error_exception_handler_def abind_def aget_def areturn_def araise_def
      http_error_def split: exc.splits option.splits)

lemma serve_refused:
  assumes "router_dependencies (request_world rq w) = (Inl x, w1)"
  shows "\<exists>rs k. serve files fresh None rq route w = (Inr rs, w \<lparr> clock := k \<rparr>) \<and> 400 \<le> rs_status rs"
proof -
  let ?inner = "with_error_handler files (request_id_of fresh rq) (abind router_dependencies (\<lambda>_. route))"
  let ?w = "w \<lparr> context_community := None \<rparr>"
  have x: "http_error x"
    using dependencies_errors assms unfolding yields_def by (metis (no_types, lifting) fst_conv sum.case(1))
  have "abind router_dependencies (\<lambda>_. route) (request_world rq w) = (Inl x, w1)"
    using assms by (simp add: abind_def)
  then obtain r where r: "?inner (request_world rq w) = (r, w1)" "case r of Inr rs \<Rightarrow> 400 \<le> rs_status rs | Inl _ \<Rightarrow> True"
    using error_handler_outcome [OF x] by blast
  have frame: "without_context w1 = without_context (request_world rq w)"
    using dependencies_keep assms unfolding keeps_def by (metis snd_conv)
  have restored: "w1 \<lparr> locale_code := locale_code w, auth_user := auth_user w, auth_community := auth_community w,
      user_role := user_role w, context_community := context_community w \<rparr> = w \<lparr> clock := clock w1 \<rparr>"
    using frame by (cases w; cases w1) (simp add: without_context_def request_world_def)
  show ?thesis
  proof (cases "body_too_large rq")
    case True
    then have "\<exists>rs. serve files fresh None rq route w = (Inr rs, w) \<and> 400 \<le> rs_status rs"
      by (auto simp: serve_def acatch_def gateway_scope_def correlation_id_def request_limits_def abind_def areturn_def)
    then show ?thesis by (metis world.surjective world.update_convs(1))
  next
    case False
    have "serve files fresh None rq route w =
        (case r of
           Inl _ \<Rightarrow> (Inr \<lparr> rs_status = 500, rs_body = error_body ''Erreur interne du serveur'' 0, rs_headers = [] \<rparr>, w \<lparr> clock := clock w1 \<rparr>)
         | Inr rs \<Rightarrow> (Inr (rs \<lparr> rs_headers := dict_set ''x-request-id'' (request_id_of fresh rq) (rs_headers rs) \<rparr>), w \<lparr> clock := clock w1 \<rparr>))"
      using False r(1) restored
      by (cases r) (simp_all add: serve_def acatch_def gateway_scope_def correlation_id_def request_limits_def locale_middleware_def
          abind_def areturn_def request_world_def unhandled_exception_handler_def)
    then show ?thesis using r(2) by (cases r) auto
  qed
qed

section \<open>Properties\<close>

text \<open>C25. A request without a known user, or of a community that the CRM does not know or that has no
  active subscription, that is answered in time is answered with an error status and changes nothing, whatever the route
  would have done: only the calls made to check it are spent.\<close>

theorem unguarded_requests_change_nothing:
  assumes "\<nexists>u a c. map_of (rq_headers rq) ''x-user-id'' = Some u \<and> u \<noteq> [] \<and>
      map_of (rq_headers rq) ''x-community-id'' = Some a \<and> a \<noteq> [] \<and>
      community_of_auth (communities w) a = Some c \<and> subscribed w c ''algorithm''"
  shows "\<exists>rs k. serve files fresh None rq route w = (Inr rs, w \<lparr> clock := k \<rparr>) \<and> 400 \<le> rs_status rs"
proof -
  obtain r w1 where r: "router_dependencies (request_world rq w) = (r, w1)" by (cases "router_dependencies (request_world rq w)")
  have "r \<noteq> Inr ()"
    using dependencies_passed [of "request_world rq w" w1] r assms by (auto simp: request_world_def subscribed_def)
  then obtain x where "r = Inl x" by (cases r) auto
  with r serve_refused show ?thesis by blast
qed

theorem unguarded_requests_change_nothing_witness:
  "\<exists>rs k. serve (\<lambda>_. None) ''id'' None \<lparr> rq_method = ''DELETE'', rq_path = ''/key/5'', rq_headers = [(''x-user-id'', ''eve'')] \<rparr>
     (abind (amodify (\<lambda>w. w \<lparr> keys_t := [] \<rparr>)) (\<lambda>_. areturn \<lparr> rs_status = 200, rs_body = JNull, rs_headers = [] \<rparr>)) member_world = (Inr rs, member_world \<lparr> clock := k \<rparr>) \<and> 400 \<le> rs_status rs"
  by (rule unguarded_requests_change_nothing) simp

end
