(* ===== verification/UploadShape.thy ===== *)
theory UploadShape
  imports Regex DataLoading
begin

text \<open>
  Counting the columns and data rows of an upload without parsing it
  (\<open>api/generation/upload_shape.py\<close>). Opening a zip archive is a parameter that gives the
  parts of the archive by name, or fails; the bytes of part names are taken as ASCII, and
  the length limit of a CSV field is left out.
\<close>

type_synonym archive = "(string \<times> string) list"

definition MAX_INDEX_PART_BYTES :: nat where "MAX_INDEX_PART_BYTES = 2 * 1024 * 1024"
definition SHEET_HEAD_BYTES :: nat where "SHEET_HEAD_BYTES = 64 * 1024"

section \<open>Patterns\<close>

abbreviation "not_quote c \<equiv> c \<noteq> CHR 0x22"
abbreviation "not_close c \<equiv> c \<noteq> CHR ''>''"

definition open_tag :: "string \<Rightarrow> re list" where
  "open_tag name = [Lit ''<'', OptR (SeqR (Many False 1 is_word) (Lit '':'')), Lit name, WordB]"

definition quoted :: "re list" where
  "quoted = [Lit [CHR 0x22], Grp (Many False 1 not_quote), Lit [CHR 0x22]]"

definition FIRST_SHEET :: re where
  "FIRST_SHEET = seqr (open_tag ''sheet'' @ [Many True 0 not_close, One byte_space, Many False 1 is_word, Lit '':id=''] @ quoted)"

definition RELATIONSHIP :: re where
  "RELATIONSHIP = Grp (seqr (open_tag ''Relationship'' @ [Many False 0 not_close, Lit ''>'']))"

definition REL_ID :: re where
  "REL_ID = seqr ([One byte_space, Lit ''Id=''] @ quoted)"

definition REL_TARGET :: re where
  "REL_TARGET = seqr ([One byte_space, Lit ''Target=''] @ quoted)"

definition DIMENSION :: re where
  "DIMENSION = seqr (open_tag ''dimension'' @ [Many True 0 not_close, One byte_space, Lit ''ref='', Lit [CHR 0x22],
     OptR (seqr [Many False 1 is_letter, Many False 1 is_digit, Lit '':'']),
     Grp (Many False 1 is_letter), Grp (Many False 1 is_digit), Lit [CHR 0x22]])"

section \<open>CSV\<close>

text \<open>The states of \<open>csv.reader\<close> (dialect excel, not strict) on one line; the result counts the
  fields of the row.\<close>

datatype csv_state = StartRecord | StartField | InField | InQuoted | QuoteInQuoted | EatNewline

definition is_newline :: "char \<Rightarrow> bool" where
  "is_newline c = (c = CHR 0x0A \<or> c = CHR 0x0D)"

fun csv_fields :: "csv_state \<Rightarrow> nat \<Rightarrow> string \<Rightarrow> nat option" where
  "csv_fields StartRecord n [] = Some n"
| "csv_fields StartField n [] = Some (Suc n)"
| "csv_fields InField n [] = Some (Suc n)"
| "csv_fields InQuoted n [] = Some (Suc n)"
| "csv_fields QuoteInQuoted n [] = Some (Suc n)"
| "csv_fields EatNewline n [] = Some n"
| "csv_fields StartRecord n (c # cs) =
     (if is_newline c then csv_fields EatNewline n cs
      else if c = CHR 0x22 then csv_fields InQuoted n cs
      else if c = CHR '','' then csv_fields StartField (Suc n) cs
      else csv_fields InField n cs)"
| "csv_fields StartField n (c # cs) =
     (if is_newline c then csv_fields EatNewline (Suc n) cs
      else if c = CHR 0x22 then csv_fields InQuoted n cs
      else if c = CHR '','' then csv_fields StartField (Suc n) cs
      else csv_fields InField n cs)"
| "csv_fields InField n (c # cs) =
     (if is_newline c then csv_fields EatNewline (Suc n) cs
      else if c = CHR '','' then csv_fields StartField (Suc n) cs
      else csv_fields InField n cs)"
| "csv_fields InQuoted n (c # cs) =
     (if c = CHR 0x22 then csv_fields QuoteInQuoted n cs else csv_fields InQuoted n cs)"
| "csv_fields QuoteInQuoted n (c # cs) =
     (if c = CHR 0x22 then csv_fields InQuoted n cs
      else if c = CHR '','' then csv_fields StartField (Suc n) cs
      else if is_newline c then csv_fields EatNewline (Suc n) cs
      else csv_fields InField n cs)"
| "csv_fields EatNewline n (c # cs) = (if is_newline c then csv_fields EatNewline n cs else None)"

definition measure_csv :: "string \<Rightarrow> (nat \<times> nat) option" where
  "measure_csv content0 =
     (let content = lstrip_by is_newline content0
      in if content = [] then None
         else (let header = rstrip_by (\<lambda>c. c = CHR 0x0D) (takeWhile (\<lambda>c. c \<noteq> CHR 0x0A) content);
                   lines = length (filter (\<lambda>c. c = CHR 0x0A) content) + (if last content = CHR 0x0A then 0 else 1)
               in map_option (\<lambda>columns. (columns, lines - 1)) (csv_fields StartRecord 0 header)))"

section \<open>XLSX\<close>

text \<open>\<open>KeyError\<close>, \<open>ValueError\<close> and the rest all end as \<open>None\<close> in \<open>measure\<close>.\<close>

definition read_index_part :: "archive \<Rightarrow> string \<Rightarrow> string option" where
  "read_index_part a name =
     (case map_of a name of
        None \<Rightarrow> None
      | Some part \<Rightarrow> if MAX_INDEX_PART_BYTES < length part then None else Some part)"

text \<open>\<open>posixpath.normpath\<close> of a relative path.\<close>

fun norm_parts :: "string list \<Rightarrow> string list \<Rightarrow> string list" where
  "norm_parts acc [] = acc"
| "norm_parts acc (p # ps) =
     (if p = [] \<or> p = ''.'' then norm_parts acc ps
      else if p \<noteq> ''..'' \<or> acc = [] \<or> last acc = ''..'' then norm_parts (acc @ [p]) ps
      else norm_parts (butlast acc) ps)"

definition normpath :: "string \<Rightarrow> string" where
  "normpath path = (case norm_parts [] (split_at (CHR ''/'') path) of [] \<Rightarrow> ''.'' | ps \<Rightarrow> join ''/'' ps)"

definition sheet_path :: "string \<Rightarrow> string" where
  "sheet_path path =
     (if startswith path ''/'' then lstrip_by (\<lambda>c. c = CHR ''/'') path else normpath (''xl/'' @ path))"

definition first_sheet_part :: "archive \<Rightarrow> string option" where
  "first_sheet_part a =
     Option.bind (read_index_part a ''xl/workbook.xml'') (\<lambda>workbook.
     Option.bind (search FIRST_SHEET workbook) (\<lambda>sheet.
     Option.bind (read_index_part a ''xl/_rels/workbook.xml.rels'') (\<lambda>rels.
       (case filter (\<lambda>relationship.
                (case (search REL_ID relationship, search REL_TARGET relationship) of
                   (Some rel_id, Some _) \<Rightarrow> hd rel_id = hd sheet | _ \<Rightarrow> False))
              (map hd (find_all RELATIONSHIP None rels)) of
          [] \<Rightarrow> None
        | relationship # _ \<Rightarrow> map_option (\<lambda>target. sheet_path (hd target)) (search REL_TARGET relationship)))))"

definition upper_char :: "char \<Rightarrow> char" where
  "upper_char c = (if 97 \<le> (of_char c :: nat) \<and> (of_char c :: nat) \<le> 122 then char_of ((of_char c :: nat) - 32) else c)"

definition column_number :: "string \<Rightarrow> int" where
  "column_number letters = foldl (\<lambda>number letter. number * 26 + int (of_char letter) - 65 + 1) 0 (map upper_char letters)"

text \<open>\<open>int\<close> of more than 4300 digits raises \<open>ValueError\<close>.\<close>

definition measure_xlsx :: "archive \<Rightarrow> (int \<times> nat) option" where
  "measure_xlsx a =
     Option.bind (first_sheet_part a) (\<lambda>sheet_part.
     Option.bind (map_of a sheet_part) (\<lambda>part.
       (case search DIMENSION (take SHEET_HEAD_BYTES part) of
          Some [last_column, last_row] \<Rightarrow>
            if 4300 < length last_row then None
            else Some (column_number last_column, digits_value last_row - 1)
        | _ \<Rightarrow> None)))"

definition upload_measure :: "(string \<Rightarrow> archive option) \<Rightarrow> string \<Rightarrow> string \<Rightarrow> (int \<times> nat) option" where
  "upload_measure open_zip content file_name =
     (let extension = file_extension file_name
      in if extension = ''csv'' then map_option (\<lambda>(c, r). (int c, r)) (measure_csv content)
         else if extension = ''xlsx'' \<or> extension = ''xls'' then Option.bind (open_zip content) measure_xlsx
         else None)"

section \<open>Columns\<close>

text \<open>The letters of a column, the way spreadsheets count.\<close>

fun column_letters :: "nat \<Rightarrow> string" where
  "column_letters n = (if n = 0 then [] else column_letters ((n - 1) div 26) @ [char_of (65 + (n - 1) mod 26)])"

declare column_letters.simps [simp del]

lemma letter_value:
  assumes "d < 26"
  shows "(of_char (upper_char (char_of (65 + d))) :: nat) = 65 + d"
  using assms by (simp add: upper_char_def)

lemma column_number_letters: "column_number (column_letters n) = int n"
proof (induction n rule: column_letters.induct)
  case (1 n)
  show ?case
  proof (cases "n = 0")
    case True
    then show ?thesis by (simp add: column_letters.simps [of 0] column_number_def)
  next
    case False
    have "column_number (column_letters n) =
        column_number (column_letters ((n - 1) div 26)) * 26 + int (of_char (upper_char (char_of (65 + (n - 1) mod 26)))) - 65 + 1"
      using False by (simp add: column_letters.simps [of n] column_number_def)
    also have "\<dots> = int ((n - 1) div 26) * 26 + int ((n - 1) mod 26) + 1"
    proof -
      have v: "(of_char (upper_char (char_of (65 + (n - 1) mod 26))) :: nat) = 65 + (n - 1) mod 26"
        by (rule letter_value) simp
      show ?thesis unfolding 1 [OF False] v by simp
    qed
    also have "\<dots> = int n" using False div_mult_mod_eq [of "n - 1" 26] by linarith
    finally show ?thesis .
  qed
qed

section \<open>Counting a CSV file\<close>

text \<open>The text of a table whose fields need no quotes.\<close>

definition simple_field :: "string \<Rightarrow> bool" where
  "simple_field f = list_all (\<lambda>c. c \<noteq> CHR '','' \<and> c \<noteq> CHR 0x22 \<and> \<not> is_newline c) f"

definition csv_text :: "string list list \<Rightarrow> string" where
  "csv_text rows = concat (map (\<lambda>r. join '','' r @ [CHR 0x0A]) rows)"

lemma csv_field_inside: "simple_field f \<Longrightarrow> csv_fields InField n (f @ cs) = csv_fields InField n cs"
  by (induction f) (simp_all add: simple_field_def)

lemma csv_field_start:
  "simple_field f \<Longrightarrow> csv_fields StartField n (f @ CHR '','' # cs) = csv_fields StartField (Suc n) cs"
  "simple_field f \<Longrightarrow> csv_fields StartField n f = Some (Suc n)"
  using csv_field_inside [of "tl f" n "CHR '','' # cs"] csv_field_inside [of "tl f" n "[]"]
  by (cases f; auto simp: simple_field_def is_newline_def)+

lemma csv_fields_join:
  "h \<noteq> [] \<Longrightarrow> list_all simple_field h \<Longrightarrow> csv_fields StartField n (join '','' h) = Some (n + length h)"
proof (induction h arbitrary: n rule: induct_list012)
  case (3 x y xs)
  then show ?case using csv_field_start(1) [of x n "join '','' (y # xs)"] by simp
qed (simp_all add: csv_field_start)

lemma join_chars: "set (join '','' h) \<subseteq> \<Union> (set ` set h) \<union> {CHR '',''}"
  by (induction h rule: induct_list012) auto

lemma join_lines:
  assumes "list_all simple_field r"
  shows "CHR 0x0A \<notin> set (join '','' r)" "CHR 0x0D \<notin> set (join '','' r)"
  using join_chars [of r] assms by (auto simp: list_all_iff simple_field_def is_newline_def)

lemma measure_csv_text:
  assumes "h \<noteq> []" "h \<noteq> [[]]" "list_all (list_all simple_field) (h # rows)"
  shows "measure_csv (csv_text (h # rows)) = Some (length h, length rows)"
proof -
  let ?hd = "join '','' h" and ?text = "csv_text (h # rows)"
  have h: "list_all simple_field h" using assms(3) by simp
  have ne: "?hd \<noteq> []" using assms(1,2) by (induction h rule: induct_list012) auto
  have first: "\<not> is_newline (hd ?hd)"
    using join_lines [OF h] hd_in_set [OF ne] unfolding is_newline_def by metis
  have body: "?text = ?hd @ CHR 0x0A # csv_text rows" by (simp add: csv_text_def)
  have strip: "lstrip_by is_newline ?text = ?text"
    using ne first by (cases ?hd) (simp_all add: body lstrip_by_def)
  have header: "takeWhile (\<lambda>c. c \<noteq> CHR 0x0A) ?text = ?hd"
  proof -
    have "takeWhile (\<lambda>c. c \<noteq> CHR 0x0A) (?hd @ CHR 0x0A # csv_text rows) =
        ?hd @ takeWhile (\<lambda>c. c \<noteq> CHR 0x0A) (CHR 0x0A # csv_text rows)"
      by (rule takeWhile_append2) (use join_lines(1) [OF h] in metis)
    then show ?thesis by (simp add: body)
  qed
  have last: "last ?text = CHR 0x0A"
    unfolding csv_text_def by (induction rows rule: rev_induct) simp_all
  have "length (filter (\<lambda>c. c = CHR 0x0A) (csv_text rs)) = length rs" if "list_all (list_all simple_field) rs" for rs
    using that join_lines(1) by (induction rs) (auto simp: csv_text_def filter_empty_conv)
  then have lines: "length (filter (\<lambda>c. c = CHR 0x0A) ?text) = Suc (length rows)" using assms(3) by simp
  have rstrip: "rstrip_by (\<lambda>c. c = CHR 0x0D) ?hd = ?hd"
  proof -
    have "hd (rev ?hd) \<noteq> CHR 0x0D" using join_lines(2) [OF h] ne last_in_set [OF ne] unfolding hd_rev by metis
    then show ?thesis using ne by (cases "rev ?hd") (simp_all add: rstrip_by_def)
  qed
  have "csv_fields StartRecord 0 ?hd = csv_fields StartField 0 ?hd"
    using ne first by (cases ?hd) simp_all
  then show ?thesis
    using csv_fields_join [OF assms(1) h, of 0] ne
    unfolding measure_csv_def Let_def strip header rstrip last lines by (simp add: body)
qed

section \<open>Properties\<close>

text \<open>The number the service computes from the letters of a spreadsheet column is the position of
  that column: it inverts the way spreadsheets name columns, for every column.\<close>

theorem column_number_inverts_names: "column_number (column_letters n) = int n"
  by (rule column_number_letters)

text \<open>For a CSV file without quoted fields the count is exact: the columns of the header and one
  data row for every further line, so that the check on the size of a problem is the one the
  worker will make on the parsed table.\<close>

theorem csv_count_is_exact:
  assumes "h \<noteq> []" "h \<noteq> [[]]" "list_all (list_all simple_field) (h # rows)" "file_extension name = ''csv''"
  shows "upload_measure open_zip (csv_text (h # rows)) name = Some (int (length h), length rows)"
  using measure_csv_text [OF assms(1-3)] assms(4) by (simp add: upload_measure_def)

theorem csv_count_is_exact_witness:
  "upload_measure (\<lambda>_. None) (csv_text [[''a'', ''pv''], [''1'', ''2''], [''3'', ''4'']]) ''data.csv'' = Some (2, 2)"
  using csv_count_is_exact [of "[''a'', ''pv'']" "[[''1'', ''2''], [''3'', ''4'']]" "''data.csv''" "\<lambda>_. None"]
  by (simp add: simple_field_def is_newline_def file_extension_def lower_char_def)

end
