(* ===== verification/Persistence.thy ===== *)
theory Persistence
  imports Platform
begin

text \<open>
  The worker's writes (\<open>worker/persistence.py\<close>): \<open>save_success\<close> and \<open>save_failure\<close>. Both claim the
  row with an UPDATE that requires the status PENDING, in one transaction with what they write;
  the locale \<open>guarded_update\<close> states what such a claim promises and shows that in every
  interleaving of claims each row is decided once, by the first one.
\<close>

datatype worker_exc = TransientError string | SolverCrashError string | WorkerException string

definition ERROR_MESSAGE_MAX_LEN :: nat where
  "ERROR_MESSAGE_MAX_LEN = 2000"

section \<open>Claims\<close>

datatype verdict = Succeeded algorithm_result | Failed string

definition consumer_rows_of :: "int \<Rightarrow> int \<Rightarrow> consumer_result list \<Rightarrow> consumer_row list" where
  "consumer_rows_of cid next_consumer cs =
     map (\<lambda>(i, c). \<lparr> crow_id = next_consumer + int i, crow_name = cr_name c,
       crow_percentage = cr_energy_allocated_percentage c, crow_community = cid \<rparr>) (enumerate 0 cs)"

definition iteration_row_of :: "int \<Rightarrow> int \<Rightarrow> int \<Rightarrow> iteration_result \<Rightarrow> iteration_row" where
  "iteration_row_of cid iid next_consumer it =
     \<lparr> irow_id = iid, irow_number = ir_number it, irow_percentage = ir_energy_allocated_percentage it,
       irow_surplus_total = ir_surplus_total it, irow_community = cid,
       irow_consumers = consumer_rows_of cid next_consumer (ir_consumers it) \<rparr>"

fun iteration_rows_of :: "int \<Rightarrow> int \<Rightarrow> int \<Rightarrow> iteration_result list \<Rightarrow> iteration_row list" where
  "iteration_rows_of cid next_iteration next_consumer [] = []"
| "iteration_rows_of cid next_iteration next_consumer (it # its) =
     iteration_row_of cid next_iteration next_consumer it #
     iteration_rows_of cid (next_iteration + 1) (next_consumer + int (length (ir_consumers it))) its"

definition consumer_count :: "key_result \<Rightarrow> nat" where
  "consumer_count k = sum_list (map (\<lambda>it. length (ir_consumers it)) (kr_iterations k))"

definition key_row_of :: "int \<Rightarrow> int \<Rightarrow> int \<Rightarrow> int \<Rightarrow> int \<Rightarrow> key_result \<Rightarrow> key_row" where
  "key_row_of gid cid kid next_iteration next_consumer k =
     \<lparr> k_id = kid, k_name = kr_name k, k_description = kr_description k,
       k_surplus_total = sum_list (map ir_surplus_total (kr_iterations k)),
       k_generation = gid, k_community = cid,
       k_iterations = iteration_rows_of cid next_iteration next_consumer (kr_iterations k) \<rparr>"

text \<open>The keys of a result, with consecutive ids from the sequences of the three tables.\<close>

fun key_rows_of :: "int \<Rightarrow> int \<Rightarrow> int \<Rightarrow> int \<Rightarrow> int \<Rightarrow> key_result list \<Rightarrow> key_row list" where
  "key_rows_of gid cid next_id next_iteration next_consumer [] = []"
| "key_rows_of gid cid next_id next_iteration next_consumer (k # ks) =
     key_row_of gid cid next_id next_iteration next_consumer k #
     key_rows_of gid cid (next_id + 1) (next_iteration + int (length (kr_iterations k)))
       (next_consumer + int (consumer_count k)) ks"

text \<open>
  The transaction: \<open>UPDATE generation SET ... WHERE id = ? AND status = PENDING\<close> and, when it
  matched, the INSERT of the result tree. The result is whether a row was matched.
\<close>

definition claim :: "int \<Rightarrow> int \<times> verdict \<Rightarrow> world \<Rightarrow> bool \<times> world" where
  "claim gid cv w =
     (case generations_t w gid of
        None \<Rightarrow> (False, w)
      | Some g \<Rightarrow>
          if g_status g \<noteq> PENDING then (False, w)
          else (case cv of
                  (cid, Succeeded res) \<Rightarrow>
                    (True, w \<lparr> generations_t := (generations_t w)(gid \<mapsto> g \<lparr> g_status := SUCCESS, g_error_message := None \<rparr>),
                               keys_t := keys_t w @ key_rows_of gid cid (next_key_id w) (next_iteration_id w) (next_consumer_id w) (ar_keys res),
                               next_key_id := next_key_id w + int (length (ar_keys res)),
                               next_iteration_id := next_iteration_id w + int (sum_list (map (\<lambda>k. length (kr_iterations k)) (ar_keys res))),
                               next_consumer_id := next_consumer_id w + int (sum_list (map consumer_count (ar_keys res))) \<rparr>)
                | (cid, Failed m) \<Rightarrow>
                    (True, w \<lparr> generations_t := (generations_t w)(gid \<mapsto>
                       g \<lparr> g_status := FAILED, g_error_message := Some (take ERROR_MESSAGE_MAX_LEN m) \<rparr>) \<rparr>)))"

section \<open>Saving\<close>

definition raise_worker :: "outcome \<Rightarrow> worker_exc" where
  "raise_worker x = WorkerException (outcome_message x)"

definition worker_crm_commit :: "(world, worker_exc, unit) act" where
  "worker_crm_commit = acatch crm_commit (\<lambda>m. araise (WorkerException m))"

definition read_generation :: "int \<Rightarrow> (world, worker_exc, generation_row option) act" where
  "read_generation gid = outside raise_worker (\<lambda>w. (generations_t w gid, w))"

definition finished_hint :: "(json \<Rightarrow> nat) \<Rightarrow> int \<Rightarrow> int \<Rightarrow> string \<Rightarrow> (world, worker_exc, unit) act" where
  "finished_hint byte_length gid cid st =
     emit byte_length ''generation.finished'' (CommunityAudience cid MANAGER) (''generation'', Some (show_int gid))
       [(''status'', JStr st)] (Some cid)"

definition save_success :: "(json \<Rightarrow> nat) \<Rightarrow> int \<Rightarrow> algorithm_result \<Rightarrow> (world, worker_exc, unit) act" where
  "save_success byte_length gid result =
     abind (read_generation gid) (\<lambda>row.
       (case row of
          None \<Rightarrow> areturn ()
        | Some g \<Rightarrow>
            abind (outside raise_worker (claim gid (g_community g, Succeeded result))) (\<lambda>claimed.
              if \<not> claimed then areturn ()
              else
                abind (with_crm_session (abind (audit_log
                    \<lparr> ai_action = GENERATION_SUCCEEDED, ai_entity_type = ''generation'',
                      ai_entity_id = Some (show_int gid),
                      ai_payload = [(''algorithm_name'', JStr (g_algorithm_name g)),
                                    (''key_count'', JInt (int (length (ar_keys result))))],
                      ai_source = None \<rparr>
                    (Some (g_community g))) (\<lambda>_. worker_crm_commit))) (\<lambda>_.
                  finished_hint byte_length gid (g_community g) ''success''))))"

definition save_failure :: "(json \<Rightarrow> nat) \<Rightarrow> int \<Rightarrow> string \<Rightarrow> (world, worker_exc, unit) act" where
  "save_failure byte_length gid error_message =
     abind (read_generation gid) (\<lambda>row.
       (case row of
          None \<Rightarrow> areturn ()
        | Some g \<Rightarrow>
            abind (outside raise_worker (claim gid (g_community g, Failed error_message))) (\<lambda>claimed.
              if \<not> claimed then areturn ()
              else
                abind (with_crm_session (abind (audit_log
                    \<lparr> ai_action = GENERATION_FAILED, ai_entity_type = ''generation'',
                      ai_entity_id = Some (show_int gid),
                      ai_payload = [(''algorithm_name'', JStr (g_algorithm_name g)),
                                    (''error_message'', JStr (take ERROR_MESSAGE_MAX_LEN error_message))],
                      ai_source = None \<rparr>
                    (Some (g_community g))) (\<lambda>_. worker_crm_commit))) (\<lambda>_.
                  finished_hint byte_length gid (g_community g) ''failed''))))"

section \<open>Guarded updates\<close>

text \<open>
  What a claim promises: it succeeds exactly on an open row, closes it, leaves the state alone when
  it does not succeed, and does not open or close any other row.
\<close>

locale guarded_update =
  fixes is_open :: "'s \<Rightarrow> 'k \<Rightarrow> bool"
    and attempt :: "'k \<Rightarrow> 'v \<Rightarrow> 's \<Rightarrow> bool \<times> 's"
  assumes attempt_iff: "fst (attempt k v s) = is_open s k"
    and attempt_closes: "\<not> is_open (snd (attempt k v s)) k"
    and attempt_noop: "\<not> is_open s k \<Longrightarrow> snd (attempt k v s) = s"
    and attempt_frame: "k' \<noteq> k \<Longrightarrow> is_open (snd (attempt k v s)) k' = is_open s k'"
begin

text \<open>A sequence of claims in the order the database serialises them, with their results.\<close>

fun attempts :: "('k \<times> 'v) list \<Rightarrow> 's \<Rightarrow> bool list \<times> 's" where
  "attempts [] s = ([], s)"
| "attempts ((k, v) # cs) s =
     (let (b, s1) = attempt k v s; (bs, s2) = attempts cs s1 in (b # bs, s2))"

definition results_for :: "'k \<Rightarrow> ('k \<times> 'v) list \<Rightarrow> 's \<Rightarrow> bool list" where
  "results_for k cs s = map snd (filter (\<lambda>(c, _). fst c = k) (zip cs (fst (attempts cs s))))"

lemma attempts_step:
  "attempts ((k, v) # cs) s =
     (is_open s k # fst (attempts cs (snd (attempt k v s))), snd (attempts cs (snd (attempt k v s))))"
  by (simp add: case_prod_beta attempt_iff)

lemma closed_stays:
  "\<not> is_open s k \<Longrightarrow> \<not> is_open (snd (attempts cs s)) k \<and> results_for k cs s = replicate (length (results_for k cs s)) False"
proof (induction cs arbitrary: s)
  case Nil
  then show ?case by (simp add: results_for_def)
next
  case (Cons c cs)
  obtain k' v where c: "c = (k', v)" by (cases c)
  let ?s = "snd (attempt k' v s)"
  have "\<not> is_open ?s k"
    using Cons.prems attempt_closes attempt_frame by (cases "k' = k") auto
  from Cons.IH [OF this] show ?case
    using Cons.prems by (auto simp: c attempts_step results_for_def simp del: attempts.simps)
qed

lemma first_wins:
  assumes "is_open s k"
  shows "results_for k cs s = [] \<or> results_for k cs s = True # replicate (length (results_for k cs s) - 1) False"
  using assms
proof (induction cs arbitrary: s)
  case Nil
  then show ?case by (simp add: results_for_def)
next
  case (Cons c cs)
  obtain k' v where c: "c = (k', v)" by (cases c)
  let ?s = "snd (attempt k' v s)"
  show ?case
  proof (cases "k' = k")
    case True
    from closed_stays [OF attempt_closes [of k v s], of cs] Cons.prems True show ?thesis
      by (simp add: c attempts_step results_for_def del: attempts.simps)
  next
    case False
    then have "is_open ?s k" using Cons.prems attempt_frame by simp
    from Cons.IH [OF this] False show ?thesis
      by (simp add: c attempts_step results_for_def del: attempts.simps)
  qed
qed

end

definition row_open :: "world \<Rightarrow> int \<Rightarrow> bool" where
  "row_open w gid = (case generations_t w gid of None \<Rightarrow> False | Some g \<Rightarrow> g_status g = PENDING)"

interpretation claims: guarded_update row_open claim
proof unfold_locales
  fix k v s k'
  show "fst (claim k v s) = row_open s k"
    by (auto simp: claim_def row_open_def split: option.splits prod.splits verdict.splits)
  show "\<not> row_open (snd (claim k v s)) k"
    by (auto simp: claim_def row_open_def split: option.splits prod.splits verdict.splits)
  show "\<not> row_open s k \<Longrightarrow> snd (claim k v s) = s"
    by (auto simp: claim_def row_open_def split: option.splits prod.splits verdict.splits)
  show "k' \<noteq> k \<Longrightarrow> row_open (snd (claim k v s)) k' = row_open s k'"
    by (auto simp: claim_def row_open_def split: option.splits prod.splits verdict.splits)
qed

section \<open>Sequences of claims\<close>

text \<open>Claims of any number of workers, in the order in which the database serialises them.\<close>

fun run_claims :: "(int \<times> int \<times> verdict) list \<Rightarrow> world \<Rightarrow> bool list \<times> world" where
  "run_claims [] w = ([], w)"
| "run_claims ((gid, cv) # cs) w =
     (let (b, w1) = claim gid cv w; (bs, w2) = run_claims cs w1 in (b # bs, w2))"

definition claims_on :: "int \<Rightarrow> (int \<times> int \<times> verdict) list \<Rightarrow> world \<Rightarrow> bool list" where
  "claims_on gid cs w = map snd (filter (\<lambda>(c, _). fst c = gid) (zip cs (fst (run_claims cs w))))"

lemma run_claims_attempts: "run_claims cs w = claims.attempts cs w"
proof (induction cs arbitrary: w)
  case (Cons c cs)
  then show ?case by (cases c) (simp add: case_prod_beta)
qed simp

lemma claims_on_results: "claims_on gid cs w = claims.results_for gid cs w"
  by (simp add: claims_on_def claims.results_for_def run_claims_attempts)

text \<open>The row a verdict leaves, and the keys of a generation apart from their ids.\<close>

definition decided :: "verdict \<Rightarrow> generation_row \<Rightarrow> generation_row" where
  "decided v g = (case v of
     Succeeded _ \<Rightarrow> g \<lparr> g_status := SUCCESS, g_error_message := None \<rparr>
   | Failed m \<Rightarrow> g \<lparr> g_status := FAILED, g_error_message := Some (take ERROR_MESSAGE_MAX_LEN m) \<rparr>)"

definition without_ids :: "key_row \<Rightarrow> key_row" where
  "without_ids k = k \<lparr> k_id := 0, k_iterations := map (\<lambda>it. it \<lparr> irow_id := 0,
     irow_consumers := map (\<lambda>c. c \<lparr> crow_id := 0 \<rparr>) (irow_consumers it) \<rparr>) (k_iterations k) \<rparr>"

definition keys_of :: "int \<Rightarrow> world \<Rightarrow> key_row list" where
  "keys_of gid w = map without_ids (filter (\<lambda>k. k_generation k = gid) (keys_t w))"

definition verdict_keys :: "int \<Rightarrow> int \<Rightarrow> verdict \<Rightarrow> key_row list" where
  "verdict_keys gid cid v = (case v of Succeeded res \<Rightarrow> map (\<lambda>k. without_ids (key_row_of gid cid 0 0 0 k)) (ar_keys res) | Failed _ \<Rightarrow> [])"

lemma key_rows_generation:
  "filter (\<lambda>k. k_generation k = gid') (key_rows_of gid cid n i c ks) = (if gid' = gid then key_rows_of gid cid n i c ks else [])"
  by (induction ks arbitrary: n i c) (auto simp: key_row_of_def)

lemma key_rows_others: "filter (\<lambda>k. k_generation k \<noteq> gid) (key_rows_of gid cid n i c ks) = []"
  by (induction ks arbitrary: n i c) (auto simp: key_row_of_def)

lemma consumer_rows_erased: "map (\<lambda>c. c \<lparr> crow_id := 0 \<rparr>) (consumer_rows_of cid n cs) = map (\<lambda>c. c \<lparr> crow_id := 0 \<rparr>) (consumer_rows_of cid 0 cs)"
  by (rule nth_equalityI) (simp_all add: consumer_rows_of_def nth_enumerate_eq)

lemma iteration_rows_erased:
  "map (\<lambda>it. it \<lparr> irow_id := 0, irow_consumers := map (\<lambda>c. c \<lparr> crow_id := 0 \<rparr>) (irow_consumers it) \<rparr>) (iteration_rows_of cid i c its) =
   map (\<lambda>it. (iteration_row_of cid 0 0 it) \<lparr> irow_consumers := map (\<lambda>c. c \<lparr> crow_id := 0 \<rparr>) (consumer_rows_of cid 0 (ir_consumers it)) \<rparr>) its"
proof (induction its arbitrary: i c)
  case (Cons it its)
  then show ?case using consumer_rows_erased [of cid c "ir_consumers it"] by (simp add: iteration_row_of_def)
qed simp

lemma key_rows_erased: "map without_ids (key_rows_of gid cid n i c ks) = map (\<lambda>k. without_ids (key_row_of gid cid 0 0 0 k)) ks"
  by (induction ks arbitrary: n i c) (simp_all add: without_ids_def key_row_of_def iteration_rows_erased)

lemma claim_other:
  assumes "gid' \<noteq> gid"
  shows "generations_t (snd (claim gid cv w)) gid' = generations_t w gid'"
    "keys_of gid' (snd (claim gid cv w)) = keys_of gid' w"
  using assms by (auto simp: claim_def keys_of_def key_rows_generation split: option.splits prod.splits verdict.splits)

lemma claim_open:
  assumes "generations_t w gid = Some g" "g_status g = PENDING"
  shows "generations_t (snd (claim gid (cid, v) w)) gid = Some (decided v g)"
    "keys_of gid (snd (claim gid (cid, v) w)) = keys_of gid w @ verdict_keys gid cid v"
  using assms by (auto simp: claim_def keys_of_def decided_def verdict_keys_def key_rows_generation
      key_rows_erased split: verdict.splits)

lemma run_claims_closed:
  "\<not> row_open w gid \<Longrightarrow>
    generations_t (snd (run_claims cs w)) gid = generations_t w gid \<and> keys_of gid (snd (run_claims cs w)) = keys_of gid w"
proof (induction cs arbitrary: w)
  case (Cons c cs)
  obtain gid' cv where c: "c = (gid', cv)" by (cases c)
  let ?w = "snd (claim gid' cv w)"
  have "\<not> row_open ?w gid" and "generations_t ?w gid = generations_t w gid" "keys_of gid ?w = keys_of gid w"
    using Cons.prems claims.attempt_noop claims.attempt_frame claim_other by (cases "gid' = gid"; metis)+
  with Cons.IH [of ?w] show ?case by (simp add: c case_prod_beta)
qed simp

lemma run_claims_first:
  assumes "generations_t w gid = Some g" "g_status g = PENDING" "find (\<lambda>c. fst c = gid) cs = Some (gid, cid, v)"
  shows "generations_t (snd (run_claims cs w)) gid = Some (decided v g) \<and>
    keys_of gid (snd (run_claims cs w)) = keys_of gid w @ verdict_keys gid cid v"
  using assms
proof (induction cs arbitrary: w)
  case (Cons c cs)
  obtain gid' cv where c: "c = (gid', cv)" by (cases c)
  let ?w = "snd (claim gid' cv w)"
  show ?case
  proof (cases "gid' = gid")
    case True
    with Cons.prems(3) have cv: "cv = (cid, v)" by (simp add: c)
    have "\<not> row_open ?w gid" using claims.attempt_closes True by simp
    from run_claims_closed [OF this, of cs] claim_open [OF Cons.prems(1,2), of cid v] show ?thesis
      using True cv by (simp add: c case_prod_beta)
  next
    case False
    then have "generations_t ?w gid = Some g" "keys_of gid ?w = keys_of gid w"
      using claim_other [of gid gid' cv w] Cons.prems(1) by auto
    with Cons.IH [of ?w] Cons.prems(2,3) False show ?thesis by (simp add: c case_prod_beta)
  qed
qed simp

section \<open>Properties\<close>

text \<open>C12. However the transactions of any number of workers interleave, a pending generation is
  decided once: among the claims on it the first succeeds and all others report that nothing was
  matched; its row and its generated keys are the ones of the first verdict, and stay so. Results
  are never written twice.\<close>

theorem one_verdict_per_generation:
  assumes "generations_t w gid = Some g" "g_status g = PENDING" "find (\<lambda>c. fst c = gid) cs = Some (gid, cid, v)"
  shows "claims_on gid cs w = True # replicate (length (claims_on gid cs w) - 1) False \<and>
    generations_t (snd (run_claims cs w)) gid = Some (decided v g) \<and>
    keys_of gid (snd (run_claims cs w)) = keys_of gid w @ verdict_keys gid cid v"
proof -
  have "row_open w gid" using assms(1,2) by (simp add: row_open_def)
  moreover have "claims_on gid cs w \<noteq> []"
  proof -
    have len: "length (fst (run_claims cs x)) = length cs" for x
      by (induction cs arbitrary: x) (auto simp: case_prod_beta)
    obtain i where "i < length cs" "fst (cs ! i) = gid"
      using assms(3) by (auto simp: find_Some_iff)
    then have "(cs ! i, fst (run_claims cs w) ! i) \<in> set (zip cs (fst (run_claims cs w)))"
      using len [of w] by (auto simp: set_zip)
    with \<open>fst (cs ! i) = gid\<close> show ?thesis unfolding claims_on_def by (auto simp: filter_empty_conv)
  qed
  ultimately show ?thesis
    using claims.first_wins [of w gid cs] run_claims_first [OF assms] by (simp add: claims_on_results)
qed

theorem one_verdict_per_generation_witness:
  "claims_on 5 [(9, 7, Failed ''a''), (5, 7, Failed ''b''), (5, 7, Succeeded \<lparr> ar_keys = [] \<rparr>)] pending_world = [True, False] \<and>
   generations_t (snd (run_claims [(9, 7, Failed ''a''), (5, 7, Failed ''b''), (5, 7, Succeeded \<lparr> ar_keys = [] \<rparr>)] pending_world)) 5 =
     Some (decided (Failed ''b'') pending_file_row)"
proof -
  let ?cs = "[(9, 7, Failed ''a''), (5, 7, Failed ''b''), (5, 7, Succeeded \<lparr> ar_keys = [] \<rparr>)]"
  have "generations_t pending_world 5 = Some pending_file_row" "g_status pending_file_row = PENDING"
    by (simp_all add: pending_world_def quiet_world_def pending_file_row_def)
  from one_verdict_per_generation [OF this, of ?cs 7 "Failed ''b''"]
  have th: "claims_on 5 ?cs pending_world = True # replicate (length (claims_on 5 ?cs pending_world) - 1) False"
    "generations_t (snd (run_claims ?cs pending_world)) 5 = Some (decided (Failed ''b'') pending_file_row)"
    by simp_all
  have "length (claims_on 5 ?cs pending_world) = 2"
    by (simp add: claims_on_def case_prod_beta)
  with th show ?thesis by simp
qed

end
