(* ===== verification/Dispatcher.thy ===== *)
theory Dispatcher
  imports Persistence
begin

text \<open>
  The worker's message handler (\<open>worker/dispatcher.py\<close>) with the events of
  \<open>core/queue/helper.py\<close>: decoding a message, the pipeline \<open>_process\<close> with its two sources, the
  delivery limits, and the reply to the broker. What is proved of it is in \<open>Dispatching\<close>.
\<close>

section \<open>Events\<close>

text \<open>
  The bytes of a message are the text of a JSON value; the text layer of the standard library is
  left out, and bytes that are not JSON are \<open>None\<close>. A missing field raises \<open>KeyError\<close>, a value
  that is not an object \<open>TypeError\<close>.
\<close>

record event =
  ev_type :: string
  ev_version :: json
  ev_data :: json

definition encode_event :: "event \<Rightarrow> json" where
  "encode_event e = JObj [(''type'', JStr (ev_type e)), (''version'', ev_version e), (''data'', ev_data e)]"

record decoded_event =
  de_type :: json
  de_version :: json
  de_data :: json

definition decode_event :: "json option \<Rightarrow> decoded_event option" where
  "decode_event raw =
     (case raw of
        Some (JObj kvs) \<Rightarrow>
          (case (map_of kvs ''type'', map_of kvs ''version'', map_of kvs ''data'') of
             (Some t, Some v, Some d) \<Rightarrow> Some \<lparr> de_type = t, de_version = v, de_data = d \<rparr>
           | _ \<Rightarrow> None)
      | _ \<Rightarrow> None)"

text \<open>\<open>isinstance(generation_id, int)\<close>: a Python \<open>bool\<close> is an \<open>int\<close>.\<close>

definition generation_id_of :: "json \<Rightarrow> int option" where
  "generation_id_of d =
     (case d of
        JObj kvs \<Rightarrow>
          (case map_of kvs ''generation_id'' of
             Some (JInt i) \<Rightarrow> Some i
           | Some (JBool b) \<Rightarrow> Some (if b then 1 else 0)
           | _ \<Rightarrow> None)
      | _ \<Rightarrow> None)"

section \<open>Messages and parameters\<close>

record msg =
  msg_data :: "json option"
  msg_num_delivered :: "nat option"

record worker_env =
  we_midnight :: "int \<Rightarrow> int"
  we_parsers :: parsers
  we_coercion :: coercion
  we_registry :: registry
  we_byte_length :: "json \<Rightarrow> nat"
  we_executor :: bool

definition ACK_WAIT_SECONDS :: nat where "ACK_WAIT_SECONDS = 10 * 60"
definition IN_PROGRESS_INTERVAL_SECONDS :: nat where "IN_PROGRESS_INTERVAL_SECONDS = 60"
definition NAK_RETRY_DELAY_SECONDS :: nat where "NAK_RETRY_DELAY_SECONDS = 30"
definition MAX_SOLVER_CRASH_DELIVERIES :: nat where "MAX_SOLVER_CRASH_DELIVERIES = 3"
definition MAX_DELIVERIES :: nat where "MAX_DELIVERIES = 10"
definition MAX_DELIVER :: nat where "MAX_DELIVER = MAX_DELIVERIES + 1"

definition delivery_count :: "msg \<Rightarrow> nat option" where
  "delivery_count m = msg_num_delivered m"

record snapshot =
  sn_id :: int
  sn_source :: data_source
  sn_file_storage_key :: "string option"
  sn_file_name :: "string option"
  sn_injection_name :: "string option"
  sn_sharing_operation :: "int option"
  sn_period_start :: "int option"
  sn_period_end :: "int option"
  sn_inputs :: json
  sn_community :: int
  sn_status :: generation_status

definition snapshot_of :: "generation_row \<Rightarrow> snapshot" where
  "snapshot_of g =
     \<lparr> sn_id = g_id g, sn_source = g_source g, sn_file_storage_key = g_file_storage_key g,
       sn_file_name = g_file_name g, sn_injection_name = g_injection_name g,
       sn_sharing_operation = g_sharing_operation g, sn_period_start = g_period_start g,
       sn_period_end = g_period_end g,
       sn_inputs = (case g_inputs g of None \<Rightarrow> JObj [] | Some j \<Rightarrow> j),
       sn_community = g_community g, sn_status = g_status g \<rparr>"

definition snapshot_generation :: "int \<Rightarrow> (world, worker_exc, snapshot option) act" where
  "snapshot_generation gid = abind (read_generation gid) (\<lambda>row. areturn (map_option snapshot_of row))"

text \<open>\<open>_Terminal\<close> is its storage key.\<close>

type_synonym terminal = "string option"

text \<open>\<open>str(exc)\<close> of the exceptions that reach the messages.\<close>

definition show_py_error :: "py_error \<Rightarrow> string" where
  "show_py_error e = (case e of
     IndexError \<Rightarrow> ''list index out of range'' | KeyError k \<Rightarrow> repr k | ZeroDivisionError \<Rightarrow> ''division by zero''
   | ValueError m \<Rightarrow> m | RuntimeError m \<Rightarrow> m | AttributeError \<Rightarrow> ''attribute error'' | TypeError \<Rightarrow> ''type error''
   | SolverError m \<Rightarrow> m)"

definition show_pivot_error :: "pivot_error \<Rightarrow> string" where
  "show_pivot_error e = (case e of
     NoReadings \<Rightarrow> ''no readings to pivot''
   | NoConsumers \<Rightarrow> ''no consumer EANs requested''
   | ReservedColumn \<Rightarrow> repr INJECTION_COLUMN @ '' is reserved and cannot be a participant''
   | DuplicateReadings \<Rightarrow> ''duplicate (ean, timestamp) readings: ''
   | MissingParticipants es \<Rightarrow> ''no readings for requested participant(s): ['' @ join '', '' (map repr es) @ '']'')"

section \<open>Loading\<close>

definition fail_with :: "worker_env \<Rightarrow> int \<Rightarrow> string \<Rightarrow> terminal \<Rightarrow> (world, worker_exc, terminal) act" where
  "fail_with env gid m t = abind (save_failure (we_byte_length env) gid m) (\<lambda>_. areturn t)"

text \<open>The \<open>except\<close> clauses around the download, and the parse that follows it.\<close>

definition parse_upload ::
  "worker_env \<Rightarrow> snapshot \<Rightarrow> string \<Rightarrow> string \<Rightarrow> storage_error + string \<Rightarrow> (world, worker_exc, terminal + raw_data) act" where
  "parse_upload env sn k name got =
     (case got of
        Inl (ObjectNotFound _) \<Rightarrow> abind (fail_with env (sn_id sn) ''storage_object_missing'' None) (\<lambda>t. areturn (Inl t))
      | Inl (TransientStorageError m) \<Rightarrow> araise (TransientError (''storage download: '' @ m))
      | Inl (StorageOther m) \<Rightarrow> araise (WorkerException m)
      | Inr content \<Rightarrow>
          (case load (we_parsers env) content name (case sn_injection_name sn of None \<Rightarrow> '''' | Some i \<Rightarrow> i) of
             Inr rd \<Rightarrow> areturn (Inr rd)
           | Inl (ParserError m) \<Rightarrow>
               abind (fail_with env (sn_id sn) (''parse_failed_unexpected: '' @ m) (Some k)) (\<lambda>t. areturn (Inl t))
           | Inl e \<Rightarrow>
               abind (fail_with env (sn_id sn) (''parse_failed: '' @ show_load_error e) (Some k)) (\<lambda>t. areturn (Inl t))))"

definition load_from_file :: "worker_env \<Rightarrow> snapshot \<Rightarrow> (world, worker_exc, terminal + raw_data) act" where
  "load_from_file env sn =
     (case (sn_file_storage_key sn, sn_file_name sn) of
        (Some k, Some name) \<Rightarrow> abind (atry (download k)) (parse_upload env sn k name)
      | _ \<Rightarrow> abind (fail_with env (sn_id sn) ''file_source_incomplete'' None) (\<lambda>t. areturn (Inl t)))"

definition raise_crm :: "outcome \<Rightarrow> worker_exc" where
  "raise_crm x = TransientError (''crm read: '' @ outcome_message x)"

definition load_from_crm :: "worker_env \<Rightarrow> snapshot \<Rightarrow> (world, worker_exc, terminal + raw_data) act" where
  "load_from_crm env sn =
     (case (sn_sharing_operation sn, sn_period_start sn, sn_period_end sn) of
        (Some op, Some ps, Some pe) \<Rightarrow>
          (let q = \<lparr> q_community = sn_community sn, q_operation = op, q_start = ps, q_end = pe \<rparr>
           in abind (outside raise_crm (\<lambda>w. (summarize (we_midnight env) q (meters w), w))) (\<lambda>summary.
                let pf = crm_evaluate summary
                in abind (if pf_ok pf then outside raise_crm (\<lambda>w. (fetch_rows (we_midnight env) q (meters w), w))
                          else areturn []) (\<lambda>rows.
                     if pf_blockers pf \<noteq> [] then
                       abind (fail_with env (sn_id sn)
                         (''crm_data_rejected: '' @ join ''; '' (map bl_detail (pf_blockers pf))) None) (\<lambda>t. areturn (Inl t))
                     else
                       (case build_dataframe rows (pf_consumer_eans pf) of
                          Inl e \<Rightarrow> abind (fail_with env (sn_id sn) (''crm_pivot_failed: '' @ show_pivot_error e) None) (\<lambda>t. areturn (Inl t))
                        | Inr frame \<Rightarrow>
                            (case to_algorithm_raw_data frame INJECTION_COLUMN of
                               Inl e \<Rightarrow> abind (fail_with env (sn_id sn) (''crm_pivot_failed: '' @ show_load_error e) None) (\<lambda>t. areturn (Inl t))
                             | Inr rd \<Rightarrow> areturn (Inr rd))))))
      | _ \<Rightarrow> abind (fail_with env (sn_id sn) ''crm_source_incomplete'' None) (\<lambda>t. areturn (Inl t)))"

section \<open>Running\<close>

text \<open>
  \<open>_run_algorithm\<close>: in the solver pool a process may die, which reaches the handler as
  \<open>BrokenExecutor\<close>; without a pool the algorithm runs inline. The pool process looks the
  implementation up again in its own registry.
\<close>

definition algorithm_outcome :: "algorithm_class \<Rightarrow> inputs \<Rightarrow> raw_data \<Rightarrow> worker_exc + algorithm_result" where
  "algorithm_outcome cls ins rd =
     (case cls_run cls ins rd of Inl e \<Rightarrow> Inl (WorkerException (show_py_error e)) | Inr res \<Rightarrow> Inr res)"

definition run_algorithm ::
  "worker_env \<Rightarrow> string \<Rightarrow> algorithm_class \<Rightarrow> inputs \<Rightarrow> raw_data \<Rightarrow> (world, worker_exc, algorithm_result) act" where
  "run_algorithm env name cls ins rd =
     (if \<not> we_executor env then alift (algorithm_outcome cls ins rd)
      else abind (outside (\<lambda>x. SolverCrashError (outcome_message x)) (\<lambda>w. ((), w))) (\<lambda>_.
             (case registry_implementation (we_registry env) name of
                Inl e \<Rightarrow> araise (WorkerException (show_py_error e))
              | Inr cls' \<Rightarrow> alift (algorithm_outcome cls' ins rd))))"

definition after_solver_crash ::
  "worker_env \<Rightarrow> int \<Rightarrow> msg \<Rightarrow> string \<Rightarrow> terminal \<Rightarrow> (world, worker_exc, terminal) act" where
  "after_solver_crash env gid m exc_text storage_key =
     (case delivery_count m of
        Some d \<Rightarrow>
          if d < MAX_SOLVER_CRASH_DELIVERIES
          then araise (TransientError (''solver crashed on delivery '' @ show_nat d @ '' of '' @
                 show_nat MAX_SOLVER_CRASH_DELIVERIES @ '': '' @ exc_text))
          else fail_with env gid (''solver_crashed (likely out of memory) on delivery '' @ show_nat d @ '': '' @ exc_text) storage_key
      | None \<Rightarrow> fail_with env gid (''solver_crashed (likely out of memory) on delivery unknown: '' @ exc_text) storage_key)"

text \<open>Step 6 of \<open>_process\<close>: any exception of \<open>save_success\<close> is taken as transient.\<close>

definition persist_result :: "worker_env \<Rightarrow> int \<Rightarrow> algorithm_result \<Rightarrow> terminal \<Rightarrow> (world, worker_exc, terminal) act" where
  "persist_result env gid result k =
     abind (atry (save_success (we_byte_length env) gid result)) (\<lambda>saved.
       (case saved of
          Inl (WorkerException x) \<Rightarrow> araise (TransientError (''persist failed: '' @ x))
        | Inl (TransientError x) \<Rightarrow> araise (TransientError (''persist failed: '' @ x))
        | Inl (SolverCrashError x) \<Rightarrow> araise (TransientError (''persist failed: '' @ x))
        | Inr _ \<Rightarrow> areturn k))"

text \<open>Steps 3b to 6 of \<open>_process\<close>, on loaded data.\<close>

definition solve_and_save ::
  "worker_env \<Rightarrow> algorithm_metadata \<Rightarrow> int \<Rightarrow> msg \<Rightarrow> snapshot \<Rightarrow> raw_data \<Rightarrow> (world, worker_exc, terminal) act" where
  "solve_and_save env meta gid m sn rd =
     (let k = sn_file_storage_key sn
      in case too_large (length (rd_C rd)) (shape1 (rd_C rd)) of
           Some oversize \<Rightarrow> fail_with env gid (''problem_too_large: '' @ oversize) k
         | None \<Rightarrow>
             (case model_validate (we_coercion env) (md_input_schema meta) (sn_inputs sn) of
                Inl e \<Rightarrow> fail_with env gid (''invalid_inputs: '' @ show_py_error e) k
              | Inr ins \<Rightarrow>
                  (case registry_implementation (we_registry env) (md_name meta) of
                     Inl _ \<Rightarrow> fail_with env gid (''implementation_missing: '' @ md_name meta) k
                   | Inr cls \<Rightarrow>
                       abind (atry (run_algorithm env (md_name meta) cls ins rd)) (\<lambda>res.
                         (case res of
                            Inl (SolverCrashError x) \<Rightarrow> after_solver_crash env gid m x k
                          | Inl (TransientError x) \<Rightarrow> fail_with env gid (''algorithm_failed: '' @ x) k
                          | Inl (WorkerException x) \<Rightarrow> fail_with env gid (''algorithm_failed: '' @ x) k
                          | Inr result \<Rightarrow>
                              persist_result env gid result k)))))"

text \<open>Steps 1b to 6, on the snapshot of a pending row.\<close>

definition process_pending :: "worker_env \<Rightarrow> algorithm_metadata \<Rightarrow> int \<Rightarrow> msg \<Rightarrow> snapshot \<Rightarrow> (world, worker_exc, terminal) act" where
  "process_pending env meta gid m sn =
     (if (case delivery_count m of Some d \<Rightarrow> MAX_DELIVERIES \<le> d | None \<Rightarrow> False)
      then fail_with env gid (''delivery_limit_reached: delivery '' @ show_nat (the (delivery_count m)) @
             '', the earlier ones ended without a result (transient failures, or the worker stopped mid-run)'')
             (sn_file_storage_key sn)
      else abind (if sn_source sn = CRM then load_from_crm env sn else load_from_file env sn) (\<lambda>loaded.
             (case loaded of
                Inl t \<Rightarrow> areturn t
              | Inr rd \<Rightarrow> solve_and_save env meta gid m sn rd)))"

definition process :: "worker_env \<Rightarrow> algorithm_metadata \<Rightarrow> int \<Rightarrow> msg \<Rightarrow> (world, worker_exc, terminal) act" where
  "process env meta gid m =
     abind (snapshot_generation gid) (\<lambda>osn.
       (case osn of
          None \<Rightarrow> areturn None
        | Some sn \<Rightarrow>
            if sn_status sn \<noteq> PENDING then areturn (sn_file_storage_key sn)
            else process_pending env meta gid m sn))"

section \<open>The handler\<close>

definition send_reply :: "reply \<Rightarrow> (world, worker_exc, unit) act" where
  "send_reply r = outside raise_worker (\<lambda>w. ((), w \<lparr> replies := replies w @ [r] \<rparr>))"

definition handle_message :: "worker_env \<Rightarrow> algorithm_metadata \<Rightarrow> msg \<Rightarrow> (world, worker_exc, unit) act" where
  "handle_message env meta m =
     (case decode_event (msg_data m) of
        None \<Rightarrow> send_reply Ack
      | Some ev \<Rightarrow>
          (case generation_id_of (de_data ev) of
             None \<Rightarrow> send_reply Ack
           | Some gid \<Rightarrow>
               abind (atry (process env meta gid m)) (\<lambda>outcome.
                 (case outcome of
                    Inl (TransientError _) \<Rightarrow> send_reply (Nak NAK_RETRY_DELAY_SECONDS)
                  | Inl _ \<Rightarrow>
                      abind (save_failure (we_byte_length env) gid ''unhandled_worker_error'') (\<lambda>_. send_reply Ack)
                  | Inr storage_key \<Rightarrow>
                      abind (send_reply Ack) (\<lambda>_.
                        (case storage_key of None \<Rightarrow> areturn () | Some k \<Rightarrow> delete_object k))))))"

end
