(* ===== verification/ApiService.thy ===== *)
theory ApiService
  imports ApiRepository Middleware UploadShape Dispatcher
begin

text \<open>
  The generation service (\<open>api/generation/service.py\<close>) with the publication of events
  (\<open>send_event\<close> of \<open>core/queue/helper.py\<close>). Parameters (\<open>api_env\<close>): the registry, the number
  parsing of pydantic, the answers of the database, the rendering of dates, and the zip library.
\<close>

record api_env =
  ap_registry :: registry
  ap_coercion :: coercion
  ap_db :: db_env
  ap_midnight :: "int \<Rightarrow> int"
  ap_zip :: "string \<Rightarrow> archive option"
  ap_isoformat :: "int \<Rightarrow> string"

section \<open>Reading the upload\<close>

definition UPLOAD_READ_CHUNK_BYTES :: nat where
  "UPLOAD_READ_CHUNK_BYTES = 1024 * 1024"

lemma chunk_positive: "0 < UPLOAD_READ_CHUNK_BYTES"
  by (simp add: UPLOAD_READ_CHUNK_BYTES_def)

text \<open>The \<open>while True\<close> loop: \<open>rest\<close> is what the file still holds.\<close>

function read_loop :: "nat \<Rightarrow> string \<Rightarrow> string \<Rightarrow> exc + string" where
  "read_loop max_bytes buffer rest =
     (let chunk = take UPLOAD_READ_CHUNK_BYTES rest
      in if chunk = [] then Inr buffer
         else if max_bytes < length buffer + length chunk then Inl (ErrorException FILE_TOO_LARGE 413)
         else read_loop max_bytes (buffer @ chunk) (drop UPLOAD_READ_CHUNK_BYTES rest))"
  by pat_completeness auto

termination
  by (relation "measure (\<lambda>(_, _, rest). length rest)") (use chunk_positive in auto)

declare read_loop.simps [simp del]

definition read_within_cap :: "string \<Rightarrow> nat \<Rightarrow> exc + string" where
  "read_within_cap file max_bytes = read_loop max_bytes [] file"

section \<open>Requests\<close>

record upload_file =
  uf_content :: string
  uf_filename :: "string option"

record generate_request =
  gr_name :: string
  gr_injection_name :: string
  gr_algorithm_name :: string
  gr_inputs :: json

record generate_from_crm_request =
  gc_name :: string
  gc_algorithm_name :: string
  gc_inputs :: json
  gc_sharing_operation :: int
  gc_period_start :: int
  gc_period_end :: int

record generate_response =
  gp_id :: int
  gp_status :: generation_status

section \<open>Helpers\<close>

text \<open>
  \<open>send_event\<close>: a publish that fails in transport (a timeout waiting for the acknowledgement) may
  have reached the stream all the same; here it has. Every other failure leaves the stream alone.
\<close>

definition send_event :: "string \<Rightarrow> event \<Rightarrow> (world, exc, unit) act" where
  "send_event subject ev = (\<lambda>w.
     (case outcomes w (clock w) of
        Works \<Rightarrow> (Inr (), (tick w) \<lparr> queue := queue w @ [(subject, encode_event ev)] \<rparr>)
      | Transport m \<Rightarrow> (Inl (OtherException m), (tick w) \<lparr> queue := queue w @ [(subject, encode_event ev)] \<rparr>)
      | bad \<Rightarrow> (Inl (raise_db bad), tick w)))"

definition requested_event :: "int \<Rightarrow> event" where
  "requested_event gid = \<lparr> ev_type = ''generation.requested'', ev_version = JInt 1,
     ev_data = JObj [(''generation_id'', JInt gid)] \<rparr>"

text \<open>\<open>validated_inputs.model_dump(mode="json")\<close>.\<close>

definition model_dump :: "inputs \<Rightarrow> json" where
  "model_dump ins = JObj (map (\<lambda>(k, v). (k, case v of VInt i \<Rightarrow> JInt i | VFloat x \<Rightarrow> JFloat x)) ins)"

definition api_audit :: "string \<Rightarrow> string \<Rightarrow> int \<Rightarrow> (string \<times> json) list \<Rightarrow> (world, exc, unit) act" where
  "api_audit action entity eid payload =
     audit_log \<lparr> ai_action = action, ai_entity_type = entity, ai_entity_id = Some (show_int eid),
       ai_payload = payload, ai_source = None \<rparr> None"

definition api_crm_commit :: "(world, exc, unit) act" where
  "api_crm_commit = acatch crm_commit (\<lambda>m. araise (OtherException m))"

text \<open>\<open>_mark_failed_to_queue\<close>, with sessions of its own.\<close>

definition mark_failed_to_queue :: "int \<Rightarrow> string \<Rightarrow> (world, exc, unit) act" where
  "mark_failed_to_queue gid reason =
     abind (outside raise_db (\<lambda>w. (generations_t w gid, w))) (\<lambda>row.
       (case row of
          None \<Rightarrow> areturn ()
        | Some g \<Rightarrow>
            abind (outside raise_db (\<lambda>w. ((), w \<lparr> generations_t := (generations_t w)(gid :=
                map_option (\<lambda>g. g \<lparr> g_status := FAILED, g_error_message := Some (take 2000 (''failed_to_queue: '' @ reason)) \<rparr>)
                  (generations_t w gid)) \<rparr>))) (\<lambda>_.
              with_crm_session (abind (audit_log
                \<lparr> ai_action = GENERATION_QUEUE_FAILED, ai_entity_type = ''generation'', ai_entity_id = Some (show_int gid),
                  ai_payload = [(''reason'', JStr (take 500 reason)), (''algorithm_name'', JStr (g_algorithm_name g))],
                  ai_source = None \<rparr> (Some (g_community g))) (\<lambda>_. api_crm_commit)))))"

definition best_effort_delete :: "string \<Rightarrow> (world, exc, unit) act" where
  "best_effort_delete storage_key = delete_object storage_key"

text \<open>The lookup of the algorithm and the validation of its inputs, shared by both starts.\<close>

definition validate_request :: "api_env \<Rightarrow> string \<Rightarrow> json \<Rightarrow> exc + algorithm_metadata \<times> inputs" where
  "validate_request env algorithm_name raw_inputs =
     (if \<not> registry_contains (ap_registry env) algorithm_name then Inl (ErrorException ALGORITHM_NOT_FOUND 404)
      else (case registry_metadata (ap_registry env) algorithm_name of
              Inl e \<Rightarrow> Inl (OtherException (show_py_error e))
            | Inr meta \<Rightarrow>
                (case model_validate (ap_coercion env) (md_input_schema meta) raw_inputs of
                   Inl _ \<Rightarrow> Inl (ErrorException INVALID_ALGORITHM_INPUTS 422)
                 | Inr ins \<Rightarrow> Inr (meta, ins))))"

section \<open>Reads\<close>

definition service_get_generations ::
  "api_env \<Rightarrow> int \<Rightarrow> int \<Rightarrow> (string \<times> string) list \<Rightarrow> (world, exc, api_generation list \<times> pagination) act" where
  "service_get_generations env page page_size q =
     abind (get_list_generations (ap_db env) page page_size q) (\<lambda>(rows, count).
     abind (alift (paginate page page_size count)) (\<lambda>pg. areturn (map to_generation_schema rows, pg)))"

definition service_get_allocation_keys ::
  "api_env \<Rightarrow> int \<Rightarrow> int \<Rightarrow> int \<Rightarrow> (string \<times> string) list \<Rightarrow> (world, exc, api_partial_key list \<times> pagination) act" where
  "service_get_allocation_keys env gid page page_size q =
     abind (get_allocation_keys_list (ap_db env) gid page page_size q) (\<lambda>(rows, count).
     abind (alift (paginate page page_size count)) (\<lambda>pg. areturn (map to_partial_allocation_key_generated_schema rows, pg)))"

definition service_get_allocation_key :: "int \<Rightarrow> (world, exc, api_key) act" where
  "service_get_allocation_key id_key =
     abind (repo_get_allocation_key id_key) (\<lambda>data.
       (case data of
          None \<Rightarrow> araise (ErrorException ALLOCATION_KEY_NOT_FOUND 400)
        | Some k \<Rightarrow> areturn (to_allocation_key_generated_schema k)))"

section \<open>Starting a generation\<close>

text \<open>Step 6 of both starts; \<open>rollback\<close> is what follows the row's failure.\<close>

definition publish_or_fail ::
  "algorithm_metadata \<Rightarrow> int \<Rightarrow> (world, exc, unit) act \<Rightarrow> (world, exc, generate_response) act" where
  "publish_or_fail meta gid rollback =
     abind (atry (send_event (md_queue meta) (requested_event gid))) (\<lambda>sent.
       (case sent of
          Inl x \<Rightarrow>
            abind (mark_failed_to_queue gid (show_exc x)) (\<lambda>_.
            abind rollback (\<lambda>_. araise (ErrorException START_GENERATION 500)))
        | Inr _ \<Rightarrow> areturn \<lparr> gp_id = gid, gp_status = PENDING \<rparr>))"

text \<open>Steps 4 to 6 of the upload path; the fresh UUID is a parameter.\<close>

definition store_and_queue ::
  "string \<Rightarrow> generate_request \<Rightarrow> int \<Rightarrow> algorithm_metadata \<Rightarrow> inputs \<Rightarrow> string \<Rightarrow> string \<Rightarrow> (world, exc, generate_response) act" where
  "store_and_queue uuid req community_id meta ins content file_name =
     (let storage_key = ''allocations/'' @ show_int community_id @ ''/'' @ uuid @ ''/'' @ file_name
      in abind (acatch (upload storage_key content) (\<lambda>_. araise (ErrorException STORAGE_UPLOAD_FAILED 502))) (\<lambda>_.
         abind (acatch
           (abind (create_generation
              \<lparr> g_id = 0, g_name = gr_name req, g_community = community_id, g_source = FILE,
                g_file_storage_key = Some storage_key, g_file_name = Some file_name,
                g_injection_name = Some (gr_injection_name req), g_sharing_operation = None, g_period_start = None,
                g_period_end = None, g_algorithm_name = md_name meta, g_algorithm_version = md_version meta,
                g_inputs = Some (model_dump ins), g_status = PENDING, g_error_message = None, g_data_warnings = None \<rparr>)
            (\<lambda>model. abind (commit_generation model) (\<lambda>_. areturn model)))
           (\<lambda>x. abind (best_effort_delete storage_key) (\<lambda>_. araise x))) (\<lambda>model.
         abind (api_audit GENERATION_CREATED ''generation'' (g_id model)
           [(''name'', JStr (gr_name req)), (''algorithm_name'', JStr (md_name meta)),
            (''algorithm_version'', JStr (md_version meta)), (''file_name'', JStr file_name),
            (''injection_name'', JStr (gr_injection_name req))]) (\<lambda>_.
         publish_or_fail meta (g_id model) (best_effort_delete storage_key)))))"

definition start_generation ::
  "api_env \<Rightarrow> string \<Rightarrow> generate_request \<Rightarrow> upload_file \<Rightarrow> int \<Rightarrow> (world, exc, generate_response) act" where
  "start_generation env uuid req file community_id =
     abind (alift (validate_request env (gr_algorithm_name req) (gr_inputs req))) (\<lambda>(meta, ins).
     abind (alift (read_within_cap (uf_content file) UPLOAD_MAX_BODY_BYTES)) (\<lambda>content.
       if content = [] then araise (ErrorException INVALID_FILE 422)
       else
         (let file_name = (case uf_filename file of None \<Rightarrow> ''uploaded-file'' | Some n \<Rightarrow> if n = [] then ''uploaded-file'' else n)
          in if (case upload_measure (ap_zip env) content file_name of
                   None \<Rightarrow> False
                 | Some (columns, data_rows) \<Rightarrow> too_large (nat (columns - 1)) data_rows \<noteq> None)
             then araise (ErrorException PROBLEM_TOO_LARGE 422)
             else store_and_queue uuid req community_id meta ins content file_name)))"

definition preview_crm_data :: "api_env \<Rightarrow> int \<Rightarrow> int \<Rightarrow> int \<Rightarrow> int \<Rightarrow> (world, exc, preflight) act" where
  "preview_crm_data env op period_start period_end community_id =
     (if period_end < period_start then araise (ErrorException INVALID_PERIOD 422)
      else abind (outside raise_db (\<lambda>w. (sharing_operation_exists (operations w) community_id op, w))) (\<lambda>present.
        if \<not> present then araise (ErrorException SHARING_OPERATION_NOT_FOUND 404)
        else abind (outside raise_db (\<lambda>w. (summarize (ap_midnight env)
               \<lparr> q_community = community_id, q_operation = op, q_start = period_start, q_end = period_end \<rparr> (meters w), w)))
               (\<lambda>summary. areturn (crm_evaluate summary))))"

definition start_generation_from_crm ::
  "api_env \<Rightarrow> generate_from_crm_request \<Rightarrow> int \<Rightarrow> (world, exc, generate_response) act" where
  "start_generation_from_crm env req community_id =
     abind (alift (validate_request env (gc_algorithm_name req) (gc_inputs req))) (\<lambda>(meta, ins).
     abind (preview_crm_data env (gc_sharing_operation req) (gc_period_start req) (gc_period_end req) community_id) (\<lambda>pf.
       (case pf_blockers pf of
          first # _ \<Rightarrow> araise (ErrorException (bl_error first) 422)
        | [] \<Rightarrow>
            abind (create_generation
              \<lparr> g_id = 0, g_name = gc_name req, g_community = community_id, g_source = CRM, g_file_storage_key = None,
                g_file_name = None, g_injection_name = None, g_sharing_operation = Some (gc_sharing_operation req),
                g_period_start = Some (gc_period_start req), g_period_end = Some (gc_period_end req),
                g_algorithm_name = md_name meta, g_algorithm_version = md_version meta,
                g_inputs = Some (model_dump ins), g_status = PENDING, g_error_message = None,
                g_data_warnings = pf_warnings pf \<rparr>) (\<lambda>model.
            abind (commit_generation model) (\<lambda>_.
            abind (api_audit GENERATION_CREATED ''generation'' (g_id model)
              [(''name'', JStr (gc_name req)), (''algorithm_name'', JStr (md_name meta)),
               (''algorithm_version'', JStr (md_version meta)), (''source'', JStr ''CRM''),
               (''id_sharing_operation'', JInt (gc_sharing_operation req)),
               (''period_start'', JStr (ap_isoformat env (gc_period_start req))),
               (''period_end'', JStr (ap_isoformat env (gc_period_end req)))]) (\<lambda>_.
            publish_or_fail meta (g_id model) (areturn ())))))))"

section \<open>Saving and deleting\<close>

definition service_save_key :: "int \<Rightarrow> (world, exc, unit) act" where
  "service_save_key id_key =
     abind (repo_get_allocation_key id_key) (\<lambda>key.
       (case key of
          None \<Rightarrow> araise (ErrorException ALLOCATION_KEY_NOT_FOUND 400)
        | Some k \<Rightarrow>
            abind (save_allocation_key (to_allocation_key_crm k)) (\<lambda>allocation_key.
            abind (commit_crm_key allocation_key) (\<lambda>_.
            api_audit ALLOCATION_KEY_SAVED ''allocation_key'' (ck_id allocation_key)
              [(''local_key_id'', JInt id_key), (''name'', JStr (ck_name allocation_key))]))))"

definition status_name :: "generation_status \<Rightarrow> string" where
  "status_name s = (case s of PENDING \<Rightarrow> ''PENDING'' | SUCCESS \<Rightarrow> ''SUCCESS'' | FAILED \<Rightarrow> ''FAILED'')"

definition service_delete_generation :: "int \<Rightarrow> (world, exc, unit) act" where
  "service_delete_generation id_generation =
     abind (repo_get_generation id_generation) (\<lambda>generation.
       (case generation of
          None \<Rightarrow> araise (ErrorException GENERATION_NOT_FOUND 400)
        | Some g \<Rightarrow>
            abind flush_statement (\<lambda>_.
            abind (commit_delete_generation (g_id g)) (\<lambda>_.
            api_audit GENERATION_DELETED ''generation'' id_generation
              [(''algorithm_name'', JStr (g_algorithm_name g)), (''status'', JStr (status_name (g_status g)))]))))"

definition service_delete_key :: "int \<Rightarrow> (world, exc, unit) act" where
  "service_delete_key id_key =
     abind (repo_get_allocation_key id_key) (\<lambda>key.
       (case key of
          None \<Rightarrow> araise (ErrorException ALLOCATION_KEY_NOT_FOUND 400)
        | Some k \<Rightarrow>
            abind flush_statement (\<lambda>_.
            abind (commit_delete_key (k_id k)) (\<lambda>_.
            api_audit ALLOCATION_KEY_GENERATED_DELETED ''allocation_key_generated'' id_key
              [(''name'', JStr (k_name k)), (''id_generation'', JInt (k_generation k))]))))"

end
