(* ===== verification/ApiRoutes.thy ===== *)
theory ApiRoutes
  imports ApiService
begin

text \<open>
  The routes of the generation API (\<open>api/generation/routes.py\<close>) and the preview of the CRM data
  (\<open>to_crm_data_preview\<close> of \<open>api/generation/mappers.py\<close>). A call is a request after FastAPI has
  parsed it; a form field that is not JSON is \<open>None\<close>. Every call runs in a CRM session of its own
  that is closed, without a commit, when the call ends.
\<close>

record save_key =
  sk_id_key :: int

record route_env = api_env +
  rt_locales :: locale_files
  rt_json_schema :: "input_schema \<Rightarrow> (string \<times> json) list"
  rt_instant :: "int \<Rightarrow> string"
  rt_uuid :: string

text \<open>\<open>dict(request.query_params)\<close>: of a parameter given twice the last value counts.\<close>

definition parse_query_params :: "(string \<times> string) list \<Rightarrow> (string \<times> string) list" where
  "parse_query_params params = foldl (\<lambda>d (k, v). dict_set k v d) [] params"

lemma query_params_last: "map_of (parse_query_params params) k = map_of (rev params) k"
proof (induction params rule: rev_induct)
  case (snoc p params)
  then show ?case by (cases p) (simp add: parse_query_params_def)
qed (simp add: parse_query_params_def)

datatype api_call =
    GetGenerations int int "(string \<times> string) list"
  | GetAlgorithms
  | GetAlgorithmInputs string
  | GetCrmDataPreview int int int
  | GetAllocationKey int
  | GetAllocationKeys int int int "(string \<times> string) list"
  | StartGeneration upload_file string string string "json option"
  | StartGenerationFromCrm generate_from_crm_request
  | SaveKeyCall save_key
  | DeleteGenerationCall int
  | DeleteKeyCall int

section \<open>Responses\<close>

definition api_response :: "json \<Rightarrow> response" where
  "api_response data = \<lparr> rs_status = 200, rs_body = JObj [(''data'', data), (''error_code'', JInt 0)], rs_headers = [] \<rparr>"

definition pagination_json :: "pagination \<Rightarrow> json" where
  "pagination_json p = JObj [(''page'', JInt (pg_page p)), (''limit'', JInt (pg_limit p)), (''total'', JInt (pg_total p)),
     (''total_pages'', JInt (pg_total_pages p))]"

definition api_response_paginated :: "json \<Rightarrow> pagination \<Rightarrow> response" where
  "api_response_paginated data p = \<lparr> rs_status = 200,
     rs_body = JObj [(''data'', data), (''error_code'', JInt 0), (''pagination'', pagination_json p)], rs_headers = [] \<rparr>"

definition generation_json :: "api_generation \<Rightarrow> json" where
  "generation_json g = JObj [(''id'', JInt (ag_id g)), (''name'', JStr (ag_name g)), (''status'', JInt (int (status_code (ag_status g))))]"

definition consumer_json :: "api_consumer \<Rightarrow> json" where
  "consumer_json c = JObj [(''id'', JInt (ac_id c)), (''name'', JStr (ac_name c)), (''energy_allocated_percentage'', JFloat (ac_percentage c))]"

definition iteration_json :: "api_iteration \<Rightarrow> json" where
  "iteration_json it = JObj [(''id'', JInt (an_id it)), (''number'', JInt (int (an_number it))), (''energy_allocated_percentage'', JFloat (an_percentage it)),
     (''consumers'', JList (map consumer_json (an_consumers it))), (''surplus_total'', JFloat (an_surplus_total it))]"

definition partial_key_fields :: "('a) api_partial_key_scheme \<Rightarrow> (string \<times> json) list" where
  "partial_key_fields k = [(''id'', JInt (ak_id k)), (''name'', JStr (ak_name k)), (''description'', JStr (ak_description k)),
     (''surplus_total'', JFloat (ak_surplus_total k))]"

definition key_json :: "api_key \<Rightarrow> json" where
  "key_json k = JObj (partial_key_fields k @ [(''iterations'', JList (map iteration_json (ak_iterations k)))])"

definition generate_response_json :: "generate_response \<Rightarrow> json" where
  "generate_response_json r = JObj [(''id'', JInt (gp_id r)), (''status'', JInt (int (status_code (gp_status r))))]"

section \<open>Localised metadata\<close>

text \<open>\<open>current_locale.get().split("_")[0]\<close>.\<close>

definition bare_locale :: "string \<Rightarrow> string" where
  "bare_locale code = hd (split_at (CHR ''_'') code)"

definition translated :: "locale_files \<Rightarrow> string \<Rightarrow> string \<Rightarrow> exc + string" where
  "translated files key code =
     (case translate files key code of None \<Rightarrow> Inl (OtherException ''no locale file'') | Some s \<Rightarrow> Inr s)"

definition localize_entry :: "locale_files \<Rightarrow> string \<Rightarrow> string \<times> json \<Rightarrow> exc + string \<times> json" where
  "localize_entry files code entry =
     (case entry of (k, v) \<Rightarrow>
        (case v of
           JStr s \<Rightarrow> if k = ''title'' \<or> k = ''description'' then rbind (translated files s code) (\<lambda>t. Inr (k, JStr t)) else Inr (k, v)
         | _ \<Rightarrow> Inr (k, v)))"

definition localize_field :: "locale_files \<Rightarrow> string \<Rightarrow> string \<times> json \<Rightarrow> exc + string \<times> json" where
  "localize_field files code field =
     (case field of
        (name, JObj kvs) \<Rightarrow> rbind (rmapM (localize_entry files code) kvs) (\<lambda>kvs'. Inr (name, JObj kvs'))
      | (name, v) \<Rightarrow> Inr (name, v))"

record localized_metadata =
  lm_name :: string
  lm_description :: string
  lm_version :: string
  lm_queue :: string
  lm_input_schema :: "(string \<times> json) list"
  lm_tags :: "string list"
  lm_timeout_seconds :: "int option"

definition localized_metadata_json :: "localized_metadata \<Rightarrow> json" where
  "localized_metadata_json m = JObj [(''name'', JStr (lm_name m)), (''description'', JStr (lm_description m)),
     (''version'', JStr (lm_version m)), (''queue'', JStr (lm_queue m)), (''input_schema'', JObj (lm_input_schema m)),
     (''tags'', JList (map JStr (lm_tags m))),
     (''timeout_seconds'', case lm_timeout_seconds m of None \<Rightarrow> JNull | Some t \<Rightarrow> JInt t)]"

definition localize_metadata :: "route_env \<Rightarrow> string \<Rightarrow> algorithm_metadata \<Rightarrow> exc + localized_metadata" where
  "localize_metadata env current_locale meta =
     (let code = bare_locale current_locale;
          raw_schema = rt_json_schema env (md_input_schema meta);
          properties = (case map_of raw_schema ''properties'' of Some (JObj kvs) \<Rightarrow> kvs | _ \<Rightarrow> [])
      in rbind (rmapM (localize_field (rt_locales env) code) properties) (\<lambda>localized.
         rbind (translated (rt_locales env) (md_description meta) code) (\<lambda>description.
         Inr \<lparr> lm_name = md_name meta, lm_description = description, lm_version = md_version meta, lm_queue = md_queue meta,
           lm_input_schema = dict_set ''properties'' (JObj localized) raw_schema, lm_tags = md_tags meta,
           lm_timeout_seconds = md_timeout_seconds meta \<rparr>)))"

section \<open>The preview\<close>

record incomplete_meter_view =
  mv_ean :: string
  mv_readings :: nat
  mv_expected :: nat
  mv_missing :: int

record preview_blocker =
  pb_error_code :: nat
  pb_message :: string
  pb_detail :: string

record crm_data_preview =
  pv_can_generate :: bool
  pv_meter_count :: nat
  pv_reading_count :: nat
  pv_first_timestamp :: "int option"
  pv_last_timestamp :: "int option"
  pv_total_consumption_kwh :: real
  pv_total_injection_kwh :: real
  pv_incomplete_meters :: "incomplete_meter_view list"
  pv_blockers :: "preview_blocker list"

definition to_preview_blocker :: "locale_files \<Rightarrow> string \<Rightarrow> blocker \<Rightarrow> exc + preview_blocker" where
  "to_preview_blocker files code b =
     rbind (translated files (err_key (bl_error b)) code) (\<lambda>message.
       Inr \<lparr> pb_error_code = err_code (bl_error b), pb_message = message, pb_detail = bl_detail b \<rparr>)"

definition to_crm_data_preview :: "locale_files \<Rightarrow> preflight \<Rightarrow> string \<Rightarrow> exc + crm_data_preview" where
  "to_crm_data_preview files pf code =
     (let summary = pf_summary pf
      in rbind (rmapM (to_preview_blocker files code) (pf_blockers pf)) (\<lambda>blockers.
         Inr \<lparr> pv_can_generate = pf_ok pf, pv_meter_count = length (pf_consumer_eans pf), pv_reading_count = total_rows summary,
           pv_first_timestamp = cs_first_timestamp summary, pv_last_timestamp = cs_last_timestamp summary,
           pv_total_consumption_kwh = total_consumption_kwh summary, pv_total_injection_kwh = total_injection_kwh summary,
           pv_incomplete_meters = map (\<lambda>e. \<lparr> mv_ean = ec_ean e, mv_readings = ec_distinct_ts e, mv_expected = cs_grid_size summary,
              mv_missing = int (cs_grid_size summary) - int (ec_distinct_ts e) \<rparr>) (incomplete summary),
           pv_blockers = blockers \<rparr>))"

definition incomplete_meter_json :: "incomplete_meter_view \<Rightarrow> json" where
  "incomplete_meter_json e = JObj [(''ean'', JStr (mv_ean e)), (''readings'', JInt (int (mv_readings e))),
     (''expected'', JInt (int (mv_expected e))), (''missing'', JInt (mv_missing e))]"

definition preview_blocker_json :: "preview_blocker \<Rightarrow> json" where
  "preview_blocker_json b = JObj [(''error_code'', JInt (int (pb_error_code b))), (''message'', JStr (pb_message b)),
     (''detail'', JStr (pb_detail b))]"

definition crm_data_preview_json :: "(int \<Rightarrow> string) \<Rightarrow> crm_data_preview \<Rightarrow> json" where
  "crm_data_preview_json instant p =
     (let time = (\<lambda>t. case t of None \<Rightarrow> JNull | Some i \<Rightarrow> JStr (instant i))
      in JObj [(''can_generate'', JBool (pv_can_generate p)), (''meter_count'', JInt (int (pv_meter_count p))),
           (''reading_count'', JInt (int (pv_reading_count p))),
           (''first_timestamp'', time (pv_first_timestamp p)), (''last_timestamp'', time (pv_last_timestamp p)),
           (''total_consumption_kwh'', JFloat (pv_total_consumption_kwh p)),
           (''total_injection_kwh'', JFloat (pv_total_injection_kwh p)),
           (''incomplete_meters'', JList (map incomplete_meter_json (pv_incomplete_meters p))),
           (''blockers'', JList (map preview_blocker_json (pv_blockers p)))])"

section \<open>Routes\<close>

definition caller_community :: "(world, exc, int) act" where
  "caller_community =
     abind (aget context_community) (\<lambda>c. case c of None \<Rightarrow> araise (ErrorException UNAUTHORIZED 401) | Some i \<Rightarrow> areturn i)"

definition route_get_algorithms :: "route_env \<Rightarrow> (world, exc, response) act" where
  "route_get_algorithms env =
     abind (aget locale_code) (\<lambda>code.
     abind (alift (rmapM (localize_metadata env code) (list_all_metadata (ap_registry env)))) (\<lambda>data.
     areturn (api_response (JList (map localized_metadata_json data)))))"

definition route_get_algorithm_inputs :: "route_env \<Rightarrow> string \<Rightarrow> (world, exc, response) act" where
  "route_get_algorithm_inputs env algorithm_name =
     (if \<not> registry_contains (ap_registry env) algorithm_name then araise (ErrorException ALGORITHM_NOT_FOUND 404)
      else (case registry_metadata (ap_registry env) algorithm_name of
              Inl e \<Rightarrow> araise (OtherException (show_py_error e))
            | Inr meta \<Rightarrow>
                abind (aget locale_code) (\<lambda>code.
                abind (alift (localize_metadata env code meta)) (\<lambda>data. areturn (api_response (localized_metadata_json data))))))"

definition route_crm_data_preview :: "route_env \<Rightarrow> int \<Rightarrow> int \<Rightarrow> int \<Rightarrow> (world, exc, response) act" where
  "route_crm_data_preview env op period_start period_end =
     abind caller_community (\<lambda>cid.
     abind (preview_crm_data (api_env.truncate env) op period_start period_end cid) (\<lambda>pf.
     abind (aget locale_code) (\<lambda>code.
     abind (alift (to_crm_data_preview (rt_locales env) pf (bare_locale code))) (\<lambda>data.
     areturn (api_response (crm_data_preview_json (rt_instant env) data))))))"

definition route_start_generation ::
  "route_env \<Rightarrow> upload_file \<Rightarrow> string \<Rightarrow> string \<Rightarrow> string \<Rightarrow> json option \<Rightarrow> (world, exc, response) act" where
  "route_start_generation env file name injection_name algorithm_name parsed_inputs =
     (case parsed_inputs of
        Some (JObj kvs) \<Rightarrow>
          abind caller_community (\<lambda>cid.
          abind (start_generation (api_env.truncate env) (rt_uuid env)
             \<lparr> gr_name = name, gr_injection_name = injection_name, gr_algorithm_name = algorithm_name, gr_inputs = JObj kvs \<rparr>
             file cid) (\<lambda>resp. areturn (api_response (generate_response_json resp))))
      | _ \<Rightarrow> araise (ErrorException INVALID_ALGORITHM_INPUTS 422))"

definition route_get_generations :: "route_env \<Rightarrow> int \<Rightarrow> int \<Rightarrow> (string \<times> string) list \<Rightarrow> (world, exc, response) act" where
  "route_get_generations env page page_size q =
     abind (service_get_generations (api_env.truncate env) page page_size q) (\<lambda>(data, pg).
       areturn (api_response_paginated (JList (map generation_json data)) pg))"

definition route_get_allocation_key :: "int \<Rightarrow> (world, exc, response) act" where
  "route_get_allocation_key id_key = abind (service_get_allocation_key id_key) (\<lambda>k. areturn (api_response (key_json k)))"

definition route_get_allocation_keys :: "route_env \<Rightarrow> int \<Rightarrow> int \<Rightarrow> int \<Rightarrow> (string \<times> string) list \<Rightarrow> (world, exc, response) act" where
  "route_get_allocation_keys env gid page page_size q =
     abind (service_get_allocation_keys (api_env.truncate env) gid page page_size q) (\<lambda>(data, pg).
       areturn (api_response_paginated (JList (map (\<lambda>k. JObj (partial_key_fields k)) data)) pg))"

definition route_start_generation_from_crm :: "route_env \<Rightarrow> generate_from_crm_request \<Rightarrow> (world, exc, response) act" where
  "route_start_generation_from_crm env body =
     abind caller_community (\<lambda>cid.
     abind (start_generation_from_crm (api_env.truncate env) body cid) (\<lambda>resp.
       areturn (api_response (generate_response_json resp))))"

definition route_save_key :: "save_key \<Rightarrow> (world, exc, response) act" where
  "route_save_key body = abind (service_save_key (sk_id_key body)) (\<lambda>_. areturn (api_response (JStr ''success'')))"

definition route_delete_generation :: "int \<Rightarrow> (world, exc, response) act" where
  "route_delete_generation gid = abind (service_delete_generation gid) (\<lambda>_. areturn (api_response (JStr ''success'')))"

definition route_delete_key :: "int \<Rightarrow> (world, exc, response) act" where
  "route_delete_key id_key = abind (service_delete_key id_key) (\<lambda>_. areturn (api_response (JStr ''success'')))"

lemmas route_defs = route_get_generations_def route_get_algorithms_def route_get_algorithm_inputs_def route_crm_data_preview_def
  route_get_allocation_key_def route_get_allocation_keys_def route_start_generation_def route_start_generation_from_crm_def
  route_save_key_def route_delete_generation_def route_delete_key_def

text \<open>Each route with its default error.\<close>

fun route :: "route_env \<Rightarrow> api_call \<Rightarrow> (world, exc, response) act" where
  "route env (GetGenerations page page_size q) = with_default_error GET_GENERATIONS (route_get_generations env page page_size q)"
| "route env GetAlgorithms = with_default_error GET_ALGORITHMS (route_get_algorithms env)"
| "route env (GetAlgorithmInputs name) = with_default_error GET_ALGORITHM_INPUT (route_get_algorithm_inputs env name)"
| "route env (GetCrmDataPreview op ps pe) = with_default_error GET_CRM_PREVIEW (route_crm_data_preview env op ps pe)"
| "route env (GetAllocationKey id_key) = with_default_error GET_ALLOCATION_KEY (route_get_allocation_key id_key)"
| "route env (GetAllocationKeys gid page page_size q) =
     with_default_error GET_ALLOCATION_KEYS (route_get_allocation_keys env gid page page_size q)"
| "route env (StartGeneration file name injection_name algorithm_name parsed_inputs) =
     with_default_error START_GENERATION (route_start_generation env file name injection_name algorithm_name parsed_inputs)"
| "route env (StartGenerationFromCrm body) = with_default_error START_GENERATION (route_start_generation_from_crm env body)"
| "route env (SaveKeyCall saved_key) = with_default_error SAVE_KEY (route_save_key saved_key)"
| "route env (DeleteGenerationCall gid) = with_default_error DELETE_GENERATION (route_delete_generation gid)"
| "route env (DeleteKeyCall id_key) = with_default_error DELETE_KEY (route_delete_key id_key)"

definition run_route :: "route_env \<Rightarrow> api_call \<Rightarrow> (world, exc, response) act" where
  "run_route env call = with_crm_session (route env call)"

text \<open>A whole request.\<close>

definition api_request :: "route_env \<Rightarrow> string \<Rightarrow> (world \<Rightarrow> world) option \<Rightarrow> request \<Rightarrow> api_call \<Rightarrow> (world, exc, response) act" where
  "api_request env fresh cancelled rq call = serve (rt_locales env) fresh cancelled rq (run_route env call)"

end
