(* ===== verification/Dispatching.thy ===== *)
theory Dispatching
  imports Dispatcher
begin

text \<open>
  The message handler is correct: an acknowledged message never leaves its generation pending,
  the source file of a pending generation is never deleted, and deliveries are bounded. First
  what the pipeline leaves alone and how it leaves the row of its generation, step by step
  (\<open>ends_with\<close>, \<open>loaded_or_decided\<close>), then the ways in which a message can end (\<open>handled\<close>).
\<close>

section \<open>What the pipeline leaves alone\<close>

text \<open>Fields of the world that none of the pipeline's own writes touches.\<close>

definition worker_frame :: "(world \<Rightarrow> 'f) \<Rightarrow> bool" where
  "worker_frame f \<longleftrightarrow>
     (\<forall>w x. f (w \<lparr> clock := x \<rparr>) = f w) \<and> (\<forall>w x. f (w \<lparr> generations_t := x \<rparr>) = f w) \<and>
     (\<forall>w x. f (w \<lparr> keys_t := x \<rparr>) = f w) \<and> (\<forall>w x. f (w \<lparr> next_key_id := x \<rparr>) = f w) \<and>
     (\<forall>w x. f (w \<lparr> next_iteration_id := x \<rparr>) = f w) \<and> (\<forall>w x. f (w \<lparr> next_consumer_id := x \<rparr>) = f w) \<and>
     (\<forall>w x. f (w \<lparr> audit_t := x \<rparr>) = f w) \<and> (\<forall>w x. f (w \<lparr> audit_staged := x \<rparr>) = f w) \<and>
     (\<forall>w x. f (w \<lparr> published := x \<rparr>) = f w)"

lemma worker_frame_fields: "worker_frame store" "worker_frame replies"
  by (simp_all add: worker_frame_def)

lemma frame_tick: "worker_frame f \<Longrightarrow> f (tick w) = f w"
  by (simp add: worker_frame_def tick_def)

lemma keeps_publish: "(\<And>w. f (tick w) = f w) \<Longrightarrow> (\<And>w x. f (w \<lparr> published := x \<rparr>) = f w) \<Longrightarrow> keeps f (publish_all chs body)"
  by (induction chs) (auto intro!: keeps_intros keeps_outside)

lemma keeps_emit:
  assumes "\<And>w. f (tick w) = f w" "\<And>w x. f (w \<lparr> published := x \<rparr>) = f w"
  shows "keeps f (emit bl topic aud res hint scope)"
proof -
  have "keeps f (acatch (publish_all (channels aud) env) (\<lambda>_. areturn ()))" for env
    using assms by (intro keeps_intros keeps_publish)
  then show ?thesis by (auto simp: keeps_def emit_def split: option.splits)
qed

lemma keeps_session:
  assumes "keeps f m" "\<And>w x. f (w \<lparr> audit_staged := x \<rparr>) = f w"
  shows "keeps f (with_crm_session m)"
  using assms unfolding keeps_def with_crm_session_def by (auto split: prod.splits) (metis snd_conv)

lemma keeps_audit:
  assumes "\<And>w. f (tick w) = f w" "\<And>w x. f (w \<lparr> audit_staged := x \<rparr>) = f w" "\<And>w x. f (w \<lparr> audit_t := x \<rparr>) = f w"
  shows "keeps f (with_crm_session (abind (audit_log e c) (\<lambda>_. worker_crm_commit)))"
  using assms unfolding audit_log_def worker_crm_commit_def crm_commit_def
  by (intro keeps_session keeps_intros keeps_outside) auto

lemma frame_claim: "worker_frame f \<Longrightarrow> f (snd (claim gid cv w)) = f w"
  unfolding worker_frame_def claim_def by (auto split: option.splits prod.splits verdict.splits)

lemma frame_read: "worker_frame f \<Longrightarrow> keeps f (read_generation gid)"
  unfolding read_generation_def by (auto intro!: keeps_outside simp: frame_tick)

lemma frame_save:
  assumes "worker_frame f"
  shows "keeps f (save_success bl gid res)" "keeps f (save_failure bl gid m)"
  using assms unfolding save_success_def save_failure_def finished_hint_def
  by (auto intro!: keeps_intros frame_read keeps_outside keeps_audit keeps_emit simp: frame_tick frame_claim)
     (auto simp: worker_frame_def)

lemma frame_fail: "worker_frame f \<Longrightarrow> keeps f (fail_with env gid m t)"
  unfolding fail_with_def by (intro keeps_intros frame_save)

lemma frame_file: "worker_frame f \<Longrightarrow> keeps f (load_from_file env sn)"
  unfolding load_from_file_def parse_upload_def download_def
  by (auto intro!: keeps_intros frame_fail keeps_outside simp: frame_tick
      split: option.splits sum.splits storage_error.splits load_error.splits)

lemma frame_crm: "worker_frame f \<Longrightarrow> keeps f (load_from_crm env sn)"
  unfolding load_from_crm_def Let_def
  by (auto intro!: keeps_intros frame_fail keeps_outside simp: frame_tick split: option.splits sum.splits)

lemma frame_run: "worker_frame f \<Longrightarrow> keeps f (run_algorithm env name cls ins rd)"
  unfolding run_algorithm_def
  by (auto intro!: keeps_intros keeps_outside simp: frame_tick split: sum.splits)

lemma frame_crash: "worker_frame f \<Longrightarrow> keeps f (after_solver_crash env gid m x k)"
  unfolding after_solver_crash_def by (auto intro!: keeps_intros frame_fail split: option.splits)

lemma frame_solve: "worker_frame f \<Longrightarrow> keeps f (solve_and_save env meta gid m sn rd)"
  unfolding solve_and_save_def persist_result_def Let_def
  by (auto intro!: keeps_intros frame_fail frame_run frame_crash frame_save
      split: option.splits sum.splits worker_exc.splits)

lemma frame_process: "worker_frame f \<Longrightarrow> keeps f (process env meta gid m)"
  unfolding process_def process_pending_def snapshot_generation_def
  by (auto intro!: keeps_intros frame_fail frame_read frame_crm frame_file frame_solve
      split: option.splits sum.splits)

section \<open>How the row ends\<close>

lemma announce_valid:
  "valid (\<lambda>w. generations_t w gid = c)
     (abind (with_crm_session (abind (audit_log e cid) (\<lambda>_. worker_crm_commit))) (\<lambda>_. finished_hint bl gid' cid' st))
     (\<lambda>_ w. generations_t w gid = c) (\<lambda>e w. generations_t w gid = c \<and> (\<exists>x. e = WorkerException x))"
proof (rule valid_bind)
  let ?f = "\<lambda>w. generations_t w gid"
  let ?s = "with_crm_session (abind (audit_log e cid) (\<lambda>_. worker_crm_commit)) :: (world, worker_exc, unit) act"
  have "keeps ?f ?s" by (rule keeps_audit) (simp_all add: tick_def)
  moreover have "valid (\<lambda>_. True) ?s (\<lambda>_ _. True) (\<lambda>e _. \<exists>x. e = WorkerException x)"
    by (auto simp: valid_def with_crm_session_def worker_crm_commit_def acatch_def audit_log_def abind_def areturn_def
        araise_def split: prod.splits sum.splits)
  ultimately show "valid (\<lambda>w. ?f w = c) ?s (\<lambda>_ w. ?f w = c) (\<lambda>e w. ?f w = c \<and> (\<exists>x. e = WorkerException x))"
    by (rule valid_keeping)
next
  let ?f = "\<lambda>w. generations_t w gid"
  fix u :: unit
  let ?h = "finished_hint bl gid' cid' st"
  have "keeps ?f ?h" unfolding finished_hint_def by (rule keeps_emit) (simp_all add: tick_def)
  moreover have "valid (\<lambda>_. True) ?h (\<lambda>_ _. True) (\<lambda>e _. \<exists>x. e = WorkerException x)"
    by (auto simp: valid_def finished_hint_def emit_def acatch_def areturn_def split: prod.splits sum.splits option.splits)
  ultimately show "valid (\<lambda>w. ?f w = c) ?h (\<lambda>_ w. ?f w = c) (\<lambda>e w. ?f w = c \<and> (\<exists>x. e = WorkerException x))"
    by (rule valid_keeping)
qed

text \<open>The row after a verdict, and how it may have changed when an action raises.\<close>

definition settled_row :: "verdict \<Rightarrow> generation_row option \<Rightarrow> generation_row option" where
  "settled_row v row0 = map_option (\<lambda>g. if g_status g = PENDING then decided v g else g) row0"

definition undecided_or :: "int \<Rightarrow> generation_row option \<Rightarrow> verdict \<Rightarrow> world \<Rightarrow> bool" where
  "undecided_or gid row0 v w \<longleftrightarrow> generations_t w gid = row0 \<or> generations_t w gid = settled_row v row0"

lemma settled_row_closed: "generations_t w gid = settled_row v row0 \<Longrightarrow> \<not> row_open w gid"
  by (auto simp: settled_row_def row_open_def decided_def split: option.splits verdict.splits if_splits)

lemma claim_settles: "generations_t (snd (claim gid (cid, v) w)) gid = settled_row v (generations_t w gid)"
  by (auto simp: claim_def settled_row_def decided_def split: option.splits verdict.splits)

text \<open>\<open>save_success\<close> and \<open>save_failure\<close> have the same shape: read, claim, announce.\<close>

lemma claim_and_announce_valid:
  "valid (\<lambda>w. generations_t w gid = row0)
     (abind (read_generation gid) (\<lambda>row.
       (case row of
          None \<Rightarrow> areturn ()
        | Some g \<Rightarrow>
            abind (outside raise_worker (claim gid (g_community g, v))) (\<lambda>claimed.
              if \<not> claimed then areturn ()
              else abind (with_crm_session (abind (audit_log (E g) (Some (g_community g))) (\<lambda>_. worker_crm_commit)))
                     (\<lambda>_. finished_hint bl gid (g_community g) st)))))
     (\<lambda>_ w. generations_t w gid = settled_row v row0)
     (\<lambda>e w. (\<exists>x. e = WorkerException x) \<and> undecided_or gid row0 v w)"
  (is "valid _ _ ?Q ?X")
proof (rule valid_bind)
  show "valid (\<lambda>w. generations_t w gid = row0) (read_generation gid) (\<lambda>row w. row = row0 \<and> generations_t w gid = row0) ?X"
    unfolding read_generation_def by (rule valid_outside) (simp_all add: raise_worker_def tick_def undecided_or_def)
next
  fix row
  let ?tail = "\<lambda>g. abind (with_crm_session (abind (audit_log (E g) (Some (g_community g))) (\<lambda>_. worker_crm_commit)))
                 (\<lambda>_. finished_hint bl gid (g_community g) st)"
  have claimed: "valid (\<lambda>w. generations_t w gid = row0)
      (abind (outside raise_worker (claim gid (g_community g, v))) (\<lambda>claimed. if \<not> claimed then areturn () else ?tail g)) ?Q ?X" for g
  proof (rule valid_bind)
    show "valid (\<lambda>w. generations_t w gid = row0) (outside raise_worker (claim gid (g_community g, v)))
        (\<lambda>_ w. generations_t w gid = settled_row v row0) ?X"
      by (rule valid_outside) (auto simp: raise_worker_def tick_def undecided_or_def claim_settles)
  next
    fix claimed :: bool
    have "valid (\<lambda>w. generations_t w gid = settled_row v row0) (?tail g) ?Q ?X"
      by (rule valid_weaken [OF announce_valid]) (auto simp: undecided_or_def)
    then show "valid (\<lambda>w. generations_t w gid = settled_row v row0) (if \<not> claimed then areturn () else ?tail g) ?Q ?X"
      by (cases claimed) (simp_all add: valid_return)
  qed
  show "valid (\<lambda>w. row = row0 \<and> generations_t w gid = row0)
      (case row of None \<Rightarrow> areturn () | Some g \<Rightarrow>
         abind (outside raise_worker (claim gid (g_community g, v))) (\<lambda>claimed. if \<not> claimed then areturn () else ?tail g)) ?Q ?X"
  proof (cases row)
    case None
    then show ?thesis by (auto intro!: valid_return simp: settled_row_def)
  next
    case (Some g)
    show ?thesis unfolding Some option.case by (rule valid_weaken [OF claimed]) simp_all
  qed
qed

lemma save_success_valid:
  "valid (\<lambda>w. generations_t w gid = row0) (save_success bl gid res) (\<lambda>_ w. generations_t w gid = settled_row (Succeeded res) row0)
     (\<lambda>e w. (\<exists>x. e = WorkerException x) \<and> undecided_or gid row0 (Succeeded res) w)"
  unfolding save_success_def by (rule claim_and_announce_valid)

lemma save_failure_valid:
  "valid (\<lambda>w. generations_t w gid = row0) (save_failure bl gid m) (\<lambda>_ w. generations_t w gid = settled_row (Failed m) row0)
     (\<lambda>e w. (\<exists>x. e = WorkerException x) \<and> undecided_or gid row0 (Failed m) w)"
  unfolding save_failure_def by (rule claim_and_announce_valid)

text \<open>What is known of the row when the pipeline ends: a value means it is decided; a transient error
  that it is untouched, or has its result already and only the announcement failed.\<close>

definition ends_with :: "int \<Rightarrow> generation_row option \<Rightarrow> worker_exc \<Rightarrow> world \<Rightarrow> bool" where
  "ends_with gid row0 e w \<longleftrightarrow>
     (case e of
        TransientError _ \<Rightarrow> \<exists>res. undecided_or gid row0 (Succeeded res) w
      | _ \<Rightarrow> True)"

abbreviation pipeline :: "int \<Rightarrow> generation_row option \<Rightarrow> (world, worker_exc, 'a) act \<Rightarrow> ('a \<Rightarrow> world \<Rightarrow> bool) \<Rightarrow> bool" where
  "pipeline gid row0 m Q \<equiv> valid (\<lambda>w. generations_t w gid = row0) m Q (ends_with gid row0)"

lemma untouched_ends: "generations_t w gid = row0 \<Longrightarrow> ends_with gid row0 e w"
  by (auto simp: ends_with_def undecided_or_def split: worker_exc.splits)

lemma fail_with_valid: "pipeline gid row0 (fail_with env gid m t) (\<lambda>_ w. \<not> row_open w gid)"
proof -
  have "pipeline gid row0 (save_failure bl gid m) (\<lambda>_ w. \<not> row_open w gid)" for bl
    by (rule valid_weaken [OF save_failure_valid]) (auto simp: ends_with_def settled_row_closed)
  then show ?thesis unfolding fail_with_def by (rule valid_bind) (simp add: valid_return)
qed

text \<open>Loading either decides the row or leaves it as it was.\<close>

definition loaded_or_decided :: "int \<Rightarrow> generation_row option \<Rightarrow> terminal + raw_data \<Rightarrow> world \<Rightarrow> bool" where
  "loaded_or_decided gid row0 r w \<longleftrightarrow> (case r of Inl _ \<Rightarrow> \<not> row_open w gid | Inr _ \<Rightarrow> generations_t w gid = row0)"

lemma loaded_or_decided_simps:
  "loaded_or_decided gid row0 (Inl t) = (\<lambda>w. \<not> row_open w gid)"
  "loaded_or_decided gid row0 (Inr rd) = (\<lambda>w. generations_t w gid = row0)"
  by (simp_all add: fun_eq_iff loaded_or_decided_def)

lemma fail_and_stop_valid:
  "pipeline gid row0 (abind (fail_with env gid m t) (\<lambda>t. areturn (Inl t))) (loaded_or_decided gid row0)"
  by (rule valid_bind [OF fail_with_valid]) (auto intro: valid_return simp: loaded_or_decided_def)

lemma data_valid: "pipeline gid row0 (areturn (Inr rd)) (loaded_or_decided gid row0)"
  by (rule valid_return) (simp add: loaded_or_decided_def)

lemma load_from_file_valid:
  assumes "sn_id sn = gid"
  shows "pipeline gid row0 (load_from_file env sn) (loaded_or_decided gid row0)"
proof -
  let ?same = "\<lambda>w. generations_t w gid = row0"
  have dl: "pipeline gid row0 (atry (download k)) (\<lambda>_. ?same)" for k
    unfolding download_def
    by (rule valid_weaken [OF valid_keeps [where f = "\<lambda>w. generations_t w gid" and c = row0]])
       (auto intro!: keeps_intros keeps_outside untouched_ends split: option.splits simp: tick_def)
  have "pipeline gid row0 (parse_upload env sn k name got) (loaded_or_decided gid row0)" for k name got
    unfolding parse_upload_def assms
    by (auto split: sum.splits storage_error.splits load_error.splits
        intro: fail_and_stop_valid data_valid valid_raise untouched_ends)
  then show ?thesis
    unfolding load_from_file_def assms
    by (auto split: option.splits intro: fail_and_stop_valid valid_bind [OF dl])
qed

lemma load_from_crm_valid:
  assumes "sn_id sn = gid"
  shows "pipeline gid row0 (load_from_crm env sn) (loaded_or_decided gid row0)"
proof -
  have read: "pipeline gid row0 (outside raise_crm (\<lambda>w. (f w, w))) (\<lambda>_ w. generations_t w gid = row0)" for f :: "world \<Rightarrow> 'a"
    by (rule valid_outside) (auto simp: tick_def intro: untouched_ends)
  have rows: "pipeline gid row0 (if b then outside raise_crm (\<lambda>w. (f w, w)) else areturn x) (\<lambda>_ w. generations_t w gid = row0)"
    for b x and f :: "world \<Rightarrow> 'a"
    by (auto intro: read valid_return)
  show ?thesis
    unfolding load_from_crm_def Let_def assms
    by (auto split: option.splits sum.splits intro!: fail_and_stop_valid data_valid valid_bind [OF read] valid_bind [OF rows])
qed

lemma run_algorithm_valid:
  "valid (\<lambda>w. generations_t w gid = row0) (atry (run_algorithm env name cls ins rd)) (\<lambda>_ w. generations_t w gid = row0) X"
proof -
  have "keeps (\<lambda>w. generations_t w gid) (run_algorithm env name cls ins rd)"
    unfolding run_algorithm_def by (auto intro!: keeps_intros keeps_outside simp: tick_def split: sum.splits)
  from valid_try [OF valid_keeps [OF this]] show ?thesis
    by (rule valid_weaken) (auto split: sum.splits)
qed

lemma solve_and_save_valid: "pipeline gid row0 (solve_and_save env meta gid m sn rd) (\<lambda>_ w. \<not> row_open w gid)"
proof -
  have crash: "pipeline gid row0 (after_solver_crash env gid m x k) (\<lambda>_ w. \<not> row_open w gid)" for x k
    unfolding after_solver_crash_def
    by (auto split: option.splits intro: fail_with_valid valid_raise untouched_ends)
  have save: "pipeline gid row0 (persist_result env gid result k) (\<lambda>_ w. \<not> row_open w gid)" for result k
    unfolding persist_result_def
    by (rule valid_bind [OF valid_try [OF save_success_valid]])
       (auto simp: valid_def areturn_def araise_def ends_with_def settled_row_closed split: sum.splits worker_exc.splits)
  show ?thesis
    unfolding solve_and_save_def Let_def
    by (auto split: option.splits sum.splits worker_exc.splits
        intro!: fail_with_valid crash save valid_bind [OF run_algorithm_valid])
qed

lemma process_pending_valid:
  assumes "sn_id sn = gid"
  shows "pipeline gid row0 (process_pending env meta gid m sn) (\<lambda>_ w. \<not> row_open w gid)"
proof -
  have "pipeline gid row0 (if sn_source sn = CRM then load_from_crm env sn else load_from_file env sn) (loaded_or_decided gid row0)"
    using load_from_crm_valid [OF assms] load_from_file_valid [OF assms] by simp
  then have "pipeline gid row0
      (abind (if sn_source sn = CRM then load_from_crm env sn else load_from_file env sn) (\<lambda>loaded.
         (case loaded of Inl t \<Rightarrow> areturn t | Inr rd \<Rightarrow> solve_and_save env meta gid m sn rd))) (\<lambda>_ w. \<not> row_open w gid)"
  proof (rule valid_bind)
    show "valid (loaded_or_decided gid row0 r)
        (case r of Inl t \<Rightarrow> areturn t | Inr rd \<Rightarrow> solve_and_save env meta gid m sn rd)
        (\<lambda>_ w. \<not> row_open w gid) (ends_with gid row0)" for r
      by (cases r) (simp_all add: loaded_or_decided_simps valid_return solve_and_save_valid)
  qed
  with fail_with_valid show ?thesis unfolding process_pending_def by (rule valid_if)
qed

lemma process_valid:
  assumes "\<And>g. row0 = Some g \<Longrightarrow> g_id g = gid"
  shows "pipeline gid row0 (process env meta gid m) (\<lambda>_ w. \<not> row_open w gid)"
  unfolding process_def snapshot_generation_def abind_assoc abind_simps
proof (rule valid_bind)
  show "pipeline gid row0 (read_generation gid) (\<lambda>row w. row = row0 \<and> generations_t w gid = row0)"
    unfolding read_generation_def by (rule valid_outside) (auto simp: tick_def intro: untouched_ends)
next
  fix row
  let ?f = "\<lambda>osn. case osn of None \<Rightarrow> areturn None | Some sn \<Rightarrow>
    if sn_status sn \<noteq> PENDING then areturn (sn_file_storage_key sn) else process_pending env meta gid m sn"
  have "pipeline gid row0 (?f (map_option snapshot_of row0)) (\<lambda>_ w. \<not> row_open w gid)"
  proof (cases row0)
    case None
    then show ?thesis by (auto intro: valid_return simp: row_open_def)
  next
    case (Some g)
    have "pipeline gid row0 (process_pending env meta gid m (snapshot_of g)) (\<lambda>_ w. \<not> row_open w gid)"
      using assms Some by (intro process_pending_valid) (simp add: snapshot_of_def)
    moreover have "g_status g \<noteq> PENDING \<Longrightarrow> pipeline gid row0 (areturn (sn_file_storage_key (snapshot_of g))) (\<lambda>_ w. \<not> row_open w gid)"
      using Some by (auto intro: valid_return simp: row_open_def)
    moreover have "sn_status (snapshot_of g) = g_status g" by (simp add: snapshot_of_def)
    ultimately show ?thesis using Some by simp
  qed
  then show "valid (\<lambda>w. row = row0 \<and> generations_t w gid = row0) (?f (map_option snapshot_of row))
      (\<lambda>_ w. \<not> row_open w gid) (ends_with gid row0)"
    by (auto simp: valid_def)
qed

section \<open>The reply\<close>

text \<open>The generation a message is for.\<close>

definition message_generation :: "msg \<Rightarrow> int option" where
  "message_generation m = Option.bind (decode_event (msg_data m)) (\<lambda>ev. generation_id_of (de_data ev))"

lemma send_reply_outcome:
  assumes "send_reply r w = (x, w')"
  shows "store w' = store w" "generations_t w' = generations_t w" "replies w' = replies w @ (case x of Inr _ \<Rightarrow> [r] | Inl _ \<Rightarrow> [])"
  using assms by (auto simp: send_reply_def outside_def tick_def split: outcome.splits)

lemma delete_object_rows:
  assumes "delete_object k w = (x, w')"
  shows "generations_t w' = generations_t w" "replies w' = replies w"
  using assms by (auto simp: delete_object_def acatch_def areturn_def outside_def tick_def split: outcome.splits)

lemma abind_outcome:
  assumes "abind m f w = (r, w')"
  obtains e where "r = Inl e" "m w = (Inl e, w')" | x w1 where "m w = (Inr x, w1)" "f x w1 = (r, w')"
  using assms by (auto simp: abind_def split: prod.splits sum.splits)

lemma save_failure_frame:
  assumes "save_failure bl gid m w = (r, w')"
  shows "store w' = store w" "replies w' = replies w"
  using frame_save(2) [OF worker_frame_fields(1)] frame_save(2) [OF worker_frame_fields(2)] assms
  unfolding keeps_def by (metis snd_conv)+

lemma process_outcome:
  assumes "process env meta gid m w = (r, w1)" "\<And>g. generations_t w gid = Some g \<Longrightarrow> g_id g = gid"
  shows "store w1 = store w" "replies w1 = replies w"
    "case r of Inr _ \<Rightarrow> \<not> row_open w1 gid | Inl e \<Rightarrow> ends_with gid (generations_t w gid) e w1"
  using process_valid [of "generations_t w gid" gid env meta m, OF assms(2)] frame_process [OF worker_frame_fields(1), of env meta gid m]
    frame_process [OF worker_frame_fields(2), of env meta gid m] assms(1)
  by (auto simp: valid_def keeps_def split: sum.splits dest: spec [of _ w])

text \<open>The ways in which the handling of a message can end.\<close>

inductive handled :: "int \<Rightarrow> world \<Rightarrow> world \<Rightarrow> bool" for gid w where
  no_reply: "replies w' = replies w \<Longrightarrow> store w' = store w \<Longrightarrow> handled gid w w'"
| nak: "replies w' = replies w @ [Nak NAK_RETRY_DELAY_SECONDS] \<Longrightarrow> store w' = store w \<Longrightarrow>
    undecided_or gid (generations_t w gid) (Succeeded res) w' \<Longrightarrow> handled gid w w'"
| ack: "replies w' = replies w @ [Ack] \<Longrightarrow> \<not> row_open w' gid \<Longrightarrow> handled gid w w'"
| unacked: "replies w' = replies w \<Longrightarrow> \<not> row_open w' gid \<Longrightarrow> handled gid w w'"

lemma unhandled_error_handled:
  assumes "abind (save_failure bl gid why) (\<lambda>_. send_reply Ack) w1 = (r, w')" "store w1 = store w" "replies w1 = replies w"
  shows "handled gid w w'"
  using assms(1)
proof (cases rule: abind_outcome)
  case (1 e)
  with save_failure_frame [OF 1(2)] assms(2,3) show ?thesis by (auto intro: handled.no_reply)
next
  case (2 x w2)
  then have "\<not> row_open w2 gid"
    using save_failure_valid [of gid "generations_t w1 gid" bl why]
    by (auto simp: valid_def settled_row_closed dest: spec [of _ w1])
  with 2 send_reply_outcome [OF 2(2)] save_failure_frame [OF 2(1)] assms(2,3) show ?thesis
    by (cases r) (auto intro: handled.ack handled.unacked simp: row_open_def)
qed

lemma handle_message_handled:
  assumes "message_generation m = Some gid" "\<And>g. generations_t w gid = Some g \<Longrightarrow> g_id g = gid"
    and "handle_message env meta m w = (r, w')"
  shows "handled gid w w'"
proof -
  obtain ev where ev: "decode_event (msg_data m) = Some ev" "generation_id_of (de_data ev) = Some gid"
    using assms(1) by (auto simp: message_generation_def bind_eq_Some_conv)
  obtain p w1 where p: "process env meta gid m w = (p, w1)" by (cases "process env meta gid m w")
  note w1 = process_outcome [OF p assms(2)]
  have tried: "(atry (process env meta gid m) :: (world, worker_exc, worker_exc + terminal) act) w = (Inr p, w1)" by (simp add: atry_def p)
  note unhandled = unhandled_error_handled [OF _ w1(1,2), of "we_byte_length env" gid "''unhandled_worker_error''" r w']
  show ?thesis
  proof (cases p)
    case (Inl e)
    show ?thesis
    proof (cases e)
      case (TransientError x)
      then have "send_reply (Nak NAK_RETRY_DELAY_SECONDS) w1 = (r, w')"
        using assms(3) ev tried Inl by (simp add: handle_message_def abind_def [of "atry _"])
      note out = send_reply_outcome [OF this]
      obtain res where res: "undecided_or gid (generations_t w gid) (Succeeded res) w1"
        using w1(3) Inl TransientError by (auto simp: ends_with_def)
      show ?thesis
      proof (cases r)
        case (Inl a)
        with out w1(1,2) show ?thesis by (auto intro: handled.no_reply)
      next
        case (Inr a)
        with out w1(1,2) res show ?thesis by (intro handled.nak [where res = res]) (auto simp: undecided_or_def)
      qed
    qed (use assms(3) ev tried Inl unhandled in \<open>simp_all add: handle_message_def abind_def [of "atry _"]\<close>)
  next
    case (Inr k)
    let ?del = "\<lambda>_ :: unit. case k of None \<Rightarrow> areturn () | Some k \<Rightarrow> delete_object k"
    have "abind (send_reply Ack) ?del w1 = (r, w')"
      using assms(3) ev tried Inr by (simp add: handle_message_def abind_def [of "atry _"])
    then show ?thesis
    proof (cases rule: abind_outcome)
      case (1 e)
      with send_reply_outcome [OF 1(2)] w1 show ?thesis by (auto intro: handled.no_reply)
    next
      case (2 x w2)
      then have "generations_t w' = generations_t w2" "replies w' = replies w2"
        by (cases k; auto simp: areturn_def dest: delete_object_rows)+
      with send_reply_outcome [OF 2(1)] w1 Inr show ?thesis by (auto intro!: handled.ack simp: row_open_def)
    qed
  qed
qed

section \<open>Messages on a concrete world\<close>

definition generation_message :: "int \<Rightarrow> nat option \<Rightarrow> msg" where
  "generation_message gid d =
     \<lparr> msg_data = Some (encode_event \<lparr> ev_type = ''generation.requested'', ev_version = JInt 1,
         ev_data = JObj [(''generation_id'', JInt gid)] \<rparr>), msg_num_delivered = d \<rparr>"

lemma generation_message_id: "message_generation (generation_message gid d) = Some gid"
  by (simp add: message_generation_def generation_message_def encode_event_def decode_event_def generation_id_of_def)

text \<open>From now on the outside services all work.\<close>

definition all_work :: "world \<Rightarrow> bool" where
  "all_work w \<longleftrightarrow> (\<forall>i\<ge>clock w. outcomes w i = Works)"

lemma outside_works: "all_work w \<Longrightarrow> outside r f w = (Inr (fst (f (tick w))), snd (f (tick w)))"
  by (simp add: all_work_def outside_def case_prod_beta Let_def)

lemma all_work_tick [simp]: "all_work w \<Longrightarrow> all_work (tick w)"
  and all_work_clock [simp]: "all_work w \<Longrightarrow> all_work (w \<lparr> clock := Suc (clock w) \<rparr>)"
  by (simp_all add: all_work_def tick_def)

lemma all_work_updates [simp]:
  "all_work (w \<lparr> generations_t := x1 \<rparr>) = all_work w"
  "all_work (w \<lparr> audit_t := x2 \<rparr>) = all_work w" "all_work (w \<lparr> audit_staged := x3 \<rparr>) = all_work w"
  "all_work (w \<lparr> replies := x4 \<rparr>) = all_work w" "all_work (w \<lparr> store := x5 \<rparr>) = all_work w"
  "all_work (w \<lparr> published := x6 \<rparr>) = all_work w"
  by (simp_all add: all_work_def)

text \<open>Actions that return a value when the services work.\<close>

definition completes :: "(world, 'e, 'a) act \<Rightarrow> bool" where
  "completes m \<longleftrightarrow> (\<forall>w. all_work w \<longrightarrow> (\<exists>x w'. m w = (Inr x, w') \<and> all_work w'))"

lemma completes_return: "completes (areturn x)"
  by (simp add: completes_def areturn_def)

lemma completes_bind: "completes m \<Longrightarrow> (\<And>x. completes (f x)) \<Longrightarrow> completes (abind m f)"
  unfolding completes_def abind_def by fastforce

lemma completes_catch: "completes m \<Longrightarrow> completes (acatch m h)"
  unfolding completes_def acatch_def by fastforce

lemma completes_if: "completes m \<Longrightarrow> completes m' \<Longrightarrow> completes (if b then m else m')"
  by simp

lemma completes_outside: "(\<And>w. all_work w \<Longrightarrow> all_work (snd (f w))) \<Longrightarrow> completes (outside r f)"
  by (auto simp: completes_def outside_works)

lemma completes_session: "completes m \<Longrightarrow> completes (with_crm_session m)"
  unfolding completes_def with_crm_session_def
proof (intro allI impI)
  fix w assume m: "\<forall>w. all_work w \<longrightarrow> (\<exists>x w'. m w = (Inr x, w') \<and> all_work w')" and "all_work w"
  then obtain x w' where "m (w \<lparr> audit_staged := [] \<rparr>) = (Inr x, w')" "all_work w'"
    using all_work_updates(3) [of "[]" w] by blast
  then show "\<exists>x w'. (case m (w \<lparr> audit_staged := [] \<rparr>) of (r, w') \<Rightarrow> (r, w' \<lparr> audit_staged := audit_staged w \<rparr>)) = (Inr x, w') \<and> all_work w'"
    by simp
qed

lemma completes_publish: "completes (publish_all chs body)"
  by (induction chs) (auto intro!: completes_return completes_bind completes_outside)

lemma completes_emit: "completes (emit bl topic aud res hint scope)"
proof -
  have "completes (acatch (publish_all (channels aud) env) (\<lambda>_. areturn ()))" for env
    by (intro completes_catch completes_publish)
  then show ?thesis unfolding completes_def emit_def by (auto split: option.splits)
qed

lemma all_work_claim: "all_work w \<Longrightarrow> all_work (snd (claim gid cv w))"
  by (auto simp: claim_def all_work_def split: option.splits prod.splits verdict.splits)

lemmas completes_intros = completes_return completes_bind completes_catch completes_if completes_outside
  completes_session completes_emit

lemma completes_save_failure: "completes (save_failure bl gid m)"
  unfolding save_failure_def read_generation_def audit_log_def worker_crm_commit_def crm_commit_def finished_hint_def
  by (auto intro!: completes_intros simp: all_work_claim split: option.split)

lemma limit_reached_outcome:
  assumes "message_generation m = Some gid" "delivery_count m = Some d" "MAX_DELIVERIES \<le> d"
    and "generations_t w gid = Some g" "g_status g = PENDING" "all_work w"
  shows "\<exists>w'. handle_message env meta m w = (Inr (), w') \<and> replies w' = replies w @ [Ack] \<and>
    store w' = (case g_file_storage_key g of None \<Rightarrow> store w | Some k \<Rightarrow> (store w)(k := None)) \<and>
    (\<exists>why. generations_t w' gid = Some (decided (Failed why) g))"
proof -
  obtain ev where ev: "decode_event (msg_data m) = Some ev" "generation_id_of (de_data ev) = Some gid"
    using assms(1) by (auto simp: message_generation_def bind_eq_Some_conv)
  obtain why where why: "process_pending env meta gid m (snapshot_of g) = fail_with env gid why (g_file_storage_key g)"
    using assms(2,3) by (simp add: process_pending_def snapshot_of_def)
  obtain u w1 where w1: "save_failure (we_byte_length env) gid why (tick w) = (Inr u, w1)" "all_work w1"
    using completes_save_failure [of "we_byte_length env" gid why] all_work_tick assms(6) unfolding completes_def by blast
  have row: "generations_t w1 gid = Some (decided (Failed why) g)"
    using valid_at [OF save_failure_valid [of gid "Some g"] _ w1(1)] assms(4,5) by (simp add: settled_row_def tick_def)
  have p: "process env meta gid m w = (Inr (g_file_storage_key g), w1)"
    using assms(4,5,6) why w1
    by (simp add: process_def snapshot_generation_def read_generation_def abind_def outside_works areturn_def fail_with_def
        snapshot_of_def tick_def)
  have "(atry (process env meta gid m) :: (world, worker_exc, worker_exc + terminal) act) w = (Inr (Inr (g_file_storage_key g)), w1)"
    by (simp add: atry_def p)
  then have "handle_message env meta m w =
      abind (send_reply Ack) (\<lambda>_. case g_file_storage_key g of None \<Rightarrow> areturn () | Some k \<Rightarrow> delete_object k) w1"
    using ev by (simp add: handle_message_def abind_def [of "atry _"])
  with w1 row save_failure_frame [OF w1(1)] show ?thesis
    by (auto simp: abind_def send_reply_def outside_works areturn_def delete_object_def acatch_def tick_def split: option.splits)
qed

section \<open>Properties\<close>

text \<open>C11. An acknowledged message never leaves its generation pending: whatever outside calls fail on
  the way, once the handler has acknowledged the message the row of the generation is decided (or
  gone), so no generation is forgotten by the broker while it waits.\<close>

theorem acked_generation_is_decided:
  assumes "message_generation m = Some gid" "\<And>g. generations_t w gid = Some g \<Longrightarrow> g_id g = gid"
    and "handle_message env meta m w = (r, w')" "replies w' = replies w @ [Ack]"
  shows "\<not> row_open w' gid"
  using handle_message_handled [OF assms(1-3)] assms(4) by (cases rule: handled.cases) auto

theorem acked_generation_is_decided_witness:
  "\<forall>env meta. \<not> row_open (snd (handle_message env meta (generation_message 5 (Some 10)) pending_world)) 5"
proof (intro allI)
  fix env meta
  let ?m = "generation_message 5 (Some 10)"
  have row: "generations_t pending_world 5 = Some pending_file_row" "g_status pending_file_row = PENDING" "all_work pending_world"
    by (simp_all add: pending_world_def pending_file_row_def quiet_world_def all_work_def)
  have "delivery_count ?m = Some 10" "MAX_DELIVERIES \<le> 10"
    by (simp_all add: delivery_count_def generation_message_def MAX_DELIVERIES_def)
  then obtain w' where w': "handle_message env meta ?m pending_world = (Inr (), w')" "replies w' = replies pending_world @ [Ack]"
    using limit_reached_outcome [OF generation_message_id, of 5 "Some 10" 10 pending_world pending_file_row env meta] row by auto
  moreover have "g_id pending_file_row = 5" by (simp add: pending_file_row_def)
  ultimately show "\<not> row_open (snd (handle_message env meta ?m pending_world)) 5"
    using acked_generation_is_decided [OF generation_message_id _ w'] row(1) by simp
qed

text \<open>C23. A message that is handed back to the broker leaves everything the next delivery needs: the
  object store is untouched, and the row is exactly as it was, or already carries its successful
  result (the row was committed and only the announcement of it failed).\<close>

theorem nak_leaves_retry_possible:
  assumes "message_generation m = Some gid" "\<And>g. generations_t w gid = Some g \<Longrightarrow> g_id g = gid"
    and "handle_message env meta m w = (r, w')" "replies w' = replies w @ [Nak d]"
  shows "store w' = store w \<and> d = NAK_RETRY_DELAY_SECONDS \<and>
    (generations_t w' gid = generations_t w gid \<or>
     (\<exists>g. generations_t w gid = Some g \<and> generations_t w' gid = Some (g \<lparr> g_status := SUCCESS, g_error_message := None \<rparr>)))"
  using handle_message_handled [OF assms(1-3)] assms(4)
  by (cases rule: handled.cases; cases "generations_t w gid")
     (auto simp: undecided_or_def settled_row_def decided_def split: if_splits)

definition storage_outage_world :: world where
  "storage_outage_world = pending_world \<lparr> outcomes := (\<lambda>i. if i = 1 then Transport ''timeout'' else Works) \<rparr>"

lemma storage_outage_outcome:
  "replies (snd (handle_message env meta (generation_message 5 (Some 1)) storage_outage_world)) = [Nak 30]"
  "row_open (snd (handle_message env meta (generation_message 5 (Some 1)) storage_outage_world)) 5"
  by (simp_all add: row_open_def handle_message_def generation_message_def encode_event_def decode_event_def generation_id_of_def
      process_def process_pending_def snapshot_generation_def read_generation_def abind_def atry_def areturn_def araise_def outside_def
      snapshot_of_def storage_outage_world_def pending_world_def quiet_world_def pending_file_row_def tick_def
      delivery_count_def MAX_DELIVERIES_def load_from_file_def download_def classify_download_def parse_upload_def
      send_reply_def NAK_RETRY_DELAY_SECONDS_def)

theorem nak_leaves_retry_possible_witness:
  "\<forall>env meta. store (snd (handle_message env meta (generation_message 5 (Some 1)) storage_outage_world)) ''generations/5.csv'' =
     Some ''a,pv''"
proof (intro allI)
  fix env meta
  let ?m = "generation_message 5 (Some 1)" and ?w = storage_outage_world
  obtain r w' where w': "handle_message env meta ?m ?w = (r, w')" by (cases "handle_message env meta ?m ?w")
  with storage_outage_outcome(1) [of env meta] have "replies w' = replies ?w @ [Nak 30]"
    by (simp add: storage_outage_world_def pending_world_def quiet_world_def)
  moreover have "g_id g = 5" if "generations_t ?w 5 = Some g" for g
    using that by (auto simp: storage_outage_world_def pending_world_def pending_file_row_def)
  ultimately have "store w' = store ?w"
    using nak_leaves_retry_possible [OF generation_message_id _ w'] by blast
  then have "store w' ''generations/5.csv'' = Some ''a,pv''" by (simp add: storage_outage_world_def pending_world_def)
  with w' show "store (snd (handle_message env meta ?m ?w)) ''generations/5.csv'' = Some ''a,pv''" by simp
qed

text \<open>C22. The uploaded file of a generation that is still pending is never deleted by the worker: if the
  row is pending after a message has been handled, the object store is as before.\<close>

theorem pending_file_survives:
  assumes "message_generation m = Some gid" "\<And>g. generations_t w gid = Some g \<Longrightarrow> g_id g = gid"
    and "handle_message env meta m w = (r, w')" "row_open w' gid"
  shows "store w' = store w"
  using handle_message_handled [OF assms(1-3)] assms(4) by (cases rule: handled.cases) auto

theorem pending_file_survives_witness:
  "\<forall>env meta. store (snd (handle_message env meta (generation_message 5 (Some 1)) storage_outage_world)) = store storage_outage_world"
proof (intro allI)
  fix env meta
  let ?m = "generation_message 5 (Some 1)" and ?w = storage_outage_world
  obtain r w' where w': "handle_message env meta ?m ?w = (r, w')" by (cases "handle_message env meta ?m ?w")
  moreover have "g_id g = 5" if "generations_t ?w 5 = Some g" for g
    using that by (auto simp: storage_outage_world_def pending_world_def pending_file_row_def)
  ultimately show "store (snd (handle_message env meta ?m ?w)) = store ?w"
    using pending_file_survives [OF generation_message_id _ w'] storage_outage_outcome(2) [of env meta] by simp
qed



text \<open>C27. When a solver process dies under a generation, the first two deliveries are handed back with
  the row untouched; from the third on, and when the delivery count cannot be read, the row is
  FAILED and the message ends. So a crash that repeats cannot be retried for ever.\<close>

theorem solver_crash_is_retried_twice:
  assumes "too_large (length (rd_C rd)) (shape1 (rd_C rd)) = None"
    and "model_validate (we_coercion env) (md_input_schema meta) (sn_inputs sn) = Inr ins"
    and "registry_implementation (we_registry env) (md_name meta) = Inr cls"
    and "run_algorithm env (md_name meta) cls ins rd w = (Inl (SolverCrashError x), w1)"
    and "generations_t w gid = Some g" "g_status g = PENDING" "all_work w1"
  shows "\<exists>r w'. solve_and_save env meta gid m sn rd w = (r, w') \<and>
    (if delivery_count m \<in> {Some 0, Some 1, Some 2} then (\<exists>y. r = Inl (TransientError y)) \<and> generations_t w' gid = Some g
     else r = Inr (sn_file_storage_key sn) \<and> (\<exists>why. generations_t w' gid = Some (decided (Failed why) g)))"
proof -
  let ?k = "sn_file_storage_key sn"
  have "(atry (run_algorithm env (md_name meta) cls ins rd) :: (world, worker_exc, worker_exc + algorithm_result) act) w =
      (Inr (Inl (SolverCrashError x)), w1)" by (simp add: atry_def assms(4))
  then have crash: "solve_and_save env meta gid m sn rd w = after_solver_crash env gid m x ?k w1"
    by (simp add: solve_and_save_def Let_def abind_def [of "atry _"] assms(1-3))
  have "keeps (\<lambda>w. generations_t w gid) (run_algorithm env (md_name meta) cls ins rd)"
    unfolding run_algorithm_def by (auto intro!: keeps_intros keeps_outside simp: tick_def split: sum.splits)
  then have row: "generations_t w1 gid = Some g"
    using assms(4,5) unfolding keeps_def by (metis snd_conv)
  have failed: "\<exists>w'. fail_with env gid why ?k w1 = (Inr ?k, w') \<and> generations_t w' gid = Some (decided (Failed why) g)" for why
  proof -
    obtain u w2 where w2: "save_failure (we_byte_length env) gid why w1 = (Inr u, w2)"
      using completes_save_failure assms(7) unfolding completes_def by blast
    from valid_at [OF save_failure_valid _ w2] row have "generations_t w2 gid = Some (decided (Failed why) g)"
      by (simp add: settled_row_def assms(6))
    with w2 show ?thesis by (simp add: fail_with_def abind_def areturn_def)
  qed
  show ?thesis
  proof (cases "delivery_count m \<in> {Some 0, Some 1, Some 2}")
    case True
    then show ?thesis using row
      by (auto simp: crash after_solver_crash_def MAX_SOLVER_CRASH_DELIVERIES_def araise_def)
  next
    case False
    then obtain why where "after_solver_crash env gid m x ?k = fail_with env gid why ?k"
      by (cases "delivery_count m") (auto simp: after_solver_crash_def MAX_SOLVER_CRASH_DELIVERIES_def numeral_eq_Suc less_Suc_eq)
    with failed [of why] False show ?thesis by (auto simp: crash)
  qed
qed

text \<open>A registry with one algorithm without inputs, in a worker with a solver pool.\<close>

definition idle_metadata :: algorithm_metadata where
  "idle_metadata = \<lparr> md_name = ''idle'', md_description = '''', md_version = ''1.0.0'', md_queue = ''optimce.allocation.idle'',
     md_input_schema = [], md_tags = [], md_timeout_seconds = None \<rparr>"

definition idle_class :: algorithm_class where
  "idle_class = \<lparr> cls_metadata = idle_metadata, cls_run = (\<lambda>_ _. Inr \<lparr> ar_keys = [] \<rparr>) \<rparr>"

definition pool_env :: worker_env where
  "pool_env = \<lparr> we_midnight = (\<lambda>d. d * 86400), we_parsers = \<lparr> read_csv = (\<lambda>_. Inl ''csv''), read_excel = (\<lambda>_. Inl ''xlsx'') \<rparr>,
     we_coercion = \<lparr> as_int = (\<lambda>_. None), as_float = (\<lambda>_. None) \<rparr>,
     we_registry = \<lparr> reg_metadata = [(''idle'', idle_metadata)], reg_implementations = [(''idle'', idle_class)] \<rparr>,
     we_byte_length = (\<lambda>_. 100), we_executor = True \<rparr>"

definition crash_world :: world where
  "crash_world = pending_world \<lparr> outcomes := (\<lambda>i. if i = 0 then Fails ''terminated abruptly'' else Works) \<rparr>"

theorem solver_crash_is_retried_twice_witness:
  "\<exists>y w'. solve_and_save pool_env idle_metadata 5 (generation_message 5 (Some 2)) (snapshot_of (pending_file_row \<lparr> g_inputs := None \<rparr>))
     \<lparr> rd_C = [], rd_VA = [], rd_consumer_names = [] \<rparr> crash_world = (Inl (TransientError y), w')"
proof -
  let ?sn = "snapshot_of (pending_file_row \<lparr> g_inputs := None \<rparr>)" and ?rd = "\<lparr> rd_C = [], rd_VA = [], rd_consumer_names = [] \<rparr>"
  have "too_large (length (rd_C ?rd)) (shape1 (rd_C ?rd)) = None" by (simp add: too_large_def)
  moreover have "model_validate (we_coercion pool_env) (md_input_schema idle_metadata) (sn_inputs ?sn) = Inr []"
    by (simp add: snapshot_of_def model_validate_def idle_metadata_def dict_keys_def)
  moreover have "registry_implementation (we_registry pool_env) (md_name idle_metadata) = Inr idle_class"
    by (simp add: pool_env_def idle_metadata_def registry_implementation_def)
  moreover have "run_algorithm pool_env (md_name idle_metadata) idle_class [] ?rd crash_world =
      (Inl (SolverCrashError ''terminated abruptly''), tick crash_world)"
    by (simp add: run_algorithm_def pool_env_def abind_def outside_def crash_world_def pending_world_def quiet_world_def
        outcome_message_def tick_def)
  moreover have "generations_t crash_world 5 = Some pending_file_row" "g_status pending_file_row = PENDING"
    "all_work (tick crash_world)" "delivery_count (generation_message 5 (Some 2)) = Some 2"
    by (simp_all add: crash_world_def pending_world_def quiet_world_def pending_file_row_def all_work_def tick_def
        delivery_count_def generation_message_def)
  ultimately show ?thesis
    using solver_crash_is_retried_twice [of ?rd pool_env idle_metadata ?sn "[]" idle_class crash_world _ "tick crash_world" 5
        pending_file_row "generation_message 5 (Some 2)"] by auto
qed

definition audit_outage_world :: world where
  "audit_outage_world = pending_world \<lparr> outcomes := (\<lambda>i. if i = 4 then Fails ''crm down'' else Works) \<rparr>"



end
