(* ===== verification/Tenancy.thy ===== *)
theory Tenancy
  imports ApiRoutes Dispatching
begin

text \<open>
  Tenants are kept apart. \<open>own_view\<close> is the world with the rows of all other communities taken out;
  an action is \<open>blind\<close> to them when its outcome, and what it leaves of that view, depend on the view
  only. \<open>blind\<close> is a relational program logic with an invariant. The second half is about the rows of the others: \<open>foreign\<close> of the world does not change.
\<close>

section \<open>The view of a community\<close>

definition own_rows :: "int option \<Rightarrow> (int \<Rightarrow> generation_row option) \<Rightarrow> int \<Rightarrow> generation_row option" where
  "own_rows ctx tab i =
     (case tab i of None \<Rightarrow> None | Some g \<Rightarrow> if Some (g_community g) = ctx then Some g else None)"

definition own_list :: "int option \<Rightarrow> ('r \<Rightarrow> int) \<Rightarrow> 'r list \<Rightarrow> 'r list" where
  "own_list ctx community = filter (\<lambda>r. Some (community r) = ctx)"

definition own_view :: "world \<Rightarrow> world" where
  "own_view w = w \<lparr>
     generations_t := own_rows (context_community w) (generations_t w),
     keys_t := own_list (context_community w) k_community (keys_t w),
     crm_keys_t := own_list (context_community w) ck_community (crm_keys_t w),
     meters := own_list (context_community w) mc_community (meters w),
     operations := own_list (context_community w) snd (operations w) \<rparr>"

lemma own_idem [simp]: "own_rows ctx (own_rows ctx tab) = own_rows ctx tab" "own_list ctx c (own_list ctx c rs) = own_list ctx c rs"
  by (auto simp: own_rows_def own_list_def fun_eq_iff split: option.splits)

lemma own_view_fields [simp]:
  "clock (own_view w) = clock w" "outcomes (own_view w) = outcomes w" "next_generation_id (own_view w) = next_generation_id w"
  "next_crm_key_id (own_view w) = next_crm_key_id w" "audit_staged (own_view w) = audit_staged w" "audit_t (own_view w) = audit_t w"
  "context_community (own_view w) = context_community w" "store (own_view w) = store w" "queue (own_view w) = queue w"
  "locale_code (own_view w) = locale_code w" "auth_user (own_view w) = auth_user w" "app_users (own_view w) = app_users w"
  by (simp_all add: own_view_def)

text \<open>Two worlds with the same view.\<close>

definition alike :: "world \<Rightarrow> world \<Rightarrow> bool" where
  "alike w w' \<longleftrightarrow> own_view w = own_view w'"

lemma own_view_idem: "own_view (own_view w) = own_view w"
  by (simp add: own_view_def)

lemma alike_view: "alike w (own_view w)"
  by (simp add: alike_def own_view_idem)

lemma alike_fields:
  assumes "alike w w'"
  shows "clock w = clock w'" "outcomes w = outcomes w'" "next_generation_id w = next_generation_id w'"
    "next_crm_key_id w = next_crm_key_id w'" "audit_staged w = audit_staged w'" "context_community w = context_community w'"
    "store w = store w'" "queue w = queue w'" "locale_code w = locale_code w'" "auth_user w = auth_user w'" "app_users w = app_users w'"
    "audit_t w = audit_t w'"
  using assms unfolding alike_def by (metis own_view_fields)+

section \<open>A relational logic\<close>

text \<open>Under the invariant \<open>P\<close> the outcome of the action, and the view it leaves, depend on the view only.\<close>

definition blind :: "(world \<Rightarrow> bool) \<Rightarrow> (world, 'e, 'a) act \<Rightarrow> bool" where
  "blind P m \<longleftrightarrow> (\<forall>w w'. alike w w' \<and> P w \<and> P w' \<longrightarrow>
     fst (m w) = fst (m w') \<and> alike (snd (m w)) (snd (m w')) \<and> P (snd (m w)) \<and> P (snd (m w')))"

definition stable :: "(world \<Rightarrow> bool) \<Rightarrow> bool" where
  "stable P \<longleftrightarrow>
     (\<forall>w x. P (w \<lparr> clock := x \<rparr>) = P w) \<and> (\<forall>w x. P (w \<lparr> audit_staged := x \<rparr>) = P w) \<and>
     (\<forall>w x. P (w \<lparr> audit_t := x \<rparr>) = P w) \<and> (\<forall>w x. P (w \<lparr> store := x \<rparr>) = P w) \<and> (\<forall>w x. P (w \<lparr> queue := x \<rparr>) = P w)"

lemma blindD:
  assumes "blind P m" "alike w w'" "P w" "P w'"
  obtains r v v' where "m w = (r, v)" "m w' = (r, v')" "alike v v'" "P v" "P v'"
  using assms unfolding blind_def by (cases "m w"; cases "m w'") fastforce

lemma blindI:
  assumes "\<And>w w'. alike w w' \<Longrightarrow> P w \<Longrightarrow> P w' \<Longrightarrow>
    \<exists>r v v'. m w = (r, v) \<and> m w' = (r, v') \<and> alike v v' \<and> P v \<and> P v'"
  shows "blind P m"
  unfolding blind_def using assms by fastforce

lemma blind_keeps: "blind P m \<Longrightarrow> P w \<Longrightarrow> P (snd (m w))"
  unfolding blind_def alike_def by blast

text \<open>A sequence whose first part, when it succeeds, establishes a stronger invariant for the rest.\<close>

lemma blind_bind_stronger:
  assumes "blind P m" "\<And>w x w'. P w \<Longrightarrow> m w = (Inr x, w') \<Longrightarrow> R x w'" "\<And>x. blind (R x) (f x)" "\<And>x w. R x w \<Longrightarrow> P w"
  shows "blind P (abind m f)"
proof (rule blindI)
  fix w w' assume a: "alike w w'" "P w" "P w'"
  from blindD [OF assms(1) a] obtain r v v' where m: "m w = (r, v)" "m w' = (r, v')" "alike v v'" "P v" "P v'" .
  show "\<exists>r v v'. abind m f w = (r, v) \<and> abind m f w' = (r, v') \<and> alike v v' \<and> P v \<and> P v'"
  proof (cases r)
    case (Inl e)
    with m show ?thesis by (simp add: abind_def)
  next
    case (Inr x)
    with m a assms(2) have R: "R x v" "R x v'" by blast+
    from blindD [OF assms(3) m(3) R] obtain r2 u u' where "f x v = (r2, u)" "f x v' = (r2, u')" "alike u u'" "R x u" "R x u'" .
    with m Inr assms(4) show ?thesis by (auto simp: abind_def)
  qed
qed

named_theorems blind_intros "actions blind to the rows of other communities"

lemma blind_bind [blind_intros]: "blind P m \<Longrightarrow> (\<And>x. blind P (f x)) \<Longrightarrow> blind P (abind m f)"
  by (rule blind_bind_stronger [where R = "\<lambda>_. P"]) (use blind_keeps in fastforce)+

lemma blind_pure [blind_intros]: "blind P (areturn x)" "blind P (araise e)" "blind P (alift r)"
  by (simp_all add: blind_def areturn_def araise_def alift_def)

lemma blind_get: "(\<And>w. g (own_view w) = g w) \<Longrightarrow> blind P (aget g)"
  unfolding blind_def alike_def aget_def by (metis fst_conv snd_conv)

lemma blind_if [blind_intros]: "blind P m \<Longrightarrow> blind P m' \<Longrightarrow> blind P (if b then m else m')"
  by simp

lemma blind_case [blind_intros]:
  "blind P m \<Longrightarrow> (\<And>x. blind P (g x)) \<Longrightarrow> blind P (case opt of None \<Rightarrow> m | Some x \<Rightarrow> g x)"
  "(\<And>e. blind P (h e)) \<Longrightarrow> (\<And>x. blind P (g x)) \<Longrightarrow> blind P (case r of Inl e \<Rightarrow> h e | Inr x \<Rightarrow> g x)"
  "(\<And>x y. blind P (p x y)) \<Longrightarrow> blind P (case q of (x, y) \<Rightarrow> p x y)"
  "blind P m \<Longrightarrow> (\<And>x xs. blind P (c x xs)) \<Longrightarrow> blind P (case l of [] \<Rightarrow> m | x # xs \<Rightarrow> c x xs)"
  by (simp_all split: option.split sum.split prod.split list.split)

lemma blind_catch [blind_intros]:
  assumes "blind P m" "\<And>e. blind P (h e)"
  shows "blind P (acatch m h)"
proof (rule blindI)
  fix w w' assume a: "alike w w'" "P w" "P w'"
  from blindD [OF assms(1) a] obtain r v v' where m: "m w = (r, v)" "m w' = (r, v')" "alike v v'" "P v" "P v'" .
  show "\<exists>r v v'. acatch m h w = (r, v) \<and> acatch m h w' = (r, v') \<and> alike v v' \<and> P v \<and> P v'"
  proof (cases r)
    case (Inl e)
    from blindD [OF assms(2) m(3-5), of e] obtain q u u' where "h e v = (q, u)" "h e v' = (q, u')" "alike u u'" "P u" "P u'" .
    with m Inl show ?thesis by (simp add: acatch_def)
  next
    case (Inr x)
    with m show ?thesis by (simp add: acatch_def)
  qed
qed

lemma blind_try [blind_intros]:
  assumes "blind P m"
  shows "blind P (atry m)"
proof (rule blindI)
  fix w w' assume a: "alike w w'" "P w" "P w'"
  from blindD [OF assms a] obtain r v v' where "m w = (r, v)" "m w' = (r, v')" "alike v v'" "P v" "P v'" .
  then show "\<exists>r v v'. atry m w = (r, v) \<and> atry m w' = (r, v') \<and> alike v v' \<and> P v \<and> P v'"
    by (simp add: atry_def)
qed

lemma blind_default [blind_intros]: "blind P m \<Longrightarrow> blind P (with_default_error e m)"
proof -
  have "with_default_error e m = acatch m (\<lambda>x. araise (case x of ErrorException _ _ \<Rightarrow> x | OtherException _ \<Rightarrow> error_default e))"
    by (rule ext) (auto simp: with_default_error_def acatch_def araise_def split: prod.splits sum.splits exc.splits)
  then show "blind P m \<Longrightarrow> ?thesis" by (simp add: blind_intros)
qed

lemma alike_staged: "alike w w' \<Longrightarrow> alike (w \<lparr> audit_staged := x \<rparr>) (w' \<lparr> audit_staged := x \<rparr>)"
proof -
  have "own_view (w \<lparr> audit_staged := x \<rparr>) = own_view w \<lparr> audit_staged := x \<rparr>" for w x
    by (simp add: own_view_def)
  then show "alike w w' \<Longrightarrow> ?thesis" by (simp add: alike_def)
qed

lemma blind_session [blind_intros]:
  assumes "blind P m" "stable P"
  shows "blind P (with_crm_session m)"
proof (rule blindI)
  fix w w' assume a: "alike w w'" "P w" "P w'"
  then have "P (w \<lparr> audit_staged := [] \<rparr>)" "P (w' \<lparr> audit_staged := [] \<rparr>)" using assms(2) by (simp_all add: stable_def)
  from blindD [OF assms(1) alike_staged [OF a(1)] this] obtain r v v' where
    m: "m (w \<lparr> audit_staged := [] \<rparr>) = (r, v)" "m (w' \<lparr> audit_staged := [] \<rparr>) = (r, v')" "alike v v'" "P v" "P v'" .
  then have "P (v \<lparr> audit_staged := audit_staged w \<rparr>)" "P (v' \<lparr> audit_staged := audit_staged w \<rparr>)"
    using assms(2) by (simp_all add: stable_def)
  with m show "\<exists>r v v'. with_crm_session m w = (r, v) \<and> with_crm_session m w' = (r, v') \<and> alike v v' \<and> P v \<and> P v'"
    using alike_fields(5) [OF a(1)] by (simp add: with_crm_session_def alike_staged)
qed

text \<open>An outside call is blind when what it computes is.\<close>

lemma own_view_tick: "own_view (tick w) = tick (own_view w)"
  by (simp add: own_view_def tick_def)

lemma alike_tick: "alike w w' \<Longrightarrow> alike (tick w) (tick w')"
  by (simp add: alike_def own_view_tick)

lemma outside_fails: "outcomes w (clock w) \<noteq> Works \<Longrightarrow> outside r f w = (Inl (r (outcomes w (clock w))), tick w)"
  by (simp add: outside_def split: outcome.split)

lemma blind_outside:
  assumes "stable P"
    "\<And>w w'. alike w w' \<Longrightarrow> P w \<Longrightarrow> P w' \<Longrightarrow> fst (f w) = fst (f w') \<and> alike (snd (f w)) (snd (f w')) \<and> P (snd (f w)) \<and> P (snd (f w'))"
  shows "blind P (outside r f)"
proof (rule blindI)
  fix w w' assume a: "alike w w'" "P w" "P w'"
  have same: "outcomes w (clock w) = outcomes w' (clock w')" using alike_fields [OF a(1)] by simp
  have P: "P (tick w)" "P (tick w')" using assms(1) a by (simp_all add: stable_def tick_def)
  show "\<exists>r' v v'. outside r f w = (r', v) \<and> outside r f w' = (r', v') \<and> alike v v' \<and> P v \<and> P v'"
  proof (cases "outcomes w (clock w) = Works")
    case True
    moreover have "outcomes w' (clock w') = Works" using same True by simp
    moreover obtain x v v' where "f (tick w) = (x, v)" "f (tick w') = (x, v')" "alike v v'" "P v" "P v'"
      using assms(2) [OF alike_tick [OF a(1)] P] by (cases "f (tick w)"; cases "f (tick w')") auto
    ultimately show ?thesis by (simp add: outside_def)
  next
    case False
    then show ?thesis
      using outside_fails [of w r f] outside_fails [of w' r f] same a(1) P by (simp add: alike_tick)
  qed
qed

section \<open>The operations are blind\<close>

lemma own_scope: "with_community_scope ctx c rows = own_list ctx c rows"
  by (auto simp: with_community_scope_def own_list_def eq_commute split: option.split)

lemma own_filter: "own_list ctx c (filter p rows) = filter p (own_list ctx c rows)"
  by (simp add: own_list_def conj_commute)

lemma own_append: "own_list ctx c (xs @ ys) = own_list ctx c xs @ own_list ctx c ys"
  by (simp add: own_list_def)

lemma alike_tables:
  assumes "alike w w'" and ctx: "context_community w = ctx"
  shows "own_rows ctx (generations_t w) = own_rows ctx (generations_t w')"
    "own_list ctx k_community (keys_t w) = own_list ctx k_community (keys_t w')"
    "own_list ctx ck_community (crm_keys_t w) = own_list ctx ck_community (crm_keys_t w')"
    "own_list ctx mc_community (meters w) = own_list ctx mc_community (meters w')"
    "own_list ctx snd (operations w) = own_list ctx snd (operations w')"
proof -
  have "context_community w' = ctx" using alike_fields(6) [OF assms(1)] ctx by simp
  then have "generations_t (own_view v) = own_rows ctx (generations_t v)" "keys_t (own_view v) = own_list ctx k_community (keys_t v)"
    "crm_keys_t (own_view v) = own_list ctx ck_community (crm_keys_t v)" "meters (own_view v) = own_list ctx mc_community (meters v)"
    "operations (own_view v) = own_list ctx snd (operations v)" if "v = w \<or> v = w'" for v
    using ctx that by (auto simp: own_view_def)
  then show "own_rows ctx (generations_t w) = own_rows ctx (generations_t w')"
    "own_list ctx k_community (keys_t w) = own_list ctx k_community (keys_t w')"
    "own_list ctx ck_community (crm_keys_t w) = own_list ctx ck_community (crm_keys_t w')"
    "own_list ctx mc_community (meters w) = own_list ctx mc_community (meters w')"
    "own_list ctx snd (operations w) = own_list ctx snd (operations w')"
    using assms(1) unfolding alike_def by metis+
qed

lemma own_generation_rows:
  "own_list ctx g_community (generation_rows w) = List.map_filter (own_rows ctx (generations_t w)) [1..next_generation_id w - 1]"
proof -
  have "own_list ctx g_community (List.map_filter tab is) = List.map_filter (own_rows ctx tab) is" for tab "is"
    by (induction "is") (auto simp: own_list_def own_rows_def List.map_filter_def split: option.splits)
  then show ?thesis by (simp add: generation_rows_def)
qed

text \<open>The community in whose name a request runs.\<close>

definition caller :: "int option \<Rightarrow> world \<Rightarrow> bool" where
  "caller ctx w \<longleftrightarrow> context_community w = ctx"

lemma stable_caller: "stable (caller ctx)"
  by (simp add: stable_def caller_def)

lemma blind_caller: "blind (caller ctx) (f ctx) \<Longrightarrow> blind (caller ctx) (abind (aget context_community) f)"
  unfolding blind_def caller_def abind_def aget_def by auto

lemma blind_read:
  "stable P \<Longrightarrow> (\<And>w w'. alike w w' \<Longrightarrow> P w \<Longrightarrow> P w' \<Longrightarrow> f w = f w') \<Longrightarrow> blind P (outside r (\<lambda>w. (f w, w)))"
  by (rule blind_outside) simp_all

text \<open>The repository.\<close>

lemma select_generations_own:
  assumes "alike w w'" "context_community w = ctx"
  shows "select_generations db ctx st q (generation_rows w) = select_generations db ctx st q (generation_rows w')"
  using alike_tables(1) [OF assms] alike_fields(3) [OF assms(1)]
  by (simp add: select_generations_def own_scope own_generation_rows)

lemma select_keys_own:
  assumes "alike w w'" "context_community w = ctx"
  shows "select_keys db ctx gid q (keys_t w) = select_keys db ctx gid q (keys_t w')"
  using alike_tables(2) [OF assms] by (simp add: select_keys_def own_scope own_filter)

lemma blind_get_list_generations: "blind (caller ctx) (get_list_generations db page page_size q)"
proof -
  have "blind (caller ctx)
     (abind (alift (status_filter q)) (\<lambda>status.
      abind (outside raise_db (\<lambda>w. (length (select_generations db ctx status q (generation_rows w)), w))) (\<lambda>count.
      abind (outside raise_db (\<lambda>w. (page_of page page_size (select_generations db ctx status q (generation_rows w)), w))) (\<lambda>fetched.
      abind (alift fetched) (\<lambda>rows. areturn (rows, int count))))))"
    by (intro blind_intros blind_read stable_caller) (metis caller_def select_generations_own)+
  then show ?thesis unfolding get_list_generations_def by (rule blind_caller)
qed

lemma blind_get_allocation_keys_list: "blind (caller ctx) (get_allocation_keys_list db gid page page_size q)"
proof -
  have "blind (caller ctx)
     (abind (outside raise_db (\<lambda>w. (select_keys db ctx gid q (keys_t w), w))) (\<lambda>counted.
      abind (alift counted) (\<lambda>all_rows.
      abind (outside raise_db (\<lambda>w. (rbind (select_keys db ctx gid q (keys_t w)) (page_of page page_size), w))) (\<lambda>fetched.
      abind (alift fetched) (\<lambda>rows. areturn (rows, int (length all_rows)))))))"
    by (intro blind_intros blind_read stable_caller) (metis caller_def select_keys_own)+
  then show ?thesis unfolding get_allocation_keys_list_def by (rule blind_caller)
qed

lemma blind_get_allocation_key: "blind (caller ctx) (repo_get_allocation_key id_key)"
proof -
  have "blind (caller ctx) (outside raise_db (\<lambda>w.
      (one_or_none (with_community_scope ctx k_community (filter (\<lambda>k. k_id k = id_key) (keys_t w))), w)))"
    using alike_tables(2) by (intro blind_read stable_caller) (simp add: caller_def own_scope own_filter)
  then show ?thesis unfolding repo_get_allocation_key_def by (rule blind_caller)
qed

lemma own_row: "own_list ctx g_community (case tab i of None \<Rightarrow> [] | Some g \<Rightarrow> [g]) = (case own_rows ctx tab i of None \<Rightarrow> [] | Some g \<Rightarrow> [g])"
  by (simp add: own_list_def own_rows_def split: option.split)

lemma blind_get_generation: "blind (caller ctx) (repo_get_generation gid)"
proof -
  have "blind (caller ctx) (outside raise_db (\<lambda>w.
      (one_or_none (with_community_scope ctx g_community (case generations_t w gid of None \<Rightarrow> [] | Some g \<Rightarrow> [g])), w)))"
    using alike_tables(1) by (intro blind_read stable_caller) (simp add: caller_def own_scope own_row)
  then show ?thesis unfolding repo_get_generation_def by (rule blind_caller)
qed

text \<open>A write that does the same to the view.\<close>

lemma blind_write:
  assumes "stable P" "\<And>w. own_view (f w) = g (own_view w)" "\<And>w. x (own_view w) = x w" "\<And>w. P w \<Longrightarrow> P (f w)"
  shows "blind P (outside r (\<lambda>w. (x w, f w)))"
proof (rule blind_outside [OF assms(1)])
  fix w w' assume "alike w w'" "P w" "P w'"
  then show "fst (x w, f w) = fst (x w', f w') \<and> alike (snd (x w, f w)) (snd (x w', f w')) \<and> P (snd (x w, f w)) \<and> P (snd (x w', f w'))"
    using assms(2-4) unfolding alike_def by (metis fst_conv snd_conv)
qed

lemma own_rows_update: "own_rows ctx (tab(i := v)) = (own_rows ctx tab)(i := own_rows ctx (\<lambda>_. v) i)"
  by (auto simp: own_rows_def fun_eq_iff)

lemma blind_writes:
  "blind (caller ctx) (create_generation model)"
  "blind (caller ctx) (commit_generation g)"
  "blind (caller ctx) flush_statement"
  "blind (caller ctx) (commit_delete_generation gid)"
  "blind (caller ctx) (commit_delete_key kid)"
  "blind (caller ctx) (save_allocation_key k)"
  "blind (caller ctx) (commit_crm_key k)"
proof -
  show "blind (caller ctx) (create_generation model)"
    unfolding create_generation_def
    by (rule blind_write [where g = "\<lambda>v. v \<lparr> next_generation_id := next_generation_id v + 1 \<rparr>", OF stable_caller])
       (simp_all add: own_view_def caller_def)
  show "blind (caller ctx) (save_allocation_key k)"
    unfolding save_allocation_key_def
    by (rule blind_write [where g = "\<lambda>v. v \<lparr> next_crm_key_id := next_crm_key_id v + 1 \<rparr>", OF stable_caller])
       (simp_all add: own_view_def caller_def)
  show "blind (caller ctx) (commit_generation g)"
    unfolding commit_generation_def
    by (rule blind_write [where g = "\<lambda>v. v \<lparr> generations_t := (generations_t v)(g_id g :=
          own_rows (context_community v) (\<lambda>_. Some g) (g_id g)) \<rparr>", OF stable_caller])
       (simp_all add: own_view_def own_rows_update caller_def)
  show "blind (caller ctx) flush_statement"
    unfolding flush_statement_def by (rule blind_write [where g = id, OF stable_caller]) simp_all
  show "blind (caller ctx) (commit_delete_generation gid)"
    unfolding commit_delete_generation_def
    by (rule blind_write [where g = "\<lambda>v. v \<lparr> generations_t := (generations_t v)(gid := None),
          keys_t := filter (\<lambda>k. k_generation k \<noteq> gid) (keys_t v) \<rparr>", OF stable_caller])
       (simp_all add: own_view_def own_rows_update own_filter caller_def own_rows_def)
  show "blind (caller ctx) (commit_delete_key kid)"
    unfolding commit_delete_key_def
    by (rule blind_write [where g = "\<lambda>v. v \<lparr> keys_t := filter (\<lambda>k. k_id k \<noteq> kid) (keys_t v) \<rparr>", OF stable_caller])
       (simp_all add: own_view_def own_filter caller_def)
  show "blind (caller ctx) (commit_crm_key k)"
    unfolding commit_crm_key_def
    by (rule blind_write [where g = "\<lambda>v. v \<lparr> crm_keys_t := crm_keys_t v @ own_list (context_community v) ck_community [k],
          audit_t := audit_t v @ audit_staged v, audit_staged := [] \<rparr>", OF stable_caller])
       (simp_all add: own_view_def own_append caller_def)
qed

text \<open>The object store, the audit log and the queue.\<close>

lemma blind_delete_object: "stable P \<Longrightarrow> blind P (delete_object k)"
  unfolding delete_object_def
  by (intro blind_intros blind_write [where g = "\<lambda>v. v \<lparr> store := (store v)(k := None) \<rparr>"]) (auto simp: own_view_def stable_def)

lemma blind_upload: "stable P \<Longrightarrow> blind P (upload k content)"
  unfolding upload_def
  by (intro blind_write [where g = "\<lambda>v. v \<lparr> store := (store v)(k \<mapsto> content) \<rparr>"]) (auto simp: own_view_def stable_def)

lemma audit_row_own: "audit_row_of e c (own_view w) = audit_row_of e c w"
  unfolding audit_row_of_def own_view_fields ..

lemma blind_audit_log: "stable P \<Longrightarrow> blind P (audit_log e c)"
  unfolding audit_log_def
  by (intro blind_intros blind_write [where g = "\<lambda>v. v \<lparr> audit_staged := audit_staged v @ [audit_row_of e c v] \<rparr>"])
     (auto simp: own_view_def stable_def audit_row_own [unfolded own_view_def])

lemma blind_api_audit: "stable P \<Longrightarrow> blind P (api_audit action entity eid payload)"
  unfolding api_audit_def by (rule blind_audit_log)

lemma blind_crm_commit: "stable P \<Longrightarrow> blind P api_crm_commit"
  unfolding api_crm_commit_def crm_commit_def
  by (intro blind_intros blind_write [where g = "\<lambda>v. v \<lparr> audit_t := audit_t v @ audit_staged v, audit_staged := [] \<rparr>"])
     (auto simp: own_view_def stable_def)

lemma blind_send_event:
  assumes "stable P"
  shows "blind P (send_event subject ev)"
proof (rule blindI)
  fix w w' assume a: "alike w w'" "P w" "P w'"
  let ?q = "\<lambda>w. (tick w) \<lparr> queue := queue w @ [(subject, encode_event ev)] \<rparr>"
  have view: "own_view (?q v) = (own_view v) \<lparr> clock := Suc (clock (own_view v)), queue := queue (own_view v) @ [(subject, encode_event ev)] \<rparr>" for v
    by (simp add: own_view_def tick_def)
  have q: "alike (?q w) (?q w')" unfolding alike_def view using a(1) by (simp only: alike_def)
  have P: "P (tick w)" "P (tick w')" "P (?q w)" "P (?q w')" using assms a by (simp_all add: stable_def tick_def)
  have same: "outcomes w' (clock w') = outcomes w (clock w)" using alike_fields(1,2) [OF a(1)] by simp
  show "\<exists>r v v'. send_event subject ev w = (r, v) \<and> send_event subject ev w' = (r, v') \<and> alike v v' \<and> P v \<and> P v'"
    using q P alike_tick [OF a(1)] by (cases "outcomes w (clock w)") (simp_all add: send_event_def same)
qed

text \<open>A generation of the caller.\<close>

definition owned :: "int option \<Rightarrow> int \<Rightarrow> world \<Rightarrow> bool" where
  "owned ctx gid w \<longleftrightarrow> caller ctx w \<and> own_rows ctx (generations_t w) gid \<noteq> None"

lemma stable_owned: "stable (owned ctx gid)"
  using stable_caller by (auto simp: stable_def owned_def)

lemma own_rows_some: "own_rows ctx tab i = Some g \<Longrightarrow> tab i = Some g"
  by (auto simp: own_rows_def split: option.splits if_splits)

lemma own_rows_modify:
  "(\<And>g. g_community (h g) = g_community g) \<Longrightarrow>
    own_rows ctx (tab(i := map_option h (tab i))) = (own_rows ctx tab)(i := map_option h (own_rows ctx tab i))"
  by (auto simp: own_rows_def fun_eq_iff split: option.splits)

lemma blind_mark_failed: "blind (owned ctx gid) (mark_failed_to_queue gid reason)"
proof -
  let ?h = "\<lambda>g. g \<lparr> g_status := FAILED, g_error_message := Some (take 2000 (''failed_to_queue: '' @ reason)) \<rparr>"
  have read: "blind (owned ctx gid) (outside raise_db (\<lambda>w. (generations_t w gid, w)))"
  proof (rule blind_read [OF stable_owned])
    fix w w' assume "alike w w'" "owned ctx gid w" "owned ctx gid w'"
    then show "generations_t w gid = generations_t w' gid"
      using alike_tables(1) [of w w' ctx] by (metis caller_def not_None_eq own_rows_some owned_def)
  qed
  have marked: "blind (owned ctx gid) (outside raise_db (\<lambda>w. ((), w \<lparr> generations_t := (generations_t w)(gid := map_option ?h (generations_t w gid)) \<rparr>)))"
  proof (rule blind_write [where g = "\<lambda>v. v \<lparr> generations_t := (generations_t v)(gid := map_option ?h (generations_t v gid)) \<rparr>", OF stable_owned])
    show "own_view (w \<lparr> generations_t := (generations_t w)(gid := map_option ?h (generations_t w gid)) \<rparr>) =
        own_view w \<lparr> generations_t := (generations_t (own_view w))(gid := map_option ?h (generations_t (own_view w) gid)) \<rparr>" for w
      using own_rows_modify [of ?h "context_community w" "generations_t w" gid] by (simp add: own_view_def)
    show "owned ctx gid w \<Longrightarrow> owned ctx gid (w \<lparr> generations_t := (generations_t w)(gid := map_option ?h (generations_t w gid)) \<rparr>)" for w
      using own_rows_modify [of ?h ctx "generations_t w" gid] by (auto simp: owned_def caller_def)
  qed simp
  show ?thesis
    unfolding mark_failed_to_queue_def
    by (intro blind_intros read marked blind_audit_log blind_crm_commit stable_owned)
qed

lemma blind_publish: "blind (owned ctx gid) rollback \<Longrightarrow> blind (owned ctx gid) (publish_or_fail meta gid rollback)"
  unfolding publish_or_fail_def by (intro blind_intros blind_send_event blind_mark_failed stable_owned)

text \<open>The services.\<close>

lemma blind_reads:
  "blind (caller ctx) (service_get_generations env page page_size q)"
  "blind (caller ctx) (service_get_allocation_keys env gid page page_size q)"
  "blind (caller ctx) (service_get_allocation_key kid)"
  unfolding service_get_generations_def service_get_allocation_keys_def service_get_allocation_key_def
  by (intro blind_intros blind_get_list_generations blind_get_allocation_keys_list blind_get_allocation_key)+

lemma blind_save_and_delete:
  "blind (caller ctx) (service_save_key kid)"
  "blind (caller ctx) (service_delete_generation gid)"
  "blind (caller ctx) (service_delete_key kid)"
  unfolding service_save_key_def service_delete_generation_def service_delete_key_def
  by (intro blind_intros blind_get_allocation_key blind_get_generation blind_writes blind_api_audit stable_caller)+

lemma created_outcome: "create_generation model w = (Inr m, w') \<Longrightarrow> g_community m = g_community model \<and> context_community w' = context_community w"
  by (auto simp: create_generation_def outside_def tick_def split: outcome.splits)

lemma commit_outcome:
  "commit_generation g w = (Inr u, w') \<Longrightarrow> generations_t w' = (generations_t w)(g_id g \<mapsto> g) \<and> context_community w' = context_community w"
  by (auto simp: commit_generation_def outside_def tick_def split: outcome.splits)

lemma committed_is_owned:
  "caller ctx w \<Longrightarrow> ctx = Some (g_community g) \<Longrightarrow> commit_generation g w = (Inr u, w') \<Longrightarrow> owned ctx (g_id g) w'"
  by (auto simp: owned_def caller_def own_rows_def dest!: commit_outcome)

lemma blind_under: "(C \<Longrightarrow> blind P m) \<Longrightarrow> blind (\<lambda>w. P w \<and> C) m"
  unfolding blind_def by blast

lemma blind_community:
  assumes "\<And>cid. ctx = Some cid \<Longrightarrow> blind (caller ctx) (f cid)"
  shows "blind (caller ctx) (abind caller_community f)"
proof (rule blind_bind_stronger [where R = "\<lambda>cid w. caller ctx w \<and> ctx = Some cid"])
  show "blind (caller ctx) caller_community"
    unfolding caller_community_def by (intro blind_caller blind_intros)
  show "caller ctx w' \<and> ctx = Some x" if "caller ctx w" "caller_community w = (Inr x, w')" for w x w'
    using that by (auto simp: caller_def caller_community_def abind_def aget_def araise_def areturn_def split: option.splits)
  show "blind (\<lambda>w. caller ctx w \<and> ctx = Some x) (f x)" for x
    using assms by (intro blind_under)
qed auto

lemma owned_caller: "owned ctx gid w \<Longrightarrow> caller ctx w"
  by (simp add: owned_def)

text \<open>The insertion of a row, as the two starts do it.\<close>

abbreviation insert_row :: "generation_row \<Rightarrow> (world, exc, generation_row) act" where
  "insert_row g \<equiv> abind (create_generation g) (\<lambda>model. abind (commit_generation model) (\<lambda>_. areturn model))"

lemma insert_row_owned:
  assumes "caller ctx w" "insert_row g w = (Inr m, w')" "ctx = Some (g_community g)"
  shows "owned ctx (g_id m) w'"
proof -
  obtain v u where v: "create_generation g w = (Inr m, v)" "commit_generation m v = (Inr u, w')"
    using assms(2) by (auto simp: abind_def areturn_def split: prod.splits sum.splits)
  then have "caller ctx v" "ctx = Some (g_community m)"
    using created_outcome [OF v(1)] assms by (auto simp: caller_def)
  then show ?thesis using v(2) by (rule committed_is_owned)
qed

lemma blind_insert_row: "blind (caller ctx) (insert_row g)"
  by (intro blind_intros blind_writes)

lemma blind_after_insert:
  assumes "ctx = Some (g_community g)" "\<And>m. blind (owned ctx (g_id m)) (f m)"
  shows "blind (caller ctx) (abind (insert_row g) f)"
  using blind_insert_row insert_row_owned [OF _ _ assms(1)] assms(2) owned_caller by (rule blind_bind_stronger)

lemma blind_after_guarded_insert:
  assumes "ctx = Some (g_community g)" "\<And>m. blind (owned ctx (g_id m)) (f m)"
  shows "blind (caller ctx) (abind (acatch (insert_row g) (\<lambda>x. abind (best_effort_delete k) (\<lambda>_. araise x))) f)"
proof (rule blind_bind_stronger)
  show "blind (caller ctx) (acatch (insert_row g) (\<lambda>x. abind (best_effort_delete k) (\<lambda>_. araise x)))"
    unfolding best_effort_delete_def by (rule blind_catch [OF blind_insert_row]) (intro blind_intros blind_delete_object stable_caller)
  show "owned ctx (g_id m) w'"
    if "caller ctx w" "acatch (insert_row g) (\<lambda>x. abind (best_effort_delete k) (\<lambda>_. araise x)) w = (Inr m, w')" for w m w'
  proof -
    have "insert_row g w = (Inr m, w')"
    proof (cases "insert_row g w")
      case (Pair r v)
      with that(2) show ?thesis by (cases r) (auto simp: acatch_def abind_def araise_def split: prod.splits sum.splits)
    qed
    with that(1) show ?thesis using assms(1) by (rule insert_row_owned)
  qed
qed (use assms(2) owned_caller in auto)

lemma blind_store_and_queue:
  assumes "ctx = Some community_id"
  shows "blind (caller ctx) (store_and_queue uuid req community_id meta ins content file_name)"
  unfolding store_and_queue_def Let_def
  by (rule blind_bind, intro blind_intros blind_upload stable_caller, rule blind_after_guarded_insert, simp add: assms,
      intro blind_intros blind_api_audit blind_publish stable_owned, simp add: best_effort_delete_def blind_delete_object stable_owned)

lemma blind_start_generation: "ctx = Some cid \<Longrightarrow> blind (caller ctx) (start_generation env uuid req file cid)"
  unfolding start_generation_def Let_def by (intro blind_intros blind_store_and_queue)

lemma summarize_own:
  assumes "alike w w'" "caller (Some cid) w"
  shows "summarize midnight \<lparr> q_community = cid, q_operation = op, q_start = ps, q_end = pe \<rparr> (meters w) =
    summarize midnight \<lparr> q_community = cid, q_operation = op, q_start = ps, q_end = pe \<rparr> (meters w')"
proof -
  let ?q = "\<lparr> q_community = cid, q_operation = op, q_start = ps, q_end = pe \<rparr>"
  have rows: "query_rows midnight ?q tab = query_rows midnight ?q (own_list (Some cid) mc_community tab)" for tab
    by (auto simp: query_rows_def own_list_def case_prod_beta intro!: filter_cong)
  have "own_list (Some cid) mc_community (meters w) = own_list (Some cid) mc_community (meters w')"
    using alike_tables(4) assms by (simp add: caller_def)
  then have "query_rows midnight ?q (meters w) = query_rows midnight ?q (meters w')" by (metis rows)
  then show ?thesis by (simp add: summarize_def)
qed

lemma operation_own:
  assumes "alike w w'" "caller (Some cid) w"
  shows "sharing_operation_exists (operations w) cid op = sharing_operation_exists (operations w') cid op"
proof -
  have exists_own: "sharing_operation_exists ops cid op = sharing_operation_exists (own_list (Some cid) snd ops) cid op" for ops
    by (auto simp: sharing_operation_exists_def own_list_def list_ex_iff)
  have "own_list (Some cid) snd (operations w) = own_list (Some cid) snd (operations w')"
    using alike_tables(5) assms by (simp add: caller_def)
  then show ?thesis by (metis exists_own)
qed

lemma blind_preview: "ctx = Some cid \<Longrightarrow> blind (caller ctx) (preview_crm_data env op ps pe cid)"
  unfolding preview_crm_data_def
  by (intro blind_intros blind_read stable_caller) (use operation_own summarize_own in auto)

lemma blind_start_from_crm: "ctx = Some cid \<Longrightarrow> blind (caller ctx) (start_generation_from_crm env req cid)"
proof -
  assume ctx: "ctx = Some cid"
  have insert: "blind (caller ctx) (abind (create_generation g) (\<lambda>model. abind (commit_generation model) (\<lambda>_.
      abind (api_audit a e (g_id model) p) (\<lambda>_. publish_or_fail meta (g_id model) (areturn ())))))"
    if "g_community g = cid" for g a e p meta
  proof -
    have "blind (caller ctx) (abind (insert_row g) (\<lambda>model. abind (api_audit a e (g_id model) p) (\<lambda>_. publish_or_fail meta (g_id model) (areturn ()))))"
      using ctx that by (intro blind_after_insert blind_intros blind_api_audit blind_publish stable_owned) simp
    then show ?thesis by (simp add: abind_assoc)
  qed
  show ?thesis
    unfolding start_generation_from_crm_def by (intro blind_intros blind_preview [OF ctx] insert) simp_all
qed

section \<open>The routes are blind\<close>

lemma blind_locale: "blind P (aget locale_code)"
  by (rule blind_get) simp

lemma blind_route: "blind (caller ctx) (route env call)"
proof (cases call)
  case (GetCrmDataPreview op ps pe)
  show ?thesis unfolding GetCrmDataPreview route.simps route_defs
    by (intro blind_intros blind_community blind_preview blind_locale)
next
  case (StartGeneration upl name injection_name algorithm_name parsed_inputs)
  have "blind (caller ctx) (abind caller_community (\<lambda>cid. abind (start_generation e u r upl cid) (\<lambda>resp. areturn (f resp))))" for e u r f
    by (intro blind_intros blind_community blind_start_generation)
  then show ?thesis unfolding StartGeneration route.simps route_defs
    by (intro blind_intros) (auto split: option.split json.split intro: blind_intros)
next
  case (StartGenerationFromCrm body)
  show ?thesis unfolding StartGenerationFromCrm route.simps route_defs
    by (intro blind_intros blind_community blind_start_from_crm)
next
  case GetAlgorithms
  show ?thesis unfolding GetAlgorithms route.simps route_defs by (intro blind_intros blind_locale)
next
  case (GetAlgorithmInputs name)
  show ?thesis unfolding GetAlgorithmInputs route.simps route_defs by (intro blind_intros blind_locale)
qed (simp only: route.simps route_defs, intro blind_intros blind_reads blind_save_and_delete)+

lemma blind_run_route: "blind (caller ctx) (run_route env call)"
  unfolding run_route_def by (intro blind_intros blind_route stable_caller)

section \<open>Properties\<close>

text \<open>C10. A community sees its own data only. The answer to a request is the one the service would give,
  under the same failures of the outside world, if the rows of all other communities (their
  generations, keys, saved keys, meter readings and sharing operations) did not exist; and so is
  the part of the world the community can see afterwards.\<close>

theorem answers_depend_on_own_rows:
  "fst (run_route env call w) = fst (run_route env call (own_view w)) \<and>
   own_view (snd (run_route env call w)) = own_view (snd (run_route env call (own_view w)))"
proof -
  have "caller (context_community w) w" "caller (context_community w) (own_view w)" by (simp_all add: caller_def)
  from blindD [OF blind_run_route alike_view this] show ?thesis
    by (metis alike_def fst_conv snd_conv)
qed

end
