(* ===== verification/Lifecycle.thy ===== *)
theory Lifecycle
  imports Persistence
begin

text \<open>
  The abstract specification of a generation: the stage it is in and the steps it may take. The
  services and the worker refine it: \<open>stage_of\<close> is the abstraction of the generation table, the
  writes of the model are related to the steps in \<open>Requests\<close> and \<open>Refinement\<close>.
\<close>

datatype life_stage = Absent | Waiting | Solved | Rejected

definition stage_of :: "(int \<Rightarrow> generation_row option) \<Rightarrow> int \<Rightarrow> life_stage" where
  "stage_of t i =
     (case t i of
        None \<Rightarrow> Absent
      | Some g \<Rightarrow> (case g_status g of PENDING \<Rightarrow> Waiting | SUCCESS \<Rightarrow> Solved | FAILED \<Rightarrow> Rejected))"

text \<open>\<open>unqueue\<close> is the failure of the publication, which does not look at the stage.\<close>

inductive life_step :: "(int \<Rightarrow> life_stage) \<Rightarrow> (int \<Rightarrow> life_stage) \<Rightarrow> bool" where
  submit: "L i = Absent \<Longrightarrow> life_step L (L(i := Waiting))"
| solve: "L i = Waiting \<Longrightarrow> life_step L (L(i := Solved))"
| reject: "L i = Waiting \<Longrightarrow> life_step L (L(i := Rejected))"
| unqueue: "L i \<noteq> Absent \<Longrightarrow> life_step L (L(i := Rejected))"
| remove: "L i \<noteq> Absent \<Longrightarrow> life_step L (L(i := Absent))"

inductive_simps life_step_iff: "life_step L L'"

text \<open>
  What a generation was asked to do: its row without the verdict. A table with its id sequence
  evolves into another one when the rows of the ids already drawn are rows there were, with their
  requests.
\<close>

definition request_of :: "generation_row \<Rightarrow> generation_row" where
  "request_of g = g \<lparr> g_status := PENDING, g_error_message := None \<rparr>"

definition evolves :: "(int \<Rightarrow> generation_row option) \<times> int \<Rightarrow> (int \<Rightarrow> generation_row option) \<times> int \<Rightarrow> bool" where
  "evolves b e \<longleftrightarrow> snd b \<le> snd e \<and>
     (\<forall>i g. fst e i = Some g \<longrightarrow> i < snd b \<longrightarrow> (\<exists>h. fst b i = Some h \<and> request_of h = request_of g))"

lemma request_of_verdict [simp]:
  "request_of (g \<lparr> g_status := st, g_error_message := m \<rparr>) = request_of g"
  by (simp add: request_of_def)

lemma evolves_refl [simp]: "evolves b b"
  by (simp add: evolves_def)

lemma evolves_write:
  assumes "evolves b (t, n)" "i < snd b \<Longrightarrow> \<exists>h. t i = Some h \<and> request_of h = request_of g"
  shows "evolves b (t(i \<mapsto> g), n)"
proof -
  have "\<exists>h. fst b j = Some h \<and> request_of h = request_of g'" if g': "(t(i \<mapsto> g)) j = Some g'" "j < snd b" for j g'
  proof (cases "j = i")
    case True
    then obtain h where h: "t i = Some h" "request_of h = request_of g" using assms(2) g'(2) by blast
    then have "\<exists>h'. fst b i = Some h' \<and> request_of h' = request_of h"
      using assms(1) g'(2) True unfolding evolves_def fst_conv by blast
    then show ?thesis using h True g'(1) by auto
  next
    case False
    then show ?thesis using assms(1) g' by (auto simp: evolves_def)
  qed
  then show ?thesis using assms(1) by (simp add: evolves_def)
qed

lemma evolves_drop: "evolves b (t, n) \<Longrightarrow> evolves b (t(i := None), n)"
  by (auto simp: evolves_def split: if_splits)

lemma evolves_drawn: "evolves b (t, n) \<Longrightarrow> evolves b (t, n + 1)"
  by (simp add: evolves_def)

lemma stage_of_update:
  "stage_of (t(i \<mapsto> g)) = (stage_of t)(i := (case g_status g of PENDING \<Rightarrow> Waiting | SUCCESS \<Rightarrow> Solved | FAILED \<Rightarrow> Rejected))"
  "stage_of (t(i := None)) = (stage_of t)(i := Absent)"
  by (auto simp: stage_of_def fun_eq_iff)

lemma stage_of_absent: "stage_of t i = Absent \<longleftrightarrow> t i = None"
  by (auto simp: stage_of_def split: option.split generation_status.split)

lemma submit_row: "t i = None \<Longrightarrow> g_status g = PENDING \<Longrightarrow> life_step (stage_of t) (stage_of (t(i \<mapsto> g)))"
  using life_step.submit [of "stage_of t" i] by (simp add: stage_of_update stage_of_absent)

lemma unqueue_row: "t i = Some h \<Longrightarrow> g_status g = FAILED \<Longrightarrow> life_step (stage_of t) (stage_of (t(i \<mapsto> g)))"
  using life_step.unqueue [of "stage_of t" i] by (simp add: stage_of_update stage_of_absent)

lemma remove_row: "t i = Some h \<Longrightarrow> life_step (stage_of t) (stage_of (t(i := None)))"
  using life_step.remove [of "stage_of t" i] by (simp add: stage_of_update stage_of_absent)

lemma decide_row:
  assumes "t i = Some g" "g_status g = PENDING"
  shows "life_step (stage_of t) (stage_of (t(i \<mapsto> decided v g)))"
proof -
  have "stage_of t i = Waiting" using assms by (simp add: stage_of_def)
  then show ?thesis
    using life_step.solve [of "stage_of t" i] life_step.reject [of "stage_of t" i]
    by (cases v) (simp_all add: stage_of_update decided_def)
qed

end
