(* ===== verification/Requests.thy ===== *)
theory Requests
  imports Tenancy Lifecycle
begin

text \<open>
  The invariant of the tables, and what requests do to an invariant. \<open>db_ok\<close> says that rows are
  stored under their id, ids come from the sequences, every generated key belongs to a
  generation of the same community, and rows are complete. The locale \<open>request_invariant\<close> is the
  interface between the service and an invariant: its laws are about the single writes to the
  database, its lemmas about whole routes. \<open>tenant\<close> is the first interpretation.
\<close>

section \<open>The invariant\<close>

text \<open>A row that the worker can process: the fields its source needs are there.\<close>

definition complete_row :: "generation_row \<Rightarrow> bool" where
  "complete_row g \<longleftrightarrow> g_inputs g \<noteq> None \<and>
     (case g_source g of
        FILE \<Rightarrow> g_file_storage_key g \<noteq> None \<and> g_file_name g \<noteq> None \<and> g_injection_name g \<noteq> None
      | CRM \<Rightarrow> g_sharing_operation g \<noteq> None \<and> g_period_start g \<noteq> None \<and> g_period_end g \<noteq> None)"

lemma complete_row_updates [simp]:
  "complete_row (g \<lparr> g_id := i \<rparr>) = complete_row g" "complete_row (g \<lparr> g_status := st \<rparr>) = complete_row g"
  "complete_row (g \<lparr> g_error_message := m \<rparr>) = complete_row g"
  by (simp_all add: complete_row_def split: data_source.split)

definition generations_ok :: "world \<Rightarrow> bool" where
  "generations_ok w \<longleftrightarrow> 0 < next_generation_id w \<and>
     (\<forall>i g. generations_t w i = Some g \<longrightarrow> g_id g = i \<and> 0 < i \<and> i < next_generation_id w \<and> complete_row g)"

definition keys_ok :: "world \<Rightarrow> bool" where
  "keys_ok w \<longleftrightarrow> distinct (map k_id (keys_t w)) \<and>
     (\<forall>k\<in>set (keys_t w). k_id k < next_key_id w \<and>
        (\<exists>g. generations_t w (k_generation k) = Some g \<and> g_community g = k_community k))"

definition db_ok :: "world \<Rightarrow> bool" where
  "db_ok w \<longleftrightarrow> generations_ok w \<and> keys_ok w"

text \<open>The rows of everybody else.\<close>

definition foreign ::
  "int option \<Rightarrow> world \<Rightarrow> (int \<Rightarrow> generation_row option) \<times> key_row list \<times> crm_key_row list" where
  "foreign ctx w =
     ((\<lambda>i. case generations_t w i of None \<Rightarrow> None | Some g \<Rightarrow> if Some (g_community g) = ctx then None else Some g),
      filter (\<lambda>k. Some (k_community k) \<noteq> ctx) (keys_t w), filter (\<lambda>k. Some (ck_community k) \<noteq> ctx) (crm_keys_t w))"

text \<open>
  The tables of a caller: consistent, with the given rows of everybody else, reached from the given
  stages by steps of the life cycle, and evolved from the given table of generations.
\<close>

definition tenant ::
  "int option \<Rightarrow> ((int \<Rightarrow> generation_row option) \<times> key_row list \<times> crm_key_row list) \<times> (int \<Rightarrow> life_stage) \<times> (int \<Rightarrow> generation_row option) \<times> int \<Rightarrow>
    world \<Rightarrow> bool" where
  "tenant ctx F w \<longleftrightarrow> db_ok w \<and> caller ctx w \<and> foreign ctx w = fst F \<and>
     life_step\<^sup>*\<^sup>* (fst (snd F)) (stage_of (generations_t w)) \<and> evolves (snd (snd F)) (generations_t w, next_generation_id w)"

definition started :: "world \<Rightarrow> ((int \<Rightarrow> generation_row option) \<times> key_row list \<times> crm_key_row list) \<times> (int \<Rightarrow> life_stage) \<times> (int \<Rightarrow> generation_row option) \<times> int" where
  "started w = (foreign (context_community w) w, stage_of (generations_t w), generations_t w, next_generation_id w)"

lemma tenant_start: "db_ok w \<Longrightarrow> tenant (context_community w) (started w) w"
  by (simp add: tenant_def caller_def started_def)

section \<open>Maintaining an invariant\<close>

definition tables :: "world \<Rightarrow> (int \<Rightarrow> generation_row option) \<times> int \<times> key_row list \<times> int \<times> crm_key_row list \<times> int option" where
  "tables w = (generations_t w, next_generation_id w, keys_t w, next_key_id w, crm_keys_t w, context_community w)"

definition of_tables :: "(world \<Rightarrow> bool) \<Rightarrow> bool" where
  "of_tables P \<longleftrightarrow> (\<forall>w w'. tables w = tables w' \<longrightarrow> P w = P w')"

definition maintains :: "(world \<Rightarrow> bool) \<Rightarrow> (world, 'e, 'a) act \<Rightarrow> bool" where
  "maintains P m \<longleftrightarrow> (\<forall>w. P w \<longrightarrow> P (snd (m w)))"

named_theorems maintains_intros "actions that maintain an invariant of the tables"

lemma maintains_keeps: "of_tables P \<Longrightarrow> keeps tables m \<Longrightarrow> maintains P m"
  unfolding of_tables_def keeps_def maintains_def by blast

lemma maintains_pure [maintains_intros]: "maintains P (areturn x)" "maintains P (araise e)" "maintains P (alift r)" "maintains P (aget g)"
  by (simp_all add: maintains_def areturn_def araise_def alift_def aget_def)

lemma of_tablesD: "of_tables P \<Longrightarrow> tables w = tables w' \<Longrightarrow> P w \<longleftrightarrow> P w'"
  unfolding of_tables_def by blast

lemma maintainsI: "(\<And>w r w'. P w \<Longrightarrow> m w = (r, w') \<Longrightarrow> P w') \<Longrightarrow> maintains P m"
  unfolding maintains_def by (metis prod.collapse)

lemma maintainsD: "maintains P m \<Longrightarrow> m w = (r, w') \<Longrightarrow> P w \<Longrightarrow> P w'"
  unfolding maintains_def by (metis snd_conv)

text \<open>A sequence; what the first part returns may be known to satisfy more (\<open>R\<close>).\<close>

lemma maintains_bind_with:
  assumes "maintains P m" "\<And>w x w'. P w \<Longrightarrow> m w = (Inr x, w') \<Longrightarrow> R x w'" "\<And>x. maintains (R x) (f x)" "\<And>x w. R x w \<Longrightarrow> P w"
  shows "maintains P (abind m f)"
proof (rule maintainsI)
  fix w r w' assume "P w" "abind m f w = (r, w')"
  then show "P w'"
    using assms(2,4) by (auto simp: abind_def split: prod.splits sum.splits dest: maintainsD [OF assms(1)] maintainsD [OF assms(3)])
qed

lemma maintains_bind [maintains_intros]: "maintains P m \<Longrightarrow> (\<And>x. maintains P (f x)) \<Longrightarrow> maintains P (abind m f)"
  by (rule maintains_bind_with [where R = "\<lambda>_. P"]) (auto dest: maintainsD)

lemma maintains_catch [maintains_intros]: "maintains P m \<Longrightarrow> (\<And>e. maintains P (h e)) \<Longrightarrow> maintains P (acatch m h)"
  by (rule maintainsI) (auto simp: acatch_def split: prod.splits sum.splits dest: maintainsD)

lemma maintains_try [maintains_intros]: "maintains P m \<Longrightarrow> maintains P (atry m)"
  by (rule maintainsI) (auto simp: atry_def split: prod.splits dest: maintainsD)

lemma maintains_default [maintains_intros]: "maintains P m \<Longrightarrow> maintains P (with_default_error e m)"
  by (rule maintainsI) (auto simp: with_default_error_def split: prod.splits sum.splits exc.splits dest: maintainsD)

lemma maintains_if [maintains_intros]: "maintains P m \<Longrightarrow> maintains P m' \<Longrightarrow> maintains P (if b then m else m')"
  by simp

lemma maintains_case [maintains_intros]:
  "maintains P m \<Longrightarrow> (\<And>x. maintains P (g x)) \<Longrightarrow> maintains P (case opt of None \<Rightarrow> m | Some x \<Rightarrow> g x)"
  "(\<And>e. maintains P (h e)) \<Longrightarrow> (\<And>x. maintains P (g x)) \<Longrightarrow> maintains P (case r of Inl e \<Rightarrow> h e | Inr x \<Rightarrow> g x)"
  "(\<And>x y. maintains P (p x y)) \<Longrightarrow> maintains P (case q of (x, y) \<Rightarrow> p x y)"
  "maintains P m \<Longrightarrow> (\<And>x xs. maintains P (c x xs)) \<Longrightarrow> maintains P (case l of [] \<Rightarrow> m | x # xs \<Rightarrow> c x xs)"
  by (simp_all split: option.split sum.split prod.split list.split)

lemma maintains_outside:
  assumes "of_tables P" "\<And>w. P w \<Longrightarrow> P (snd (f w))"
  shows "maintains P (outside r f)"
proof (rule maintainsI)
  fix w x w' assume a: "P w" "outside r f w = (x, w')"
  have "P (tick w) \<longleftrightarrow> P w" by (rule of_tablesD [OF assms(1)]) (simp add: tables_def tick_def)
  then show "P w'"
    using assms(2) [of "tick w"] a by (auto simp: outside_def Let_def split: outcome.splits prod.splits)
qed

lemma maintains_session [maintains_intros]:
  assumes "of_tables P" "maintains P m"
  shows "maintains P (with_crm_session m)"
proof (rule maintainsI)
  fix w r w' assume a: "P w" "with_crm_session m w = (r, w')"
  then obtain v where v: "m (w \<lparr> audit_staged := [] \<rparr>) = (r, v)" "w' = v \<lparr> audit_staged := audit_staged w \<rparr>"
    by (auto simp: with_crm_session_def split: prod.splits)
  have same: "P (u \<lparr> audit_staged := x \<rparr>) \<longleftrightarrow> P u" for u x
    by (rule of_tablesD [OF assms(1)]) (simp add: tables_def)
  show "P w'" using maintainsD [OF assms(2) v(1)] a(1) by (simp add: v(2) same)
qed

lemma keeps_tables:
  "keeps tables (send_event subject ev)" "keeps tables (audit_log e c)" "keeps tables (api_audit a en i pl)" "keeps tables api_crm_commit"
  "keeps tables (delete_object k)" "keeps tables (upload k content)" "keeps tables flush_statement"
  "keeps tables (repo_get_allocation_key kid)" "keeps tables (repo_get_generation gid)"
  "keeps tables (get_list_generations db p ps q)" "keeps tables (get_allocation_keys_list db gid p ps q)"
  "keeps tables caller_community" "keeps tables (preview_crm_data env op d1 d2 cid)"
proof -
  have tick: "tables (tick w) = tables w" for w by (simp add: tables_def tick_def)
  show "keeps tables (send_event subject ev)"
    by (auto simp: keeps_def send_event_def tables_def tick_def split: outcome.splits)
  show audit: "keeps tables (audit_log e c)" for e c
    unfolding audit_log_def by (intro keeps_intros keeps_outside tick) (simp add: tables_def)
  show "keeps tables (api_audit a en i pl)" unfolding api_audit_def by (rule audit)
  show "keeps tables api_crm_commit" unfolding api_crm_commit_def crm_commit_def
    by (intro keeps_intros keeps_outside tick) (simp add: tables_def)
  show "keeps tables (delete_object k)" unfolding delete_object_def by (intro keeps_intros keeps_outside tick) (simp add: tables_def)
  show "keeps tables (upload k content)" unfolding upload_def by (intro keeps_intros keeps_outside tick) (simp add: tables_def)
  show "keeps tables flush_statement" unfolding flush_statement_def by (intro keeps_intros keeps_outside tick) simp
  show "keeps tables (repo_get_allocation_key kid)" "keeps tables (repo_get_generation gid)"
    unfolding repo_get_allocation_key_def repo_get_generation_def by (intro keeps_intros keeps_outside tick; simp)+
  show "keeps tables (get_list_generations db p ps q)" "keeps tables (get_allocation_keys_list db gid p ps q)"
    unfolding get_list_generations_def get_allocation_keys_list_def by (intro keeps_intros keeps_outside tick; simp)+
  show "keeps tables caller_community"
    unfolding caller_community_def by (intro keeps_intros)
  show "keeps tables (preview_crm_data env op d1 d2 cid)"
    unfolding preview_crm_data_def by (intro keeps_intros keeps_outside tick; simp)
qed

lemmas maintains_rest = keeps_tables [THEN maintains_keeps [rotated]]

lemma abind_at: "m w = (Inr x, w') \<Longrightarrow> abind m f w = f x w'"
  by (simp add: abind_def)

lemma abind_return_world: "m w = (r, w') \<Longrightarrow> snd (abind m (\<lambda>x. areturn (f x)) w) = w'"
  by (cases r) (simp_all add: abind_def areturn_def)

lemma saved_key_community: "save_allocation_key (to_allocation_key_crm k) w = (Inr ck, w') \<Longrightarrow> ck_community ck = k_community k"
  by (auto simp: save_allocation_key_def outside_def to_allocation_key_crm_def split: outcome.splits)

section \<open>The interface\<close>

text \<open>The writes of the service, as functions on the tables.\<close>

definition mark_row :: "int \<Rightarrow> string \<Rightarrow> world \<Rightarrow> world" where
  "mark_row gid reason w = w \<lparr> generations_t := (generations_t w)(gid :=
     map_option (\<lambda>g. g \<lparr> g_status := FAILED, g_error_message := Some (take 2000 (''failed_to_queue: '' @ reason)) \<rparr>) (generations_t w gid)) \<rparr>"

lemma marking_maintains:
  assumes "of_tables P" "\<And>w. P w \<Longrightarrow> P (mark_row gid reason w)"
  shows "maintains P (mark_failed_to_queue gid reason)"
proof -
  let ?h = "\<lambda>g. g \<lparr> g_status := FAILED, g_error_message := Some (take 2000 (''failed_to_queue: '' @ reason)) \<rparr>"
  have "P (w \<lparr> generations_t := (generations_t w)(gid := map_option ?h (generations_t w gid)) \<rparr>)" if "P w" for w
    using assms(2) [OF that] by (simp add: mark_row_def)
  then show ?thesis
    unfolding mark_failed_to_queue_def by (intro maintains_intros maintains_rest [OF assms(1)] assms(1) maintains_outside) simp_all
qed

definition remove_row :: "int \<Rightarrow> world \<Rightarrow> world" where
  "remove_row gid w = w \<lparr> generations_t := (generations_t w)(gid := None), keys_t := filter (\<lambda>k. k_generation k \<noteq> gid) (keys_t w) \<rparr>"

definition remove_key :: "int \<Rightarrow> world \<Rightarrow> world" where
  "remove_key kid w = w \<lparr> keys_t := filter (\<lambda>k. k_id k \<noteq> kid) (keys_t w) \<rparr>"

definition add_crm_key :: "crm_key_row \<Rightarrow> world \<Rightarrow> world" where
  "add_crm_key ck w = w \<lparr> crm_keys_t := crm_keys_t w @ [ck] \<rparr>"

text \<open>A new row: of the caller, complete, and waiting.\<close>

definition new_row :: "int option \<Rightarrow> generation_row \<Rightarrow> bool" where
  "new_row ctx g \<longleftrightarrow> Some (g_community g) = ctx \<and> complete_row g \<and> g_status g = PENDING"

text \<open>
  \<open>P\<close> is the invariant, \<open>Q gid\<close> what is known besides once the request has inserted the generation
  \<open>gid\<close>. Between a lookup and the write that follows from it the request only waits.
\<close>

locale request_invariant =
  fixes P :: "world \<Rightarrow> bool" and Q :: "int \<Rightarrow> world \<Rightarrow> bool" and ctx :: "int option"
  assumes tables_only: "of_tables P" "of_tables (Q gid)"
    and of_caller: "P w \<Longrightarrow> context_community w = ctx"
    and queued_holds: "Q gid w \<Longrightarrow> P w"
    and drawn: "P w \<Longrightarrow> new_row ctx g \<Longrightarrow> create_generation g w = (r, v) \<Longrightarrow> P v"
    and inserted: "P w \<Longrightarrow> new_row ctx g \<Longrightarrow> create_generation g w = (Inr m, v) \<Longrightarrow> commit_generation m v = (r', v') \<Longrightarrow> P v'"
    and queued: "P w \<Longrightarrow> new_row ctx g \<Longrightarrow> create_generation g w = (Inr m, v) \<Longrightarrow> commit_generation m v = (Inr (), v') \<Longrightarrow> Q (g_id m) v'"
    and marked: "Q gid w \<Longrightarrow> Q gid (mark_row gid reason w)"
    and removed: "P w \<Longrightarrow> repo_get_generation gid w = (Inr (Some g), v) \<Longrightarrow> tables u = tables v \<Longrightarrow> P (remove_row (g_id g) u)"
    and key_removed: "P w \<Longrightarrow> repo_get_allocation_key kid w = (Inr (Some k), v) \<Longrightarrow> tables u = tables v \<Longrightarrow> P (remove_key (k_id k) u)"
    and key_copied: "P w \<Longrightarrow> repo_get_allocation_key kid w = (Inr (Some k), v) \<Longrightarrow>
      save_allocation_key (to_allocation_key_crm k) v = (Inr ck, u) \<Longrightarrow> tables u' = tables u \<Longrightarrow> P (add_crm_key ck u')"
begin

lemmas rest_maintains = maintains_rest [OF tables_only(1)] maintains_rest [OF tables_only(2)]

lemma insert_row_maintains:
  assumes "new_row ctx g" "P w" "insert_row g w = (r, w')"
  shows "P w'"
proof (cases "create_generation g w")
  case (Pair q v)
  show ?thesis
  proof (cases q)
    case (Inl e)
    with Pair assms show ?thesis by (auto simp: abind_def intro: drawn)
  next
    case (Inr m)
    with Pair have c: "create_generation g w = (Inr m, v)" by simp
    obtain q' v' where commit: "commit_generation m v = (q', v')" by (cases "commit_generation m v")
    from inserted [OF assms(2,1) c commit] have "P v'" .
    moreover have "w' = v'"
      using assms(3) abind_return_world [of "commit_generation m" v q' v' "\<lambda>_. m"] commit
      unfolding abind_at [of "create_generation g", OF c] by simp
    ultimately show ?thesis by simp
  qed
qed

lemma insert_row_queues:
  assumes "new_row ctx g" "P w" "insert_row g w = (Inr m, w')"
  shows "Q (g_id m) w'"
proof -
  obtain v where "create_generation g w = (Inr m, v)" "commit_generation m v = (Inr (), w')"
    using assms(3) by (auto simp: abind_def areturn_def split: prod.splits sum.splits)
  then show ?thesis by (rule queued [OF assms(2,1)])
qed

lemma mark_failed_maintains: "maintains (Q gid) (mark_failed_to_queue gid reason)"
  by (rule marking_maintains [OF tables_only(2) marked])

lemma publish_maintains: "keeps tables rollback \<Longrightarrow> maintains (Q gid) (publish_or_fail meta gid rollback)"
  unfolding publish_or_fail_def
  by (intro maintains_intros rest_maintains mark_failed_maintains maintains_keeps [OF tables_only(2)])

lemma maintains_then_queued:
  assumes "maintains P m" "\<And>w x w'. P w \<Longrightarrow> m w = (Inr x, w') \<Longrightarrow> Q (g_id x) w'" "\<And>x. maintains (Q (g_id x)) (f x)"
  shows "maintains P (abind m f)"
  by (rule maintains_bind_with [where R = "\<lambda>x. Q (g_id x)"]) (use assms queued_holds in blast)+

lemma store_and_queue_maintains:
  assumes "ctx = Some cid"
  shows "maintains P (store_and_queue uuid req cid meta ins content file_name)"
  unfolding store_and_queue_def Let_def
proof (rule maintains_bind)
  fix u :: unit
  let ?k = "''allocations/'' @ show_int cid @ ''/'' @ uuid @ ''/'' @ file_name"
  let ?g = "\<lparr> g_id = 0, g_name = gr_name req, g_community = cid, g_source = FILE,
                g_file_storage_key = Some ?k, g_file_name = Some file_name,
                g_injection_name = Some (gr_injection_name req), g_sharing_operation = None, g_period_start = None,
                g_period_end = None, g_algorithm_name = md_name meta, g_algorithm_version = md_version meta,
                g_inputs = Some (model_dump ins), g_status = PENDING, g_error_message = None, g_data_warnings = None \<rparr>"
  let ?insert = "acatch (insert_row ?g) (\<lambda>x. abind (best_effort_delete ?k) (\<lambda>_. araise x))"
  have g: "new_row ctx ?g" using assms by (simp add: new_row_def complete_row_def)
  have maintained: "maintains P ?insert"
    unfolding best_effort_delete_def
    by (rule maintains_catch [OF maintainsI]) (use insert_row_maintains [OF g] in \<open>blast\<close>, intro maintains_intros rest_maintains)
  have queues: "Q (g_id m) w'" if "P w" "?insert w = (Inr m, w')" for w m w'
  proof -
    have "insert_row ?g w = (Inr m, w')"
    proof (cases "insert_row ?g w")
      case (Pair r v)
      with that(2) show ?thesis by (cases r) (auto simp: acatch_def abind_def araise_def split: prod.splits sum.splits)
    qed
    then show ?thesis by (rule insert_row_queues [OF g that(1)])
  qed
  have rest: "maintains (Q (g_id m))
      (abind (api_audit a e (g_id m) pl) (\<lambda>_. publish_or_fail meta (g_id m) (best_effort_delete ?k)))" for m a e pl
    unfolding best_effort_delete_def by (intro maintains_intros rest_maintains publish_maintains keeps_tables)
  show "maintains P (abind ?insert (\<lambda>model. abind (api_audit GENERATION_CREATED ''generation'' (g_id model)
           [(''name'', JStr (gr_name req)), (''algorithm_name'', JStr (md_name meta)),
            (''algorithm_version'', JStr (md_version meta)), (''file_name'', JStr file_name),
            (''injection_name'', JStr (gr_injection_name req))]) (\<lambda>_.
         publish_or_fail meta (g_id model) (best_effort_delete ?k))))"
    using maintained queues rest by (rule maintains_then_queued)
qed (intro maintains_intros rest_maintains)

lemma start_from_crm_maintains:
  assumes "ctx = Some cid"
  shows "maintains P (start_generation_from_crm env req cid)"
proof -
  have insert: "maintains P (abind (create_generation g) (\<lambda>model. abind (commit_generation model) (\<lambda>_.
      abind (api_audit a e (g_id model) pl) (\<lambda>_. publish_or_fail meta (g_id model) (areturn ())))))"
    if g: "new_row ctx g" for g a e pl meta
  proof -
    let ?rest = "\<lambda>model. abind (api_audit a e (g_id model) pl) (\<lambda>_. publish_or_fail meta (g_id model) (areturn ()))"
    have rest: "maintains (Q (g_id m)) (?rest m)" for m
      by (intro maintains_intros rest_maintains publish_maintains keeps_pure)
    have "maintains P (insert_row g)"
      by (rule maintainsI) (rule insert_row_maintains [OF g])
    then have "maintains P (abind (insert_row g) ?rest)"
      using insert_row_queues [OF g] rest by (rule maintains_then_queued)
    then show ?thesis by (simp add: abind_assoc)
  qed
  show ?thesis
    unfolding start_generation_from_crm_def
    by (intro maintains_intros rest_maintains insert) (simp_all add: new_row_def assms complete_row_def)
qed

text \<open>What a lookup found, and what is done with it.\<close>

lemma maintains_lookup:
  assumes "keeps tables look" "\<And>w x v r w'. P w \<Longrightarrow> look w = (Inr (Some x), v) \<Longrightarrow> P v \<Longrightarrow> act x v = (r, w') \<Longrightarrow> P w'"
  shows "maintains P (abind look (\<lambda>found. case found of None \<Rightarrow> araise e | Some x \<Rightarrow> act x))"
proof (rule maintainsI)
  fix w r w' assume w: "P w"
    and run: "abind look (\<lambda>found. case found of None \<Rightarrow> araise e | Some x \<Rightarrow> act x) w = (r, w')"
  obtain q v where look: "look w = (q, v)" by (cases "look w")
  have v: "P v" using maintainsD [OF maintains_keeps [OF tables_only(1) assms(1)] look w] .
  consider (gone) "w' = v" | (found) x where "look w = (Inr (Some x), v)" "act x v = (r, w')"
    using run look by (cases q) (auto simp: abind_def araise_def split: option.splits)
  then show "P w'"
  proof cases
    case gone
    with v show ?thesis by simp
  next
    case (found x)
    show ?thesis using assms(2) [OF w found(1) v found(2)] .
  qed
qed

text \<open>A flush, the deletion, and the audit entry.\<close>

lemma maintains_deletion:
  assumes "P w" "P (del (tick (tick w)))"
    "abind flush_statement (\<lambda>_. abind (outside raise_db (\<lambda>w. ((), del w))) (\<lambda>_. api_audit a e i pl)) w = (r, w')"
  shows "P w'"
proof -
  have tick: "P (tick v) \<longleftrightarrow> P v" for v
    by (rule of_tablesD [OF tables_only(1)]) (simp add: tables_def tick_def)
  have audit: "P v'" if "api_audit a e i pl v = (q, v')" "P v" for v q v'
    using maintainsD [OF rest_maintains(3) that] .
  obtain q v where flush: "flush_statement w = (q, v)" "v = tick w"
    by (cases "outcomes w (clock w)") (auto simp: flush_statement_def outside_def)
  obtain q' v' where run: "outside raise_db (\<lambda>w. ((), del w)) v = (q', v')" by (cases "outside raise_db (\<lambda>w. ((), del w)) v")
  have v: "P v" "P v'"
    using assms(1,2) flush(2) run tick by (auto simp: outside_def split: outcome.splits)
  consider "w' = v" | "w' = v'" | "api_audit a e i pl v' = (r, w')"
    using assms(3) flush(1) run by (cases q; cases q') (auto simp: abind_def)
  then show ?thesis using v audit by cases auto
qed

lemma delete_generation_service_maintains: "maintains P (service_delete_generation gid)"
  unfolding service_delete_generation_def
proof (rule maintains_lookup [OF keeps_tables(9)])
  fix w g v r w'
  assume found: "P w" "repo_get_generation gid w = (Inr (Some g), v)" "P v"
    and run: "abind flush_statement (\<lambda>_. abind (commit_delete_generation (g_id g)) (\<lambda>_. api_audit GENERATION_DELETED ''generation'' gid
        [(''algorithm_name'', JStr (g_algorithm_name g)), (''status'', JStr (status_name (g_status g)))])) v = (r, w')"
  have "P (remove_row (g_id g) (tick (tick v)))" by (rule removed [OF found(1,2)]) (simp add: tables_def tick_def)
  then show "P w'"
    unfolding remove_row_def by (rule maintains_deletion [OF found(3) _ run [unfolded commit_delete_generation_def]])
qed

lemma delete_key_service_maintains: "maintains P (service_delete_key kid)"
  unfolding service_delete_key_def
proof (rule maintains_lookup [OF keeps_tables(8)])
  fix w k v r w'
  assume found: "P w" "repo_get_allocation_key kid w = (Inr (Some k), v)" "P v"
    and run: "abind flush_statement (\<lambda>_. abind (commit_delete_key (k_id k)) (\<lambda>_. api_audit ALLOCATION_KEY_GENERATED_DELETED
        ''allocation_key_generated'' kid [(''name'', JStr (k_name k)), (''id_generation'', JInt (k_generation k))])) v = (r, w')"
  have "P (remove_key (k_id k) (tick (tick v)))" by (rule key_removed [OF found(1,2)]) (simp add: tables_def tick_def)
  then show "P w'"
    unfolding remove_key_def by (rule maintains_deletion [OF found(3) _ run [unfolded commit_delete_key_def]])
qed

lemma save_key_maintains: "maintains P (service_save_key kid)"
  unfolding service_save_key_def
proof (rule maintains_lookup [OF keeps_tables(8)])
  fix w k v r w'
  assume found: "P w" "repo_get_allocation_key kid w = (Inr (Some k), v)" "P v"
    and run: "abind (save_allocation_key (to_allocation_key_crm k)) (\<lambda>ck. abind (commit_crm_key ck) (\<lambda>_.
        api_audit ALLOCATION_KEY_SAVED ''allocation_key'' (ck_id ck) [(''local_key_id'', JInt kid), (''name'', JStr (ck_name ck))])) v = (r, w')"
  have same: "P u \<longleftrightarrow> P u'" if "tables u = tables u'" for u u' by (rule of_tablesD [OF tables_only(1) that])
  obtain q u where save: "save_allocation_key (to_allocation_key_crm k) v = (q, u)" by (cases "save_allocation_key (to_allocation_key_crm k) v")
  then have u: "P u"
    using found(3) same [of u v] by (auto simp: save_allocation_key_def outside_def tables_def tick_def split: outcome.splits)
  show "P w'"
  proof (cases q)
    case (Inl e)
    with run save u show ?thesis by (simp add: abind_def)
  next
    case (Inr ck)
    obtain q' u' where commit: "commit_crm_key ck u = (q', u')" by (cases "commit_crm_key ck u")
    have "P (add_crm_key ck (tick u))"
      using found(1,2) save Inr by (intro key_copied [of w kid k v ck u]) (simp_all add: tables_def tick_def)
    then have u': "P u'"
      using commit u same [of u' "add_crm_key ck (tick u)"] same [of "tick u" u]
      by (auto simp: commit_crm_key_def outside_def add_crm_key_def tables_def tick_def split: outcome.splits)
    consider "w' = u'" | "api_audit ALLOCATION_KEY_SAVED ''allocation_key'' (ck_id ck)
        [(''local_key_id'', JInt kid), (''name'', JStr (ck_name ck))] u' = (r, w')"
      using run save commit Inr by (cases q') (auto simp: abind_def)
    then show ?thesis using u' maintainsD [OF rest_maintains(3)] by cases auto
  qed
qed

lemma route_maintains: "maintains P (route env call)"
proof -
  have community: "maintains P (abind caller_community f)"
    if "\<And>cid. ctx = Some cid \<Longrightarrow> maintains P (f cid)" for f :: "int \<Rightarrow> (world, exc, response) act"
  proof (rule maintains_bind_with [where R = "\<lambda>cid w. P w \<and> ctx = Some cid"])
    show "maintains P caller_community" by (intro rest_maintains)
    show "P w' \<and> ctx = Some cid" if "P w" "caller_community w = (Inr cid, w')" for w cid w'
      using that of_caller [of w] by (auto simp: caller_community_def abind_def aget_def araise_def areturn_def split: option.splits)
    show "maintains (\<lambda>w. P w \<and> ctx = Some cid) (f cid)" for cid
      using that [of cid] by (cases "ctx = Some cid") (simp_all add: maintains_def)
  qed auto
  note start = maintains_intros rest_maintains store_and_queue_maintains
  show ?thesis
  proof (cases call)
    case (GetCrmDataPreview op ps pe)
    show ?thesis unfolding GetCrmDataPreview route.simps route_defs
      by (intro maintains_intros community rest_maintains)
  next
    case (StartGeneration upl name injection_name algorithm_name parsed_inputs)
    have "maintains P (start_generation e u rq upl cid)" if "ctx = Some cid" for e u rq cid
      unfolding start_generation_def Let_def using that by (intro start)
    then have "maintains P (abind (start_generation e u rq upl cid) (\<lambda>resp. areturn (f resp)))" if "ctx = Some cid" for e u rq f cid
      using that by (intro maintains_bind maintains_pure)
    then have "maintains P (abind caller_community (\<lambda>cid. abind (start_generation e u rq upl cid) (\<lambda>resp. areturn (f resp))))" for e u rq and f :: "generate_response \<Rightarrow> response"
      by (rule community)
    then show ?thesis unfolding StartGeneration route.simps route_defs
      by (intro maintains_intros) (auto split: option.split json.split intro: maintains_intros)
  next
    case (StartGenerationFromCrm body)
    show ?thesis unfolding StartGenerationFromCrm route.simps route_defs
      by (intro maintains_default community maintains_bind maintains_pure start_from_crm_maintains)
  next
    case GetAlgorithms
    show ?thesis unfolding GetAlgorithms route.simps route_defs by (intro maintains_intros)
  next
    case (GetAlgorithmInputs name)
    show ?thesis unfolding GetAlgorithmInputs route.simps route_defs by (intro maintains_intros)
  qed (simp only: route.simps route_defs service_get_generations_def service_get_allocation_keys_def service_get_allocation_key_def,
      intro maintains_intros rest_maintains save_key_maintains delete_generation_service_maintains delete_key_service_maintains)+
qed

lemma run_route_maintains: "maintains P (run_route env call)"
  unfolding run_route_def by (intro maintains_intros tables_only route_maintains)

end

section \<open>Tenants\<close>

lemma of_tables_tenant: "of_tables (tenant ctx F)" "of_tables (\<lambda>w. tenant ctx F w \<and> owned ctx gid w)"
  by (auto simp: of_tables_def tables_def tenant_def db_ok_def generations_ok_def keys_ok_def caller_def foreign_def owned_def own_rows_def)

text \<open>The writes, each under what the code knows when it makes them.\<close>

lemma create_maintains: "maintains (tenant ctx F) (create_generation g)"
  unfolding create_generation_def
  by (rule maintains_outside [OF of_tables_tenant(1)])
     (force simp: tenant_def db_ok_def generations_ok_def keys_ok_def caller_def foreign_def evolves_def)

lemma create_fresh:
  assumes "tenant ctx F w" "create_generation g w = (Inr m, w')"
  shows "tenant ctx F w'" "generations_t w' (g_id m) = None" "0 < g_id m" "g_id m < next_generation_id w'"
    "g_community m = g_community g" "complete_row m = complete_row g" "g_status m = g_status g"
    "snd (snd (snd F)) \<le> g_id m"
proof -
  show "tenant ctx F w'" using maintainsD [OF create_maintains assms(2,1)] .
  have m: "m = g \<lparr> g_id := next_generation_id w \<rparr>" "generations_t w' = generations_t w" "next_generation_id w' = next_generation_id w + 1"
    using assms(2) by (auto simp: create_generation_def outside_def tick_def split: outcome.splits)
  have ok: "generations_ok w" using assms(1) by (simp add: tenant_def db_ok_def)
  then have "generations_t w (next_generation_id w) \<noteq> Some h" for h unfolding generations_ok_def by (metis less_irrefl)
  then show "generations_t w' (g_id m) = None" by (simp add: m) (metis option.exhaust)
  show "0 < g_id m" "g_id m < next_generation_id w'" using ok by (simp_all add: m generations_ok_def)
  show "g_community m = g_community g" "complete_row m = complete_row g" "g_status m = g_status g" by (simp_all add: m)
  show "snd (snd (snd F)) \<le> g_id m" using assms(1) by (simp add: m tenant_def evolves_def)
qed

lemma foreign_own_row:
  "Some (g_community g) = ctx \<Longrightarrow> own_rows ctx (generations_t w) i = generations_t w i \<Longrightarrow>
    foreign ctx (w \<lparr> generations_t := (generations_t w)(i \<mapsto> g) \<rparr>) = foreign ctx w"
  by (auto simp: foreign_def own_rows_def fun_eq_iff split: option.splits if_splits)

text \<open>A row of the caller is written, over none or over one of the caller's.\<close>

lemma write_own_row:
  assumes "tenant ctx F w" "Some (g_community g) = ctx" "own_rows ctx (generations_t w) i = generations_t w i"
    "g_id g = i" "0 < i" "i < next_generation_id w" "complete_row g"
    "life_step (stage_of (generations_t w)) (stage_of ((generations_t w)(i \<mapsto> g)))"
    "i < snd (snd (snd F)) \<Longrightarrow> \<exists>h. generations_t w i = Some h \<and> request_of h = request_of g"
  shows "tenant ctx F (w \<lparr> generations_t := (generations_t w)(i \<mapsto> g) \<rparr>)"
proof -
  have "generations_ok (w \<lparr> generations_t := (generations_t w)(i \<mapsto> g) \<rparr>)"
    using assms by (simp add: tenant_def db_ok_def generations_ok_def)
  moreover have "keys_ok (w \<lparr> generations_t := (generations_t w)(i \<mapsto> g) \<rparr>)"
    unfolding keys_ok_def
  proof (intro conjI ballI)
    have keys: "keys_ok w" using assms(1) by (simp add: tenant_def db_ok_def)
    then show "distinct (map k_id (keys_t (w \<lparr> generations_t := (generations_t w)(i \<mapsto> g) \<rparr>)))" by (simp add: keys_ok_def)
    fix k assume "k \<in> set (keys_t (w \<lparr> generations_t := (generations_t w)(i \<mapsto> g) \<rparr>))"
    then obtain h where k: "k_id k < next_key_id w" "generations_t w (k_generation k) = Some h" "g_community h = k_community k"
      using keys by (auto simp: keys_ok_def)
    show "k_id k < next_key_id (w \<lparr> generations_t := (generations_t w)(i \<mapsto> g) \<rparr>)" using k(1) by simp
    have "k_generation k = i \<Longrightarrow> Some (g_community h) = ctx"
      using k(2) assms(3) by (auto simp: own_rows_def split: if_splits)
    then show "\<exists>g'. generations_t (w \<lparr> generations_t := (generations_t w)(i \<mapsto> g) \<rparr>) (k_generation k) = Some g' \<and> g_community g' = k_community k"
      using k(2,3) assms(2) by auto
  qed
  moreover have "life_step\<^sup>*\<^sup>* (fst (snd F)) (stage_of ((generations_t w)(i \<mapsto> g)))"
    using assms(1,8) by (auto simp: tenant_def intro: rtranclp.rtrancl_into_rtrancl)
  moreover have "evolves (snd (snd F)) ((generations_t w)(i \<mapsto> g), next_generation_id w)"
    using assms(1,9) by (intro evolves_write) (simp_all add: tenant_def)
  ultimately show ?thesis using assms(1) foreign_own_row [OF assms(2,3)] by (simp add: tenant_def db_ok_def caller_def)
qed

lemma commit_maintains:
  assumes "tenant ctx F v" "generations_t v (g_id m) = None" "0 < g_id m" "g_id m < next_generation_id v"
    "Some (g_community m) = ctx" "complete_row m" "g_status m = PENDING" "snd (snd (snd F)) \<le> g_id m" "commit_generation m v = (r, v')"
  shows "tenant ctx F v'"
proof -
  have same: "tables (tick v) = tables v" by (simp add: tables_def tick_def)
  then have v: "tenant ctx F (tick v)" using of_tablesD [OF of_tables_tenant(1)] assms(1) by blast
  have "own_rows ctx (generations_t (tick v)) (g_id m) = generations_t (tick v) (g_id m)"
    "g_id m < next_generation_id (tick v)"
    using assms(2,4) by (simp_all add: own_rows_def tick_def)
  moreover have "life_step (stage_of (generations_t (tick v))) (stage_of ((generations_t (tick v))(g_id m \<mapsto> m)))"
    using assms(2,7) by (intro submit_row) (simp_all add: tick_def)
  ultimately have "tenant ctx F ((tick v) \<lparr> generations_t := (generations_t (tick v))(g_id m \<mapsto> m) \<rparr>)"
    using assms(3,5,6,8) by (intro write_own_row [OF v]) auto
  with v assms(9) show ?thesis by (auto simp: commit_generation_def outside_def split: outcome.splits)
qed

lemma repo_generation_own:
  "caller ctx w \<Longrightarrow> repo_get_generation gid w = (Inr (Some g), w') \<Longrightarrow> generations_t w' gid = Some g \<and> Some (g_community g) = ctx"
  by (auto simp: repo_get_generation_def abind_def aget_def outside_def tick_def caller_def with_community_scope_def one_or_none_def
      split: outcome.splits option.splits if_splits list.splits)

lemma repo_key_own:
  assumes "caller ctx w" "repo_get_allocation_key kid w = (Inr (Some k), w')"
  shows "k \<in> set (keys_t w') \<and> k_id k = kid \<and> Some (k_community k) = ctx"
proof -
  have "one_or_none (with_community_scope ctx k_community (filter (\<lambda>k. k_id k = kid) (keys_t w'))) = Some k"
    using assms by (auto simp: repo_get_allocation_key_def abind_def aget_def outside_def tick_def caller_def split: outcome.splits)
  then have "k \<in> set (with_community_scope ctx k_community (filter (\<lambda>k. k_id k = kid) (keys_t w')))"
    by (auto simp: one_or_none_def split: list.splits)
  then show ?thesis by (auto simp: with_community_scope_def split: option.splits)
qed

lemma delete_generation_maintains:
  assumes "tenant ctx F w" "generations_t w gid = Some g" "Some (g_community g) = ctx"
  shows "tenant ctx F (w \<lparr> generations_t := (generations_t w)(gid := None), keys_t := filter (\<lambda>k. k_generation k \<noteq> gid) (keys_t w) \<rparr>)"
proof -
  have keys: "keys_ok w" using assms(1) by (simp add: tenant_def db_ok_def)
  have "k_generation k \<noteq> gid" if "k \<in> set (keys_t w)" "Some (k_community k) \<noteq> ctx" for k
    using keys that assms(2,3) by (auto simp: keys_ok_def)
  then have "filter (\<lambda>k. Some (k_community k) \<noteq> ctx) (filter (\<lambda>k. k_generation k \<noteq> gid) (keys_t w)) =
      filter (\<lambda>k. Some (k_community k) \<noteq> ctx) (keys_t w)"
    by (auto intro!: filter_cong)
  then have "foreign ctx (w \<lparr> generations_t := (generations_t w)(gid := None), keys_t := filter (\<lambda>k. k_generation k \<noteq> gid) (keys_t w) \<rparr>) = foreign ctx w"
    using assms(2,3) by (auto simp: foreign_def fun_eq_iff)
  moreover have "generations_ok (w \<lparr> generations_t := (generations_t w)(gid := None), keys_t := filter (\<lambda>k. k_generation k \<noteq> gid) (keys_t w) \<rparr>)"
    using assms(1) by (simp add: tenant_def db_ok_def generations_ok_def)
  moreover have "keys_ok (w \<lparr> generations_t := (generations_t w)(gid := None), keys_t := filter (\<lambda>k. k_generation k \<noteq> gid) (keys_t w) \<rparr>)"
    using keys by (auto simp: keys_ok_def distinct_map_filter)
  moreover have "life_step\<^sup>*\<^sup>* (fst (snd F)) (stage_of ((generations_t w)(gid := None)))"
    using assms(1) remove_row [where t = "generations_t w", OF assms(2)] by (auto simp: tenant_def intro: rtranclp.rtrancl_into_rtrancl)
  moreover have "evolves (snd (snd F)) ((generations_t w)(gid := None), next_generation_id w)"
    using assms(1) by (intro evolves_drop) (simp add: tenant_def)
  ultimately show ?thesis using assms(1) by (simp add: tenant_def db_ok_def caller_def)
qed

lemma delete_key_maintains:
  assumes "tenant ctx F w" "k \<in> set (keys_t w)" "Some (k_community k) = ctx"
  shows "tenant ctx F (w \<lparr> keys_t := filter (\<lambda>k'. k_id k' \<noteq> k_id k) (keys_t w) \<rparr>)"
proof -
  have keys: "keys_ok w" using assms(1) by (simp add: tenant_def db_ok_def)
  then have "k' = k" if "k' \<in> set (keys_t w)" "k_id k' = k_id k" for k'
    using that assms(2) by (auto simp: keys_ok_def distinct_map dest: inj_onD)
  then have "filter (\<lambda>k'. Some (k_community k') \<noteq> ctx) (filter (\<lambda>k'. k_id k' \<noteq> k_id k) (keys_t w)) =
      filter (\<lambda>k'. Some (k_community k') \<noteq> ctx) (keys_t w)"
    using assms(3) by (auto intro!: filter_cong)
  moreover have "keys_ok (w \<lparr> keys_t := filter (\<lambda>k'. k_id k' \<noteq> k_id k) (keys_t w) \<rparr>)"
    using keys by (auto simp: keys_ok_def distinct_map_filter)
  ultimately show ?thesis
    using assms(1) by (simp add: tenant_def db_ok_def generations_ok_def caller_def foreign_def)
qed

text \<open>Lookups find rows of the caller.\<close>

lemma found_generation:
  assumes "tenant ctx F w" "repo_get_generation gid w = (Inr (Some g), v)" "tables u = tables v"
  shows "tenant ctx F u \<and> generations_t u (g_id g) = Some g \<and> Some (g_community g) = ctx"
proof -
  have "tenant ctx F v" using maintainsD [OF maintains_rest(9) [OF of_tables_tenant(1)] assms(2,1)] .
  then have u: "tenant ctx F u" using of_tablesD [OF of_tables_tenant(1) assms(3)] by simp
  have "generations_t v gid = Some g \<and> Some (g_community g) = ctx"
    using assms(1,2) repo_generation_own [of ctx w gid g v] by (simp add: tenant_def)
  then have g: "generations_t u gid = Some g" "Some (g_community g) = ctx" using assms(3) by (simp_all add: tables_def)
  then have "g_id g = gid" using u by (simp add: tenant_def db_ok_def generations_ok_def)
  with u g show ?thesis by simp
qed

lemma found_key:
  assumes "tenant ctx F w" "repo_get_allocation_key kid w = (Inr (Some k), v)" "tables u = tables v"
  shows "tenant ctx F u \<and> k \<in> set (keys_t u) \<and> Some (k_community k) = ctx"
proof -
  have "tenant ctx F v" using maintainsD [OF maintains_rest(8) [OF of_tables_tenant(1)] assms(2,1)] .
  then have "tenant ctx F u" using of_tablesD [OF of_tables_tenant(1) assms(3)] by simp
  moreover have "k \<in> set (keys_t v) \<and> Some (k_community k) = ctx"
    using assms(1,2) repo_key_own [of ctx w kid k v] by (simp add: tenant_def)
  ultimately show ?thesis using assms(3) by (simp add: tables_def)
qed

lemma mark_maintains:
  assumes "tenant ctx F w \<and> owned ctx gid w"
  shows "tenant ctx F (mark_row gid reason w) \<and> owned ctx gid (mark_row gid reason w)"
proof -
  let ?h = "\<lambda>g. g \<lparr> g_status := FAILED, g_error_message := Some (take 2000 (''failed_to_queue: '' @ reason)) \<rparr>"
  obtain g where g: "own_rows ctx (generations_t w) gid = Some g" using assms by (auto simp: owned_def)
  then have row: "generations_t w gid = Some g" "Some (g_community g) = ctx"
    by (auto simp: own_rows_def split: option.splits if_splits)
  then have "g_id g = gid" "0 < gid" "gid < next_generation_id w" "complete_row g"
    using assms by (auto simp: tenant_def db_ok_def generations_ok_def)
  then have "tenant ctx F (w \<lparr> generations_t := (generations_t w)(gid \<mapsto> ?h g) \<rparr>)"
    using assms g row by (intro write_own_row unqueue_row) simp_all
  moreover have "owned ctx gid (w \<lparr> generations_t := (generations_t w)(gid \<mapsto> ?h g) \<rparr>)"
    using assms row by (simp add: owned_def caller_def own_rows_def)
  ultimately show ?thesis using row by (simp add: mark_row_def)
qed

lemma insertion_maintains:
  assumes "tenant ctx F w" "new_row ctx g" "create_generation g w = (Inr m, v)" "commit_generation m v = (r, v')"
  shows "tenant ctx F v'"
proof -
  note fresh = create_fresh [OF assms(1,3)]
  have "Some (g_community m) = ctx" "complete_row m" "g_status m = PENDING" using fresh(5-7) assms(2) by (simp_all add: new_row_def)
  from commit_maintains [OF fresh(1-4) this fresh(8) assms(4)] show ?thesis .
qed

lemma insertion_owns:
  assumes "tenant ctx F w" "new_row ctx g" "create_generation g w = (Inr m, v)" "commit_generation m v = (Inr (), v')"
  shows "owned ctx (g_id m) v'"
proof (rule insert_row_owned)
  show "caller ctx w" using assms(1) by (simp add: tenant_def)
  show "insert_row g w = (Inr m, v')" using assms(3,4) by (simp add: abind_def areturn_def)
  show "ctx = Some (g_community g)" using assms(2) by (simp add: new_row_def)
qed

lemma copy_maintains:
  assumes "tenant ctx F w" "repo_get_allocation_key kid w = (Inr (Some k), v)"
    "save_allocation_key (to_allocation_key_crm k) v = (Inr ck, u)" "tables u' = tables u"
  shows "tenant ctx F (add_crm_key ck u')"
proof -
  have "tables u = tables v" using assms(3) by (auto simp: save_allocation_key_def outside_def tables_def tick_def split: outcome.splits)
  then have "tenant ctx F u'" "Some (ck_community ck) = ctx"
    using found_key [OF assms(1,2), of u'] assms(4) saved_key_community [OF assms(3)] by simp_all
  then show ?thesis by (simp add: add_crm_key_def tenant_def db_ok_def generations_ok_def keys_ok_def caller_def foreign_def)
qed

interpretation tenants: request_invariant "tenant ctx F" "\<lambda>gid w. tenant ctx F w \<and> owned ctx gid w" ctx for ctx F
proof unfold_locales
  show "tenant ctx F (remove_row (g_id g) u)"
    if "tenant ctx F w" "repo_get_generation gid w = (Inr (Some g), v)" "tables u = tables v" for w gid g v u
    unfolding remove_row_def using found_generation [OF that] by (intro delete_generation_maintains) auto
  show "tenant ctx F (remove_key (k_id k) u)"
    if "tenant ctx F w" "repo_get_allocation_key kid w = (Inr (Some k), v)" "tables u = tables v" for w kid k v u
    unfolding remove_key_def using found_key [OF that] by (intro delete_key_maintains) auto
  show "tenant ctx F v" if "tenant ctx F w" "new_row ctx g" "create_generation g w = (r, v)" for w g r v
    using maintainsD [OF create_maintains that(3,1)] .
  show "tenant ctx F v'" if "tenant ctx F w" "new_row ctx g" "create_generation g w = (Inr m, v)" "commit_generation m v = (r', v')"
    for w g m v r' v'
    using that by (rule insertion_maintains)
  show "tenant ctx F v' \<and> owned ctx (g_id m) v'"
    if "tenant ctx F w" "new_row ctx g" "create_generation g w = (Inr m, v)" "commit_generation m v = (Inr (), v')" for w g m v v'
    using insertion_maintains [OF that] insertion_owns [OF that] ..
  show "tenant ctx F (mark_row gid reason w) \<and> owned ctx gid (mark_row gid reason w)" if "tenant ctx F w \<and> owned ctx gid w" for gid reason w
    using that by (rule mark_maintains)
  show "tenant ctx F (add_crm_key ck u')"
    if "tenant ctx F w" "repo_get_allocation_key kid w = (Inr (Some k), v)" "save_allocation_key (to_allocation_key_crm k) v = (Inr ck, u)"
      "tables u' = tables u" for w kid k v ck u u'
    using that by (rule copy_maintains)
  show "context_community w = ctx" if "tenant ctx F w" for w using that by (simp add: tenant_def caller_def)
  show "of_tables (tenant ctx F)" "of_tables (\<lambda>w. tenant ctx F w \<and> owned ctx gid w)" for gid by (rule of_tables_tenant)+
qed simp

lemma tenant_run_route: "maintains (tenant ctx F) (run_route env call)"
  by (rule tenants.run_route_maintains)

end
