(* ===== verification/Consistency.thy ===== *)
theory Consistency
  imports Requests
begin

text \<open>
  The tables stay consistent: \<open>db_ok\<close> is an invariant of the requests and of the worker's messages, in
  any order. Under it a request leaves the rows of all other communities alone. The locale
  \<open>pipeline_invariant\<close> is the interface between the worker's pipeline and an invariant.
\<close>

section \<open>Messages\<close>

lemma of_tables_db_ok: "of_tables db_ok"
  by (auto simp: of_tables_def tables_def db_ok_def generations_ok_def keys_ok_def)

lemma new_keys:
  "map k_id (key_rows_of gid cid n i c ks) = map (\<lambda>i. n + int i) [0..<length ks]"
  "k \<in> set (key_rows_of gid cid n i c ks) \<Longrightarrow> n \<le> k_id k \<and> k_id k < n + int (length ks) \<and> k_generation k = gid \<and> k_community k = cid"
proof -
  show "map k_id (key_rows_of gid cid n i c ks) = map (\<lambda>i. n + int i) [0..<length ks]"
  proof (induction ks arbitrary: n i c)
    case (Cons k ks)
    then show ?case by (simp add: key_row_of_def upt_conv_Cons map_Suc_upt [symmetric] del: upt_Suc)
  qed simp
  show "k \<in> set (key_rows_of gid cid n i c ks) \<Longrightarrow> n \<le> k_id k \<and> k_id k < n + int (length ks) \<and> k_generation k = gid \<and> k_community k = cid"
  proof (induction ks arbitrary: n i c)
    case (Cons k' ks)
    from Cons.prems show ?case by (auto simp: key_row_of_def dest!: Cons.IH)
  qed simp
qed

lemma decide_row_ok:
  assumes "db_ok w" "generations_t w gid = Some g" "g_community h = g_community g" "g_id h = g_id g" "complete_row h = complete_row g"
  shows "db_ok (w \<lparr> generations_t := (generations_t w)(gid \<mapsto> h) \<rparr>)"
proof -
  have "\<exists>g'. (if k_generation k = gid then Some h else generations_t w (k_generation k)) = Some g' \<and> g_community g' = k_community k"
    if "k \<in> set (keys_t w)" for k
    using that assms(1-3) by (auto simp: db_ok_def keys_ok_def)
  then show ?thesis
    using assms by (auto simp: db_ok_def generations_ok_def keys_ok_def)
qed

lemma add_keys_ok:
  assumes "db_ok w" "generations_t w gid = Some g"
  shows "db_ok (w \<lparr> keys_t := keys_t w @ key_rows_of gid (g_community g) (next_key_id w) i c ks,
    next_key_id := next_key_id w + int (length ks), next_iteration_id := x, next_consumer_id := y \<rparr>)"
proof -
  have old: "k_id k < next_key_id w" if "k \<in> set (keys_t w)" for k using that assms(1) by (simp add: db_ok_def keys_ok_def)
  have "distinct (map (\<lambda>i. next_key_id w + int i) [0..<length ks])" by (simp add: distinct_map inj_on_def)
  moreover have "set (map k_id (keys_t w)) \<inter> set (map (\<lambda>i. next_key_id w + int i) [0..<length ks]) = {}"
    using old by force
  ultimately have "distinct (map k_id (keys_t w @ key_rows_of gid (g_community g) (next_key_id w) i c ks))"
    using assms(1) unfolding map_append distinct_append new_keys(1) by (simp add: db_ok_def keys_ok_def)
  moreover have "k_id k < next_key_id w + int (length ks) \<and> (\<exists>g. generations_t w (k_generation k) = Some g \<and> g_community g = k_community k)"
    if "k \<in> set (keys_t w @ key_rows_of gid (g_community g) (next_key_id w) i c ks)" for k
    using that assms old new_keys(2) [of k gid "g_community g" "next_key_id w" i c ks] by (fastforce simp: db_ok_def keys_ok_def)
  ultimately show ?thesis using assms(1) by (simp add: db_ok_def generations_ok_def keys_ok_def)
qed

lemma claim_ok:
  assumes "db_ok w" "generations_t w gid = Some g"
  shows "db_ok (snd (claim gid (g_community g, v) w))"
proof (cases v)
  case (Failed m)
  then show ?thesis
    using assms decide_row_ok [OF assms, of "g \<lparr> g_status := FAILED, g_error_message := Some (take ERROR_MESSAGE_MAX_LEN m) \<rparr>"]
    by (simp add: claim_def)
next
  case (Succeeded res)
  let ?w = "w \<lparr> generations_t := (generations_t w)(gid \<mapsto> g \<lparr> g_status := SUCCESS, g_error_message := None \<rparr>) \<rparr>"
  have "db_ok ?w" by (rule decide_row_ok [OF assms]) simp_all
  from add_keys_ok [OF this, where gid = gid and g = "g \<lparr> g_status := SUCCESS, g_error_message := None \<rparr>" and ks = "ar_keys res"
      and i = "next_iteration_id w" and c = "next_consumer_id w"
      and x = "next_iteration_id w + int (sum_list (map (\<lambda>k. length (kr_iterations k)) (ar_keys res)))"
      and y = "next_consumer_id w + int (sum_list (map consumer_count (ar_keys res)))"] Succeeded assms show ?thesis
    by (simp add: claim_def)
qed

text \<open>Read, claim, announce.\<close>

lemma keeps_tables_worker:
  "keeps tables (worker_crm_commit)" "keeps tables (finished_hint bl gid cid st)" "keeps tables (read_generation gid)" "keeps tables (send_reply r)"
  "keeps tables (download k)"
proof -
  have tick: "tables (tick w) = tables w" for w by (simp add: tables_def tick_def)
  show "keeps tables (worker_crm_commit)"
    unfolding worker_crm_commit_def crm_commit_def by (intro keeps_intros keeps_outside tick) (simp add: tables_def)
  show "keeps tables (finished_hint bl gid cid st)"
    unfolding finished_hint_def by (rule keeps_emit) (simp_all add: tables_def tick_def)
  show "keeps tables (read_generation gid)"
    unfolding read_generation_def by (intro keeps_outside tick) simp
  show "keeps tables (send_reply r)" unfolding send_reply_def by (intro keeps_outside tick) (simp add: tables_def)
  show "keeps tables (download k)" unfolding download_def by (intro keeps_intros keeps_outside tick) simp
qed

lemma read_generation_row: "read_generation gid w = (Inr row, w') \<Longrightarrow> generations_t w' gid = row"
  by (auto simp: read_generation_def outside_def tick_def split: outcome.splits)

lemma claim_and_announce_maintains:
  assumes tables_only: "of_tables P"
    and decided: "\<And>w g. P w \<Longrightarrow> generations_t w gid = Some g \<Longrightarrow> P (snd (claim gid (g_community g, v) w))"
  shows "maintains P
     (abind (read_generation gid) (\<lambda>row.
       (case row of
          None \<Rightarrow> areturn ()
        | Some g \<Rightarrow>
            abind (outside raise_worker (claim gid (g_community g, v))) (\<lambda>claimed.
              if \<not> claimed then areturn ()
              else abind (with_crm_session (abind (audit_log (E g) (Some (g_community g))) (\<lambda>_. worker_crm_commit)))
                     (\<lambda>_. finished_hint bl gid (g_community g) st)))))"
proof (rule maintainsI)
  fix w r w'
  let ?announce = "\<lambda>g claimed. if \<not> claimed then areturn () else
      abind (with_crm_session (abind (audit_log (E g) (Some (g_community g))) (\<lambda>_. worker_crm_commit))) (\<lambda>_. finished_hint bl gid (g_community g) st)"
  have announce: "maintains P (?announce g claimed)" for g claimed
    by (intro maintains_intros maintains_keeps keeps_tables keeps_tables_worker tables_only)
  have read: "maintains P (read_generation gid)" by (intro maintains_keeps tables_only keeps_tables_worker)
  assume w: "P w" and run: "abind (read_generation gid) (\<lambda>row. case row of None \<Rightarrow> areturn ()
      | Some g \<Rightarrow> abind (outside raise_worker (claim gid (g_community g, v))) (?announce g)) w = (r, w')"
  obtain q u where q: "read_generation gid w = (q, u)" by (cases "read_generation gid w")
  have u: "P u" using maintainsD [OF read q w] .
  consider "w' = u" | (row) g where "q = Inr (Some g)" "abind (outside raise_worker (claim gid (g_community g, v))) (?announce g) u = (r, w')"
    using run q by (cases q) (auto simp: abind_def areturn_def split: option.splits)
  then show "P w'"
  proof cases
    case (row g)
    have "generations_t (tick u) gid = Some g" "P (tick u)"
      using read_generation_row [of gid w "Some g" u] q row(1) u of_tablesD [OF tables_only, of "tick u" u]
      by (simp_all add: tick_def tables_def)
    then have "P (snd (claim gid (g_community g, v) (tick u)))" by (intro decided)
    then have "P (snd (outside raise_worker (claim gid (g_community g, v)) u))"
      using \<open>P (tick u)\<close> by (auto simp: outside_def case_prod_beta Let_def split: outcome.splits)
    then show ?thesis
      using row(2) by (auto simp: abind_def split: prod.splits sum.splits dest: maintainsD [OF announce])
  qed (use u in simp)
qed

lemma save_ok: "maintains db_ok (save_success bl gid res)" "maintains db_ok (save_failure bl gid m)"
  unfolding save_success_def save_failure_def by (rule claim_and_announce_maintains [OF of_tables_db_ok claim_ok]; assumption)+

text \<open>
  The interface between the pipeline and an invariant of the tables: the pipeline maintains
  whatever both saves maintain, provided the row under the message's generation id has that id.
\<close>

locale pipeline_invariant =
  fixes P :: "world \<Rightarrow> bool" and gid :: int
  assumes tables_only: "of_tables P"
    and row_id: "P w \<Longrightarrow> generations_t w gid = Some g \<Longrightarrow> g_id g = gid"
    and success_maintains: "maintains P (save_success bl gid res)"
    and failure_maintains: "maintains P (save_failure bl gid text')"
begin

lemma fail_maintains: "maintains P (fail_with env gid why t)"
  unfolding fail_with_def by (intro maintains_intros failure_maintains)

lemma read_maintains: "maintains P (outside r (\<lambda>w. (f w, w)))"
  by (rule maintains_outside [OF tables_only]) simp

lemma load_file_maintains: "sn_id sn = gid \<Longrightarrow> maintains P (load_from_file env sn)"
proof -
  assume sn: "sn_id sn = gid"
  have "maintains P (parse_upload env sn k name got)" for k name got
    unfolding parse_upload_def sn
    by (auto split: sum.split storage_error.split load_error.split intro!: maintains_intros fail_maintains)
  then show ?thesis
    unfolding load_from_file_def sn
    by (auto split: option.split intro!: maintains_intros fail_maintains maintains_keeps [OF tables_only keeps_tables_worker(5)])
qed

lemma load_crm_maintains: "sn_id sn = gid \<Longrightarrow> maintains P (load_from_crm env sn)"
proof -
  assume sn: "sn_id sn = gid"
  show ?thesis
    unfolding load_from_crm_def Let_def sn prod.case
    by (intro maintains_intros fail_maintains read_maintains)
qed

lemma crash_maintains: "maintains P (after_solver_crash env gid m x k)"
  unfolding after_solver_crash_def by (auto split: option.split intro!: maintains_intros fail_maintains)

lemma run_maintains: "maintains P (run_algorithm env name cls ins rd)"
  unfolding run_algorithm_def by (intro maintains_intros read_maintains)

lemma persist_maintains: "maintains P (persist_result env gid res k)"
  unfolding persist_result_def
  by (intro maintains_intros success_maintains) (auto split: worker_exc.split intro: maintains_intros)

lemma solve_maintains: "maintains P (solve_and_save env meta gid m sn rd)"
  unfolding solve_and_save_def Let_def
  by (intro maintains_intros fail_maintains run_maintains persist_maintains)
     (auto split: worker_exc.split intro: fail_maintains crash_maintains)

lemma pending_maintains: "sn_id sn = gid \<Longrightarrow> maintains P (process_pending env meta gid m sn)"
  unfolding process_pending_def
  by (intro maintains_intros fail_maintains load_crm_maintains load_file_maintains solve_maintains)

lemma snapshot_id: "P w \<Longrightarrow> snapshot_generation gid w = (Inr osn, w') \<Longrightarrow> P w' \<and> (\<forall>sn. osn = Some sn \<longrightarrow> sn_id sn = gid)"
proof -
  assume w: "P w" and run: "snapshot_generation gid w = (Inr osn, w')"
  obtain row where row: "read_generation gid w = (Inr row, w')" "osn = map_option snapshot_of row"
    using run by (auto simp: snapshot_generation_def abind_def areturn_def split: prod.splits sum.splits)
  have "P w'" using maintainsD [OF maintains_keeps [OF tables_only keeps_tables_worker(3)] row(1) w] .
  with read_generation_row [OF row(1)] row(2) show ?thesis by (auto simp: snapshot_of_def row_id)
qed

lemma process_maintains: "maintains P (process env meta gid m)"
  unfolding process_def
proof (rule maintains_bind_with [where R = "\<lambda>osn w. P w \<and> (\<forall>sn. osn = Some sn \<longrightarrow> sn_id sn = gid)"])
  show "maintains P (snapshot_generation gid)"
    unfolding snapshot_generation_def by (intro maintains_intros maintains_keeps [OF tables_only] keeps_tables_worker)
  show "maintains (\<lambda>w. P w \<and> (\<forall>sn. osn = Some sn \<longrightarrow> sn_id sn = gid))
      (case osn of None \<Rightarrow> areturn None | Some sn \<Rightarrow> if sn_status sn \<noteq> PENDING then areturn (sn_file_storage_key sn)
         else process_pending env meta gid m sn)" for osn
    using pending_maintains by (auto simp: maintains_def areturn_def split: option.split)
qed (auto dest: snapshot_id)

lemma handle_message_maintains:
  assumes "message_generation m = Some gid"
  shows "maintains P (handle_message env meta m)"
proof -
  obtain ev where ev: "decode_event (msg_data m) = Some ev" "generation_id_of (de_data ev) = Some gid"
    using assms by (auto simp: message_generation_def bind_eq_Some_conv)
  note reply = maintains_keeps [OF tables_only keeps_tables_worker(4)]
  have "maintains P (case outcome of
        Inl (TransientError _) \<Rightarrow> send_reply (Nak NAK_RETRY_DELAY_SECONDS)
      | Inl _ \<Rightarrow> abind (save_failure (we_byte_length env) gid ''unhandled_worker_error'') (\<lambda>_. send_reply Ack)
      | Inr storage_key \<Rightarrow> abind (send_reply Ack) (\<lambda>_. case storage_key of None \<Rightarrow> areturn () | Some k \<Rightarrow> delete_object k))" for outcome
    by (auto split: sum.split worker_exc.split option.split
        intro!: maintains_intros reply failure_maintains maintains_keeps [OF tables_only keeps_tables(5)])
  from maintains_bind [OF maintains_try [OF process_maintains] this] show ?thesis
    unfolding handle_message_def ev option.case .
qed

end

interpretation tables_ok: pipeline_invariant db_ok gid for gid
  by unfold_locales (auto intro: of_tables_db_ok save_ok simp: db_ok_def generations_ok_def)

text \<open>The rows and keys of all other generations.\<close>

definition others_as :: "int \<Rightarrow> (int \<Rightarrow> generation_row option) \<Rightarrow> key_row list \<Rightarrow> world \<Rightarrow> bool" where
  "others_as gid G K w \<longleftrightarrow>
     (\<forall>i. i \<noteq> gid \<longrightarrow> generations_t w i = G i) \<and> filter (\<lambda>k. k_generation k \<noteq> gid) (keys_t w) = K \<and>
     (\<forall>g. generations_t w gid = Some g \<longrightarrow> g_id g = gid)"

lemma of_tables_others: "of_tables (others_as gid G K)"
  by (auto simp: of_tables_def tables_def others_as_def)

lemma claim_others: "others_as gid G K w \<Longrightarrow> others_as gid G K (snd (claim gid cv w))"
  by (auto simp: others_as_def claim_def key_rows_others split: option.splits prod.splits verdict.splits)

lemma save_others: "maintains (others_as gid G K) (save_success bl gid res)" "maintains (others_as gid G K) (save_failure bl gid m)"
  unfolding save_success_def save_failure_def by (rule claim_and_announce_maintains [OF of_tables_others claim_others]; assumption)+

interpretation only_its_own: pipeline_invariant "others_as gid G K" gid for gid G K
  by unfold_locales (auto intro: of_tables_others save_others simp: others_as_def)

lemma unreadable_message_maintains:
  assumes "of_tables P" "message_generation m = None"
  shows "maintains P (handle_message env meta m)"
proof -
  have reply: "maintains P (send_reply Ack)" by (rule maintains_keeps [OF assms(1) keeps_tables_worker(4)])
  show ?thesis
    using assms(2) reply unfolding handle_message_def message_generation_def
    by (auto simp: bind_eq_None_conv split: option.splits)
qed

lemma handle_message_ok: "maintains db_ok (handle_message env meta m)"
  by (cases "message_generation m")
     (auto intro: unreadable_message_maintains of_tables_db_ok tables_ok.handle_message_maintains)

section \<open>Whole requests\<close>

lemma run_route_ok: "maintains db_ok (run_route env call)"
proof (rule maintainsI)
  fix w r w' assume w: "db_ok w" and run: "run_route env call w = (r, w')"
  show "db_ok w'" using maintainsD [OF tenant_run_route run tenant_start [OF w]] by (simp add: tenant_def)
qed

lemma db_ok_context [simp]:
  "db_ok (w \<lparr> context_community := x \<rparr>) = db_ok w" "db_ok (w \<lparr> locale_code := l \<rparr>) = db_ok w"
  "db_ok (w \<lparr> auth_user := a, auth_community := b, user_role := c \<rparr>) = db_ok w" "db_ok (w \<lparr> clock := n \<rparr>) = db_ok w"
  by (simp_all add: db_ok_def generations_ok_def keys_ok_def)

lemma wrapped_maintains:
  assumes "maintains P m" "\<And>w. P (f w) = P w" "\<And>w v. P (g w v) = P v"
  shows "maintains P (\<lambda>w. case m (f w) of (r, v) \<Rightarrow> (r, g w v))"
  using assms by (auto simp: maintains_def split: prod.split) (metis snd_conv)

text \<open>What a request keeps: an invariant of the tables that does not look at the context of the request.\<close>

definition context_free :: "(world \<Rightarrow> bool) \<Rightarrow> bool" where
  "context_free P \<longleftrightarrow>
     (\<forall>w x. P (w \<lparr> context_community := x \<rparr>) = P w) \<and> (\<forall>w x. P (w \<lparr> locale_code := x \<rparr>) = P w) \<and>
     (\<forall>w a b c. P (w \<lparr> auth_user := a, auth_community := b, user_role := c \<rparr>) = P w) \<and> (\<forall>w n. P (w \<lparr> clock := n \<rparr>) = P w)"

lemma context_freeD:
  "context_free P \<Longrightarrow> P (w \<lparr> context_community := x \<rparr>) = P w" "context_free P \<Longrightarrow> P (w \<lparr> locale_code := l \<rparr>) = P w"
  "context_free P \<Longrightarrow> P (w \<lparr> auth_user := a, auth_community := b, user_role := c \<rparr>) = P w" "context_free P \<Longrightarrow> P (w \<lparr> clock := n \<rparr>) = P w"
  by (simp_all add: context_free_def)

lemma dependencies_maintain:
  assumes "context_free P"
  shows "maintains P router_dependencies"
proof (rule maintainsI)
  fix w r w' assume w: "P w" "router_dependencies w = (r, w')"
  have same: "P (without_context v) = P v" for v
    using context_freeD(1) [OF assms, where w = "v \<lparr> clock := 0 \<rparr>" and x = None] context_freeD(4) [OF assms] by (simp add: without_context_def)
  have "P (without_context w') = P (without_context w)"
    using dependencies_keep w(2) unfolding keeps_def by (metis snd_conv)
  then show "P w'" using w(1) by (simp add: same)
qed

lemma api_request_maintains:
  assumes free: "context_free P" and route: "maintains P (run_route env call)"
  shows "maintains P (api_request env fresh None rq call)"
proof -
  note same = context_freeD [OF free]
  have handled: "maintains P (with_error_handler files rid m)" if "maintains P m" for files rid m
    unfolding with_error_handler_def error_exception_handler_def
    by (intro maintains_catch that) (auto split: exc.split intro!: maintains_intros)
  have "maintains P (with_error_handler (rt_locales env) rid (abind router_dependencies (\<lambda>_. run_route env call)))" for rid
    by (intro handled maintains_intros dependencies_maintain free route)
  then have "maintains P (locale_middleware rq (with_error_handler (rt_locales env) rid (abind router_dependencies (\<lambda>_. run_route env call))))" for rid
    unfolding locale_middleware_def by (intro wrapped_maintains) (simp_all add: same)
  then have "maintains P (correlation_id fresh rq (request_limits None rq
      (locale_middleware rq (with_error_handler (rt_locales env) rid (abind router_dependencies (\<lambda>_. run_route env call))))))" for rid
    unfolding correlation_id_def request_limits_def option.case by (intro maintains_intros)
  then have "maintains P (gateway_scope (rq_headers rq) (correlation_id fresh rq (request_limits None rq
      (locale_middleware rq (with_error_handler (rt_locales env) rid (abind router_dependencies (\<lambda>_. run_route env call)))))))" for rid
    unfolding gateway_scope_def by (intro wrapped_maintains) (simp_all add: same)
  then show ?thesis
    unfolding api_request_def serve_def unhandled_exception_handler_def
    by (intro wrapped_maintains maintains_intros) (simp_all add: same)
qed

lemma context_free_db_ok: "context_free db_ok"
  by (simp add: context_free_def)

lemma api_request_ok: "maintains db_ok (api_request env fresh None rq call)"
  by (rule api_request_maintains [OF context_free_db_ok run_route_ok])

section \<open>The system\<close>

text \<open>
  What can happen, in any order: a request is served, a message is handled (any message: also one
  delivered twice, or never sent), and the other services change what is theirs.
\<close>

inductive system_step :: "route_env \<Rightarrow> worker_env \<Rightarrow> world \<Rightarrow> world \<Rightarrow> bool" for renv wenv where
  request_served: "system_step renv wenv w (snd (api_request renv fresh None rq call w))"
| message_handled: "system_step renv wenv w (snd (handle_message wenv meta m w))"
| elsewhere: "system_step renv wenv w (w \<lparr> outcomes := x1, app_users := x2, communities := x3, subscriptions := x4,
     meters := x5, operations := x6, realtime_on := x7 \<rparr>)"

lemma system_step_ok: "system_step renv wenv w w' \<Longrightarrow> db_ok w \<Longrightarrow> db_ok w'"
proof (induction rule: system_step.induct)
  case (request_served w fresh rq call)
  then show ?case using api_request_ok unfolding maintains_def by blast
next
  case (message_handled w meta m)
  then show ?case using handle_message_ok unfolding maintains_def by blast
next
  case elsewhere
  then show ?case by (simp add: db_ok_def generations_ok_def keys_ok_def)
qed

definition reachable :: "route_env \<Rightarrow> worker_env \<Rightarrow> world \<Rightarrow> bool" where
  "reachable renv wenv w \<longleftrightarrow> (system_step renv wenv)\<^sup>*\<^sup>* quiet_world w"

lemma reachable_db_ok: "reachable renv wenv w \<Longrightarrow> db_ok w"
  unfolding reachable_def
proof (induction rule: rtranclp_induct)
  case base
  show ?case by (simp add: db_ok_def generations_ok_def keys_ok_def quiet_world_def)
next
  case (step w w')
  then show ?case by (simp add: system_step_ok)
qed

section \<open>Properties\<close>

text \<open>In every state the system can reach, by any sequence of requests and messages and under any
  failures of the outside services, the tables are consistent: rows are stored under their id,
  ids are unique and come from the sequences, every generated key belongs to an existing
  generation of the same community, and every generation has the fields its source needs.\<close>

theorem reachable_tables_consistent:
  assumes "reachable renv wenv w"
  shows "generations_ok w \<and> keys_ok w"
  using reachable_db_ok [OF assms] by (simp add: db_ok_def)

theorem reachable_tables_consistent_witness:
  "\<forall>renv rq. let w = snd (api_request renv ''id'' None rq (DeleteGenerationCall 5)
     (snd (handle_message pool_env idle_metadata (generation_message 5 (Some 1)) quiet_world)))
   in generations_ok w \<and> keys_ok w"
proof (unfold Let_def, intro allI reachable_tables_consistent)
  fix renv rq
  let ?w = "snd (handle_message pool_env idle_metadata (generation_message 5 (Some 1)) quiet_world)"
  have "system_step renv pool_env quiet_world ?w" by (rule message_handled)
  moreover have "system_step renv pool_env ?w (snd (api_request renv ''id'' None rq (DeleteGenerationCall 5) ?w))"
    by (rule request_served)
  ultimately show "reachable renv pool_env (snd (api_request renv ''id'' None rq (DeleteGenerationCall 5) ?w))"
    unfolding reachable_def by (meson rtranclp.rtrancl_into_rtrancl rtranclp.rtrancl_refl)
qed

text \<open>A generation of community 7, seen by community 3.\<close>

definition neighbour_world :: world where
  "neighbour_world = quiet_world \<lparr> generations_t := [5 \<mapsto> pending_file_row, 6 \<mapsto> pending_file_row \<lparr> g_id := 6 \<rparr>],
     next_generation_id := 7, context_community := Some 3 \<rparr>"

lemma neighbour_world_ok: "db_ok neighbour_world"
  by (auto simp: neighbour_world_def quiet_world_def db_ok_def generations_ok_def keys_ok_def pending_file_row_def complete_row_def)

text \<open>C9. A request leaves the rows of all other communities as they are: generations, generated keys and
  saved keys, whatever the route and whatever fails.\<close>

theorem foreign_rows_untouched:
  assumes "db_ok w"
  shows "foreign (context_community w) (snd (run_route env call w)) = foreign (context_community w) w"
proof -
  have "tenant (context_community w) (started w) (snd (run_route env call w))"
    using tenant_run_route tenant_start [OF assms] unfolding maintains_def by blast
  then show ?thesis by (simp add: tenant_def started_def)
qed

theorem foreign_rows_untouched_witness:
  "\<forall>env. foreign (context_community neighbour_world) (snd (run_route env (DeleteGenerationCall 5) neighbour_world)) =
     foreign (context_community neighbour_world) neighbour_world"
  using foreign_rows_untouched [OF neighbour_world_ok] by blast

text \<open>A message touches its own generation only: the rows of all other generations and their keys
  are as before, whatever the message and whatever fails.\<close>

theorem message_touches_its_generation_only:
  assumes "db_ok w" "message_generation m = Some gid" "gid' \<noteq> gid"
  shows "generations_t (snd (handle_message wenv meta m w)) gid' = generations_t w gid' \<and>
    filter (\<lambda>k. k_generation k = gid') (keys_t (snd (handle_message wenv meta m w))) =
      filter (\<lambda>k. k_generation k = gid') (keys_t w)"
proof -
  let ?w = "snd (handle_message wenv meta m w)"
  let ?others = "filter (\<lambda>k. k_generation k \<noteq> gid)"
  have "others_as gid (generations_t w) (?others (keys_t w)) w"
    using assms(1) by (simp add: others_as_def db_ok_def generations_ok_def)
  then have w': "others_as gid (generations_t w) (?others (keys_t w)) ?w"
    using only_its_own.handle_message_maintains [OF assms(2)] by (simp add: maintains_def)
  have split: "filter (\<lambda>k. k_generation k = gid') ks = filter (\<lambda>k. k_generation k = gid') (?others ks)" for ks :: "key_row list"
    using assms(3) by (induction ks) auto
  have "?others (keys_t ?w) = ?others (keys_t w)" using w' by (simp add: others_as_def)
  then have "filter (\<lambda>k. k_generation k = gid') (keys_t ?w) = filter (\<lambda>k. k_generation k = gid') (keys_t w)"
    by (simp only: split [of "keys_t ?w"] split [of "keys_t w"])
  then show ?thesis using w' assms(3) by (simp add: others_as_def)
qed

theorem message_touches_its_generation_only_witness:
  "\<forall>wenv meta d. let w = snd (handle_message wenv meta (generation_message 5 d) neighbour_world)
     in generations_t w 6 = generations_t neighbour_world 6 \<and>
        filter (\<lambda>k. k_generation k = 6) (keys_t w) = filter (\<lambda>k. k_generation k = 6) (keys_t neighbour_world)"
proof (unfold Let_def, intro allI message_touches_its_generation_only [OF neighbour_world_ok generation_message_id])
  show "(6 :: int) \<noteq> 5" by simp
qed

end

