(* ===== verification/ApiServing.thy ===== *)
theory ApiServing
  imports Consistency
begin

text \<open>
  What the API promises: uploads are read up to the cap, the pages of a listing make up the whole
  listing, a generation that was accepted is stored and queued and, when nothing fails, solved by
  the worker. And what it does not keep: audit entries, the result of a generation whose
  publication timed out, the file of a deleted generation.
\<close>

section \<open>Reading the upload\<close>

lemma read_loop_outcome:
  "length buffer \<le> max_bytes \<Longrightarrow> read_loop max_bytes buffer rest =
     (if length buffer + length rest \<le> max_bytes then Inr (buffer @ rest) else Inl (ErrorException FILE_TOO_LARGE 413))"
proof (induction max_bytes buffer rest rule: read_loop.induct)
  case (1 max_bytes buffer rest)
  let ?chunk = "take UPLOAD_READ_CHUNK_BYTES rest"
  show ?case
  proof (cases "?chunk = []")
    case True
    then have "rest = []" using chunk_positive by auto
    then show ?thesis using "1.prems" by (subst read_loop.simps) simp
  next
    case False
    show ?thesis
    proof (cases "max_bytes < length buffer + length ?chunk")
      case True
      then have "\<not> length buffer + length rest \<le> max_bytes" by simp
      with True False show ?thesis by (subst read_loop.simps) (simp add: Let_def)
    next
      case small: False
      have "read_loop max_bytes buffer rest = read_loop max_bytes (buffer @ ?chunk) (drop UPLOAD_READ_CHUNK_BYTES rest)"
        using False small by (subst read_loop.simps) (simp add: Let_def)
      moreover have "length (buffer @ ?chunk) + length (drop UPLOAD_READ_CHUNK_BYTES rest) = length buffer + length rest"
        by simp
      ultimately show ?thesis
        using "1.IH" [OF refl False] small by (simp del: length_append length_drop) simp
    qed
  qed
qed

text \<open>C30. The bounded read ends, and accepts exactly the bodies of at most \<open>max_bytes\<close>: such a body
  is returned whole, and anything longer is refused with status 413.\<close>

theorem read_within_cap_exact:
  "read_within_cap content max_bytes =
     (if length content \<le> max_bytes then Inr content else Inl (ErrorException FILE_TOO_LARGE 413))"
  by (simp add: read_within_cap_def read_loop_outcome)

section \<open>Pages\<close>

lemma concat_pages: "concat (map (\<lambda>i. take s (drop (i * s) xs)) [0..<n]) = take (n * s) xs"
proof (induction n)
  case (Suc n)
  have "take (Suc n * s) xs = take (n * s) xs @ take s (drop (n * s) xs)"
    using take_add [of "n * s" s xs] by (simp add: add.commute)
  with Suc show ?case by simp
qed simp

definition page_rows :: "int \<Rightarrow> int \<Rightarrow> 'r list \<Rightarrow> 'r list" where
  "page_rows page page_size rows = (case page_of page page_size rows of Inl _ \<Rightarrow> [] | Inr xs \<Rightarrow> xs)"

lemma pages_tile:
  fixes s :: int
  assumes "0 < s"
  shows "concat (map (\<lambda>p. page_rows p s rows) [1..- ((- int (length rows)) div s)]) = rows"
proof -
  let ?n = "- ((- int (length rows)) div s)"
  have page: "page_rows (int i + 1) s rows = take (nat s) (drop (i * nat s) rows)" for i
  proof -
    have "\<not> int i * s < 0" "\<not> s < 0" using assms by (simp_all add: not_less)
    moreover have "nat (int i * s) = i * nat s" using assms by (simp add: nat_mult_distrib)
    ultimately show ?thesis by (simp add: page_rows_def page_of_def)
  qed
  have "0 \<le> ?n" using assms by (simp add: div_nonpos_pos_le0)
  then have "[1..?n] = map (\<lambda>i. int i + 1) [0..<nat ?n]"
    by (intro nth_equalityI) (simp_all add: nth_upto)
  then have "concat (map (\<lambda>p. page_rows p s rows) [1..?n]) = concat (map (\<lambda>i. take (nat s) (drop (i * nat s) rows)) [0..<nat ?n])"
    by (simp add: comp_def page)
  also have "\<dots> = take (nat ?n * nat s) rows" by (rule concat_pages)
  also have "\<dots> = rows"
  proof (rule take_all)
    have "- int (length rows) \<ge> ((- int (length rows)) div s) * s"
      using assms by (metis div_mult_mod_eq mult.commute pos_mod_sign add.commute le_add_same_cancel1)
    then have "int (length rows) \<le> ?n * s" by (simp add: algebra_simps)
    then show "length rows \<le> nat ?n * nat s" using \<open>0 \<le> ?n\<close> assms by (simp add: nat_mult_distrib [symmetric] nat_le_iff le_nat_iff)
  qed
  finally show ?thesis .
qed



section \<open>Stored inputs\<close>

text \<open>What the code relies on in pydantic's lax mode: a JSON number of the right kind is taken as it is.\<close>

definition faithful :: "coercion \<Rightarrow> bool" where
  "faithful co \<longleftrightarrow> (\<forall>i. as_int co (JInt i) = Some i) \<and> (\<forall>x. as_float co (JFloat x) = Some x)"

definition dumped :: "input_value \<Rightarrow> json" where
  "dumped v = (case v of VInt i \<Rightarrow> JInt i | VFloat x \<Rightarrow> JFloat x)"

lemma validate_dumped:
  "faithful co \<Longrightarrow> validate_field co t j = Inr v \<Longrightarrow> validate_field co t (dumped v) = Inr v"
  by (cases t) (auto simp: faithful_def dumped_def split: option.splits if_splits)

definition schema_ok :: "coercion \<Rightarrow> input_schema \<Rightarrow> bool" where
  "schema_ok co schema \<longleftrightarrow> distinct (map fld_name schema) \<and>
     (\<forall>f\<in>set schema. \<forall>v. fld_default f = Some v \<longrightarrow> validate_field co (fld_type f) (dumped v) = Inr v)"

lemma dump_keys: "dict_keys (map (\<lambda>(k, v). (k, dumped v)) ins) = map fst ins"
  by (induction ins) (auto simp: dict_keys_def)

lemma revalidate:
  assumes "faithful co" "schema_ok co schema" "model_validate co schema obj = Inr ins"
  shows "model_validate co schema (model_dump ins) = Inr ins"
proof -
  let ?kvs = "map (\<lambda>(k, v). (k, dumped v)) ins"
  let ?field = "\<lambda>kvs f. (case map_of kvs (fld_name f) of
        Some j \<Rightarrow> rbind (validate_field co (fld_type f) j) (\<lambda>v. Inr (fld_name f, v))
      | None \<Rightarrow> (case fld_default f of None \<Rightarrow> Inl (ValueError ''missing'') | Some v \<Rightarrow> Inr (fld_name f, v)))"
  obtain kvs where "obj = JObj kvs" using assms(3) by (auto simp: model_validate_def split: json.splits)
  with assms(3) have all: "list_all2 (\<lambda>f e. ?field kvs f = Inr e) schema ins"
    by (auto simp: model_validate_def rmapM_Inr_iff split: if_splits)
  have entry: "fst e = fld_name f \<and> validate_field co (fld_type f) (dumped (snd e)) = Inr (snd e)"
    if "f \<in> set schema" "?field kvs f = Inr e" for f e
    using that assms(1,2) validate_dumped [OF assms(1)]
    by (auto simp: schema_ok_def result_simps split: option.splits sum.splits)
  have names: "map fst ins = map fld_name schema"
    using all entry by (induction rule: list_all2_induct) auto
  have dist: "distinct (map fst ins)" using assms(2) names by (simp add: schema_ok_def)
  have "list_all2 (\<lambda>f e. ?field ?kvs f = Inr e) schema ins"
  proof (rule list_all2_all_nthI)
    show len: "length schema = length ins" using all by (rule list_all2_lengthD)
    fix i assume i: "i < length schema"
    have e: "fst (ins ! i) = fld_name (schema ! i)" "validate_field co (fld_type (schema ! i)) (dumped (snd (ins ! i))) = Inr (snd (ins ! i))"
      using entry [of "schema ! i" "ins ! i"] list_all2_nthD [OF all i] i by auto
    have "map_of ?kvs (fst (ins ! i)) = Some (dumped (snd (ins ! i)))"
    proof (rule map_of_is_SomeI)
      show "distinct (map fst ?kvs)" using dist by (simp add: comp_def case_prod_beta)
      show "(fst (ins ! i), dumped (snd (ins ! i))) \<in> set ?kvs" using i len by (force simp: case_prod_beta)
    qed
    then show "?field ?kvs (schema ! i) = Inr (ins ! i)" using e by (cases "ins ! i") (simp add: result_simps)
  qed
  moreover have "set (dict_keys ?kvs) \<subseteq> set (map fld_name schema)"
    unfolding dump_keys names by simp
  moreover have "model_dump ins = JObj ?kvs" by (simp add: model_dump_def dumped_def)
  ultimately show ?thesis by (simp add: model_validate_def rmapM_Inr_iff)
qed

lemma repository_schemas_ok: "faithful co \<Longrightarrow> meta \<in> {BRUTE_FORCE_METADATA, OLAGSA_METADATA} \<Longrightarrow> schema_ok co (md_input_schema meta)"
  by (auto simp: schema_ok_def BRUTE_FORCE_METADATA_def OLAGSA_METADATA_def BruteForceInput_def OlagsaInput_def faithful_def dumped_def)


definition strict_coercion :: coercion where
  "strict_coercion = \<lparr> as_int = (\<lambda>j. case j of JInt i \<Rightarrow> Some i | _ \<Rightarrow> None),
     as_float = (\<lambda>j. case j of JInt i \<Rightarrow> Some (of_int i) | JFloat x \<Rightarrow> Some x | _ \<Rightarrow> None) \<rparr>"


section \<open>Starting a generation\<close>

text \<open>The row the upload path writes.\<close>

definition file_row :: "int \<Rightarrow> string \<Rightarrow> generate_request \<Rightarrow> int \<Rightarrow> algorithm_metadata \<Rightarrow> inputs \<Rightarrow> string \<Rightarrow> generation_row" where
  "file_row gid key req cid meta ins file_name =
     \<lparr> g_id = gid, g_name = gr_name req, g_community = cid, g_source = FILE,
       g_file_storage_key = Some key, g_file_name = Some file_name,
       g_injection_name = Some (gr_injection_name req), g_sharing_operation = None, g_period_start = None,
       g_period_end = None, g_algorithm_name = md_name meta, g_algorithm_version = md_version meta,
       g_inputs = Some (model_dump ins), g_status = PENDING, g_error_message = None, g_data_warnings = None \<rparr>"

definition stored_name :: "upload_file \<Rightarrow> string" where
  "stored_name upl = (case uf_filename upl of None \<Rightarrow> ''uploaded-file'' | Some n \<Rightarrow> if n = [] then ''uploaded-file'' else n)"

lemma upload_outcome:
  "acatch (upload k content) (\<lambda>_. araise e) w = (Inr u, w') \<Longrightarrow> w' = (tick w) \<lparr> store := (store w)(k \<mapsto> content) \<rparr>"
  by (auto simp: acatch_def upload_def outside_def tick_def araise_def split: outcome.splits prod.splits sum.splits)

lemma insert_row_outcome:
  assumes "insert_row g w = (Inr m, w')"
  shows "m = g \<lparr> g_id := next_generation_id w \<rparr> \<and> w' = (tick (tick w)) \<lparr> next_generation_id := next_generation_id w + 1,
    generations_t := (generations_t w)(next_generation_id w \<mapsto> m) \<rparr>"
  using assms
  by (auto simp: abind_def areturn_def create_generation_def commit_generation_def outside_def tick_def split: outcome.splits prod.splits sum.splits)

lemma guarded_insert_outcome:
  assumes "acatch (insert_row g) (\<lambda>x. abind h (\<lambda>_. araise x)) w = (Inr m, w')"
  shows "insert_row g w = (Inr m, w')"
proof (cases "insert_row g w")
  case (Pair r v)
  with assms show ?thesis by (cases r) (auto simp: acatch_def abind_def araise_def split: prod.splits sum.splits)
qed

lemma abind_snd: "abind m f w = (Inr y, w') \<Longrightarrow> \<exists>x. f x (snd (m w)) = (Inr y, w')"
  by (cases rule: abind_outcome) auto

lemma audit_outcome: "\<exists>k st. clock w \<le> k \<and> snd (api_audit a e i pl w) = w \<lparr> clock := k, audit_staged := st \<rparr>"
proof (cases "outcomes w (clock w) = Works")
  case True
  then show ?thesis
    by (intro exI [of _ "Suc (clock w)"] exI [of _ "audit_staged w @ [audit_row_of _ _ (tick w)]"])
       (simp add: api_audit_def audit_log_def acatch_def outside_def tick_def)
next
  case False
  have "snd (api_audit a e i pl w) = tick w"
    using False by (cases "outcomes w (clock w)") (simp_all add: api_audit_def audit_log_def acatch_def areturn_def outside_def)
  moreover have "tick w = w \<lparr> clock := Suc (clock w), audit_staged := audit_staged w \<rparr>"
    by (rule world.equality) (simp_all add: tick_def)
  ultimately show ?thesis by (intro exI [of _ "Suc (clock w)"] exI [of _ "audit_staged w"]) simp
qed

lemma send_outcome:
  "send_event subject ev w = (Inr u, w') \<Longrightarrow> w' = (tick w) \<lparr> queue := queue w @ [(subject, encode_event ev)] \<rparr>"
  by (auto simp: send_event_def split: outcome.splits)

lemma publish_outcome:
  assumes "publish_or_fail meta gid rollback w = (Inr resp, w')"
  shows "resp = \<lparr> gp_id = gid, gp_status = PENDING \<rparr> \<and>
    w' = (tick w) \<lparr> queue := queue w @ [(md_queue meta, encode_event (requested_event gid))] \<rparr>"
proof -
  obtain q v where q: "send_event (md_queue meta) (requested_event gid) w = (q, v)" by (cases "send_event (md_queue meta) (requested_event gid) w")
  then have tried: "(atry (send_event (md_queue meta) (requested_event gid)) :: (world, exc, exc + unit) act) w = (Inr q, v)"
    by (simp add: atry_def)
  show ?thesis
  proof (cases q)
    case (Inl x)
    with assms tried show ?thesis
      by (auto simp: publish_or_fail_def abind_def [of "atry _"]) (auto simp: abind_def araise_def split: prod.splits sum.splits)
  next
    case (Inr u)
    with assms tried send_outcome q show ?thesis
      by (auto simp: publish_or_fail_def abind_def [of "atry _"] areturn_def)
  qed
qed

lemma store_and_queue_outcome:
  assumes "store_and_queue uuid req cid meta ins content file_name w = (Inr resp, w')"
  defines "gid \<equiv> next_generation_id w" and "key \<equiv> ''allocations/'' @ show_int cid @ ''/'' @ uuid @ ''/'' @ file_name"
  shows "resp = \<lparr> gp_id = gid, gp_status = PENDING \<rparr> \<and> next_generation_id w' = gid + 1 \<and>
    generations_t w' = (generations_t w)(gid \<mapsto> file_row gid key req cid meta ins file_name) \<and>
    store w' = (store w)(key \<mapsto> content) \<and> queue w' = queue w @ [(md_queue meta, encode_event (requested_event gid))] \<and>
    keys_t w' = keys_t w \<and> next_key_id w' = next_key_id w \<and> outcomes w' = outcomes w \<and> clock w \<le> clock w' \<and>
    replies w' = replies w \<and> realtime_on w' = realtime_on w"
proof -
  let ?row = "file_row 0 key req cid meta ins file_name"
  let ?insert = "acatch (insert_row ?row) (\<lambda>x. abind (best_effort_delete key) (\<lambda>_. araise x))"
  from assms(1) obtain w1 where w1: "acatch (upload key content) (\<lambda>_. araise (ErrorException STORAGE_UPLOAD_FAILED 502)) w = (Inr (), w1)"
    and r1: "abind ?insert (\<lambda>model. abind (api_audit GENERATION_CREATED ''generation'' (g_id model)
           [(''name'', JStr (gr_name req)), (''algorithm_name'', JStr (md_name meta)),
            (''algorithm_version'', JStr (md_version meta)), (''file_name'', JStr file_name),
            (''injection_name'', JStr (gr_injection_name req))]) (\<lambda>_.
         publish_or_fail meta (g_id model) (best_effort_delete key))) w1 = (Inr resp, w')"
    unfolding store_and_queue_def Let_def key_def [symmetric] file_row_def [symmetric] by (cases rule: abind_outcome) auto
  from r1 obtain m w2 where w2: "?insert w1 = (Inr m, w2)"
    and r2: "abind (api_audit GENERATION_CREATED ''generation'' (g_id m)
           [(''name'', JStr (gr_name req)), (''algorithm_name'', JStr (md_name meta)),
            (''algorithm_version'', JStr (md_version meta)), (''file_name'', JStr file_name),
            (''injection_name'', JStr (gr_injection_name req))]) (\<lambda>_.
         publish_or_fail meta (g_id m) (best_effort_delete key)) w2 = (Inr resp, w')"
    by (cases rule: abind_outcome) auto
  obtain w3 where w3: "\<exists>a e i pl. snd (api_audit a e i pl w2) = w3"
    and r3: "publish_or_fail meta (g_id m) (best_effort_delete key) w3 = (Inr resp, w')"
    using abind_snd [OF r2] by blast
  note u = upload_outcome [OF w1]
  note i = insert_row_outcome [OF guarded_insert_outcome [OF w2]]
  obtain k st where a: "clock w2 \<le> k" "w3 = w2 \<lparr> clock := k, audit_staged := st \<rparr>" using w3 audit_outcome by metis
  note p = publish_outcome [OF r3]
  show ?thesis using a(1) by (simp add: p a(2) i u file_row_def tick_def gid_def)
qed

lemma if_raise: "(if b then araise e else m) w = (Inr x, w') \<longleftrightarrow> \<not> b \<and> m w = (Inr x, w')"
  by (simp add: araise_def)

lemma start_generation_outcome:
  assumes "start_generation env uuid req upl cid w = (Inr resp, w')"
  obtains meta ins where "registry_metadata (ap_registry env) (gr_algorithm_name req) = Inr meta"
    "model_validate (ap_coercion env) (md_input_schema meta) (gr_inputs req) = Inr ins"
    "store_and_queue uuid req cid meta ins (uf_content upl) (stored_name upl) w = (Inr resp, w')"
    "uf_content upl \<noteq> []" "length (uf_content upl) \<le> UPLOAD_MAX_BODY_BYTES"
proof -
  from assms obtain meta ins where v: "validate_request env (gr_algorithm_name req) (gr_inputs req) = Inr (meta, ins)"
    by (cases "validate_request env (gr_algorithm_name req) (gr_inputs req)") (auto simp: start_generation_def araise_def)
  then have lookup: "registry_metadata (ap_registry env) (gr_algorithm_name req) = Inr meta"
    "model_validate (ap_coercion env) (md_input_schema meta) (gr_inputs req) = Inr ins"
    by (auto simp: validate_request_def split: if_splits sum.splits)
  have short: "length (uf_content upl) \<le> UPLOAD_MAX_BODY_BYTES"
    using assms v by (auto simp: start_generation_def read_within_cap_def read_loop_outcome araise_def split: if_splits)
  have read: "read_within_cap (uf_content upl) UPLOAD_MAX_BODY_BYTES = Inr (uf_content upl)"
    using short by (simp add: read_within_cap_def read_loop_outcome)
  have nonempty: "uf_content upl \<noteq> []"
    using assms v read by (auto simp: start_generation_def araise_def)
  let ?size = "case upload_measure (ap_zip env) (uf_content upl) (stored_name upl) of
      None \<Rightarrow> False | Some (columns, data_rows) \<Rightarrow> too_large (nat (columns - 1)) data_rows \<noteq> None"
  have "start_generation env uuid req upl cid =
      (if ?size then araise (ErrorException PROBLEM_TOO_LARGE 422)
       else store_and_queue uuid req cid meta ins (uf_content upl) (stored_name upl))"
    unfolding start_generation_def v abind_simps prod.case read stored_name_def [symmetric] Let_def by (simp only: nonempty if_False)
  then have "store_and_queue uuid req cid meta ins (uf_content upl) (stored_name upl) w = (Inr resp, w')"
    using assms by (simp only: if_raise)
  with lookup short nonempty that show ?thesis by blast
qed

text \<open>C24. A generation that was accepted is stored and queued: its row is inserted under a fresh id with
  status PENDING for the caller's community, the uploaded bytes are in the object store under
  the key of the row, and one message is on the queue of the algorithm, whose generation id,
  read the way the worker reads it, is the id of that row and the id in the answer.\<close>

theorem accepted_generation_is_queued:
  assumes "start_generation env uuid req upl cid w = (Inr resp, w')"
  shows "\<exists>meta ins key body.
    let gid = next_generation_id w; row = file_row gid key req cid meta ins (stored_name upl)
    in registry_metadata (ap_registry env) (gr_algorithm_name req) = Inr meta \<and>
       resp = \<lparr> gp_id = gid, gp_status = PENDING \<rparr> \<and>
       generations_t w' = (generations_t w)(gid \<mapsto> row) \<and> next_generation_id w' = gid + 1 \<and>
       store w' = (store w)(key \<mapsto> uf_content upl) \<and> queue w' = queue w @ [(md_queue meta, body)] \<and>
       Option.bind (decode_event (Some body)) (\<lambda>ev. generation_id_of (de_data ev)) = Some gid"
proof -
  obtain meta ins where m: "registry_metadata (ap_registry env) (gr_algorithm_name req) = Inr meta"
    and run: "store_and_queue uuid req cid meta ins (uf_content upl) (stored_name upl) w = (Inr resp, w')"
    using start_generation_outcome [OF assms] by metis
  have "Option.bind (decode_event (Some (encode_event (requested_event gid)))) (\<lambda>ev. generation_id_of (de_data ev)) = Some gid" for gid
    by (simp add: requested_event_def encode_event_def decode_event_def generation_id_of_def)
  then show ?thesis using m store_and_queue_outcome [OF run] unfolding Let_def by blast
qed

section \<open>From the request to the result\<close>

lemma completes_save_success: "completes (save_success bl gid res)"
  unfolding save_success_def read_generation_def audit_log_def worker_crm_commit_def crm_commit_def finished_hint_def
  by (auto intro!: completes_intros simp: all_work_claim split: option.split)

lemma save_success_works:
  assumes "all_work w" "generations_t w gid = Some g" "g_status g = PENDING"
  obtains w' where "save_success bl gid res w = (Inr (), w')" "all_work w'"
    "generations_t w' = (generations_t w)(gid \<mapsto> decided (Succeeded res) g)"
    "keys_t w' = keys_t w @ key_rows_of gid (g_community g) (next_key_id w) (next_iteration_id w) (next_consumer_id w) (ar_keys res)"
proof -
  let ?w = "tick (tick w)"
  let ?v = "snd (claim gid (g_community g, Succeeded res) ?w)"
  have claimed: "fst (claim gid (g_community g, Succeeded res) ?w)"
    and v: "generations_t ?v = (generations_t w)(gid \<mapsto> decided (Succeeded res) g)"
      "keys_t ?v = keys_t w @ key_rows_of gid (g_community g) (next_key_id w) (next_iteration_id w) (next_consumer_id w) (ar_keys res)"
    using assms(2,3) by (simp_all add: claim_def tick_def decided_def)
  obtain announce where tail: "save_success bl gid res w = announce ?v"
    and announce: "keeps tables announce" "completes announce"
  proof
    let ?announce = "abind (with_crm_session (abind (audit_log
          \<lparr> ai_action = GENERATION_SUCCEEDED, ai_entity_type = ''generation'', ai_entity_id = Some (show_int gid),
            ai_payload = [(''algorithm_name'', JStr (g_algorithm_name g)), (''key_count'', JInt (int (length (ar_keys res))))],
            ai_source = None \<rparr> (Some (g_community g))) (\<lambda>_. worker_crm_commit))) (\<lambda>_. finished_hint bl gid (g_community g) ''success'')"
    have "read_generation gid w = (Inr (Some g), tick w)"
      using assms(1,2) by (simp add: read_generation_def outside_works tick_def)
    moreover have "outside raise_worker (claim gid (g_community g, Succeeded res)) (tick w) = (Inr True, ?v)"
      using assms(1) claimed by (simp add: outside_works)
    ultimately show "save_success bl gid res w = ?announce ?v"
      unfolding save_success_def by (simp add: abind_at)
    show "keeps tables ?announce"
      by (intro keeps_intros keeps_session keeps_tables keeps_tables_worker) (simp add: tables_def)
    show "completes ?announce"
      unfolding audit_log_def worker_crm_commit_def crm_commit_def finished_hint_def by (intro completes_intros) simp_all
  qed
  have "all_work ?v" using assms(1) by (intro all_work_claim) simp
  then obtain u w' where w': "announce ?v = (Inr u, w')" "all_work w'" using announce(2) unfolding completes_def by blast
  have "tables w' = tables ?v" using announce(1) w'(1) unfolding keeps_def by (metis snd_conv)
  then show ?thesis using that [of w'] w' v tail by (simp add: tables_def)
qed

lemma upload_is_loaded:
  assumes "g_file_storage_key g = Some key" "g_file_name g = Some name" "g_injection_name g = Some inj_col" "g_source g = FILE"
    and "store w key = Some content" "load (we_parsers wenv) content name inj_col = Inr rd" "all_work w"
  shows "load_from_file wenv (snapshot_of g) w = (Inr (Inr rd), tick w)"
proof -
  have "(atry (download key) :: (world, worker_exc, storage_error + string) act) w = (Inr (Inr content), tick w)"
    using assms(5,7) by (simp add: atry_def download_def abind_def outside_works areturn_def tick_def)
  then show ?thesis using assms(1-4,6) by (simp add: load_from_file_def snapshot_of_def abind_at parse_upload_def areturn_def)
qed

lemma algorithm_runs:
  assumes "registry_implementation (we_registry wenv) name = Inr cls" "cls_run cls ins rd = Inr res" "all_work w"
  obtains v where "(atry (run_algorithm wenv name cls ins rd) :: (world, worker_exc, worker_exc + algorithm_result) act) w = (Inr (Inr res), v)"
    "v = w \<or> v = tick w"
  using assms that by (cases "we_executor wenv") (simp_all add: atry_def run_algorithm_def alift_def algorithm_outcome_def abind_def outside_works)

text \<open>The end of the handler: the acknowledgement, and the file released.\<close>

lemma processed_is_released:
  assumes "message_generation m = Some gid" "process wenv meta gid m w = (Inr (Some key), w1)" "all_work w1"
  shows "handle_message wenv meta m w = (Inr (), (tick (tick w1)) \<lparr> replies := replies w1 @ [Ack], store := (store w1)(key := None) \<rparr>)"
proof -
  obtain ev where ev: "decode_event (msg_data m) = Some ev" "generation_id_of (de_data ev) = Some gid"
    using assms(1) by (auto simp: message_generation_def bind_eq_Some_conv)
  have "(atry (process wenv meta gid m) :: (world, worker_exc, worker_exc + terminal) act) w = (Inr (Inr (Some key)), w1)"
    using assms(2) by (simp add: atry_def)
  then have "handle_message wenv meta m w = abind (send_reply Ack) (\<lambda>_. delete_object key) w1"
    by (simp add: handle_message_def ev abind_at)
  also have "\<dots> = (Inr (), (tick (tick w1)) \<lparr> replies := replies w1 @ [Ack], store := (store w1)(key := None) \<rparr>)"
    using assms(3) by (simp add: abind_def send_reply_def delete_object_def acatch_def outside_works tick_def)
  finally show ?thesis .
qed

text \<open>A pending upload, handled by a worker to whom nothing happens.\<close>

lemma pending_upload_is_solved:
  assumes row: "generations_t w gid = Some g" "g_id g = gid" "g_status g = PENDING" "g_source g = FILE"
      "g_file_storage_key g = Some key" "g_file_name g = Some name" "g_injection_name g = Some inj_col"
    and stored: "store w key = Some content"
    and data: "load (we_parsers wenv) content name inj_col = Inr rd" "length (rd_C rd) * shape1 (rd_C rd) \<le> MAX_PROBLEM_CELLS"
    and inputs: "g_inputs g = Some j" "model_validate (we_coercion wenv) (md_input_schema meta) j = Inr ins"
    and alg: "registry_implementation (we_registry wenv) (md_name meta) = Inr cls" "cls_run cls ins rd = Inr res"
    and msg: "message_generation m = Some gid" "case delivery_count m of Some d \<Rightarrow> d < MAX_DELIVERIES | None \<Rightarrow> True"
    and works: "all_work w"
  shows "\<exists>w'. handle_message wenv meta m w = (Inr (), w') \<and> replies w' = replies w @ [Ack] \<and>
    generations_t w' gid = Some (decided (Succeeded res) g) \<and>
    keys_of gid w' = keys_of gid w @ verdict_keys gid (g_community g) (Succeeded res) \<and> store w' key = None"
proof -
  let ?sn = "snapshot_of g"
  have snapshot: "snapshot_generation gid w = (Inr (Some ?sn), tick w)"
    using works row(1) by (simp add: snapshot_generation_def read_generation_def abind_def outside_works areturn_def tick_def)
  have "store (tick w) key = Some content" using stored by (simp add: tick_def)
  moreover have "all_work (tick w)" "all_work (tick (tick w))" using works by simp_all
  ultimately have at: "store (tick w) key = Some content" "all_work (tick w)" "all_work (tick (tick w))" by blast+
  note loaded = upload_is_loaded [OF row(5,6,7,4) at(1) data(1) at(2)] and ran = algorithm_runs [OF alg at(3)]
  obtain v where run: "(atry (run_algorithm wenv (md_name meta) cls ins rd) :: (world, worker_exc, worker_exc + algorithm_result) act) (tick (tick w)) = (Inr (Inr res), v)"
    and v: "v = tick (tick w) \<or> v = tick (tick (tick w))" by (rule ran)
  have works_v: "all_work v" using v works by auto
  have same: "generations_t v = generations_t w" "keys_t v = keys_t w" "store v = store w" "replies v = replies w"
    using v by (auto simp: tick_def)
  obtain w1 where saved: "save_success (we_byte_length wenv) gid res v = (Inr (), w1)" "all_work w1"
      "generations_t w1 = (generations_t w)(gid \<mapsto> decided (Succeeded res) g)"
      "keys_t w1 = keys_t w @ key_rows_of gid (g_community g) (next_key_id v) (next_iteration_id v) (next_consumer_id v) (ar_keys res)"
    using save_success_works [of v gid g "we_byte_length wenv" res] works_v same row(1,3) by metis
  have frame: "store w1 = store w" "replies w1 = replies w"
    using frame_save(1) [OF worker_frame_fields(1)] frame_save(1) [OF worker_frame_fields(2)] saved(1) same
    unfolding keeps_def by (metis snd_conv)+
  have "(atry (save_success (we_byte_length wenv) gid res) :: (world, worker_exc, worker_exc + unit) act) v = (Inr (Inr ()), w1)"
    using saved(1) by (simp add: atry_def)
  then have persisted: "persist_result wenv gid res (Some key) v = (Inr (Some key), w1)"
    by (simp add: persist_result_def abind_at areturn_def)
  have "solve_and_save wenv meta gid m ?sn rd (tick (tick w)) = (Inr (Some key), w1)"
  proof -
    have "too_large (length (rd_C rd)) (shape1 (rd_C rd)) = None" using data(2) by simp
    then show ?thesis
      using inputs alg(1) row(5) run persisted
      by (simp add: solve_and_save_def snapshot_of_def Let_def abind_at del: too_large_None)
  qed
  then have pending: "process_pending wenv meta gid m ?sn (tick w) = (Inr (Some key), w1)"
    using loaded row(4) msg(2)
    by (auto simp: process_pending_def snapshot_of_def abind_at split: option.splits)
  have processed: "process wenv meta gid m w = (Inr (Some key), w1)"
    using snapshot pending row(3) by (simp add: process_def abind_at) (simp add: snapshot_of_def)
  note final = processed_is_released [OF msg(1) processed saved(2)]
  have "keys_of gid w1 = keys_of gid w @ verdict_keys gid (g_community g) (Succeeded res)"
    using saved(4) by (simp add: keys_of_def verdict_keys_def key_rows_generation key_rows_erased)
  then show ?thesis using final saved(3) frame by (simp add: keys_of_def tick_def)
qed

text \<open>The worker's side of the world agrees with the service's on an algorithm.\<close>

definition agrees :: "api_env \<Rightarrow> worker_env \<Rightarrow> algorithm_metadata \<Rightarrow> algorithm_class \<Rightarrow> bool" where
  "agrees env wenv meta cls \<longleftrightarrow>
     faithful (ap_coercion env) \<and> we_coercion wenv = ap_coercion env \<and> schema_ok (ap_coercion env) (md_input_schema meta) \<and>
     registry_implementation (we_registry wenv) (md_name meta) = Inr cls"

lemma fresh_generation_has_no_keys: "db_ok w \<Longrightarrow> filter (\<lambda>k. k_generation k = next_generation_id w) (keys_t w) = []"
  unfolding db_ok_def generations_ok_def keys_ok_def filter_empty_conv by (metis less_irrefl)

text \<open>C2. From the request to the result: when a start was answered with success and nothing fails
  afterwards, the worker that receives the queued message loads the stored file with the
  validated inputs, and if the algorithm returns a result on them the generation ends with status
  SUCCESS, its generated keys are exactly those of the result, in order, the message is
  acknowledged and the file is released.\<close>

theorem accepted_upload_is_solved:
  assumes "db_ok w" "start_generation env uuid req upl cid w = (Inr resp, w1)" "all_work w1"
    and "registry_metadata (ap_registry env) (gr_algorithm_name req) = Inr meta" "agrees env wenv meta cls"
    and "model_validate (ap_coercion env) (md_input_schema meta) (gr_inputs req) = Inr ins"
    and "load (we_parsers wenv) (uf_content upl) (stored_name upl) (gr_injection_name req) = Inr rd"
    and "length (rd_C rd) * shape1 (rd_C rd) \<le> MAX_PROBLEM_CELLS" "cls_run cls ins rd = Inr res"
    and "queue w1 = q @ [(subject, body)]"
  shows "\<exists>w2 g. handle_message wenv meta \<lparr> msg_data = Some body, msg_num_delivered = Some 1 \<rparr> w1 = (Inr (), w2) \<and>
    replies w2 = replies w1 @ [Ack] \<and> generations_t w2 (gp_id resp) = Some g \<and> g_status g = SUCCESS \<and>
    keys_of (gp_id resp) w2 = verdict_keys (gp_id resp) cid (Succeeded res) \<and>
    (\<exists>key. g_file_storage_key g = Some key \<and> store w1 key = Some (uf_content upl) \<and> store w2 key = None)"
proof -
  obtain meta' ins' where m: "registry_metadata (ap_registry env) (gr_algorithm_name req) = Inr meta'"
      "model_validate (ap_coercion env) (md_input_schema meta') (gr_inputs req) = Inr ins'"
    and run: "store_and_queue uuid req cid meta' ins' (uf_content upl) (stored_name upl) w = (Inr resp, w1)"
    using start_generation_outcome [OF assms(2)] by metis
  then have same: "meta' = meta" "ins' = ins" using assms(4,6) by simp_all
  let ?gid = "next_generation_id w" and ?key = "''allocations/'' @ show_int cid @ ''/'' @ uuid @ ''/'' @ stored_name upl"
  let ?g = "file_row ?gid ?key req cid meta ins (stored_name upl)" and ?m = "\<lparr> msg_data = Some body, msg_num_delivered = Some 1 \<rparr>"
  note out = store_and_queue_outcome [OF run, unfolded same]
  have body: "body = encode_event (requested_event ?gid)" using out assms(10) by simp
  have inputs: "model_validate (we_coercion wenv) (md_input_schema meta) (model_dump ins) = Inr ins"
    using assms(5,6) revalidate by (simp add: agrees_def)
  have "\<exists>w2. handle_message wenv meta ?m w1 = (Inr (), w2) \<and> replies w2 = replies w1 @ [Ack] \<and>
      generations_t w2 ?gid = Some (decided (Succeeded res) ?g) \<and>
      keys_of ?gid w2 = keys_of ?gid w1 @ verdict_keys ?gid (g_community ?g) (Succeeded res) \<and> store w2 ?key = None"
  proof (rule pending_upload_is_solved [where name = "stored_name upl" and inj_col = "gr_injection_name req" and content = "uf_content upl"
        and rd = rd and j = "model_dump ins" and ins = ins and cls = cls])
    show "message_generation ?m = Some ?gid"
      by (simp add: body message_generation_def requested_event_def encode_event_def decode_event_def generation_id_of_def)
    show "registry_implementation (we_registry wenv) (md_name meta) = Inr cls" using assms(5) by (simp add: agrees_def)
  qed (use out assms inputs in \<open>simp_all add: file_row_def delivery_count_def MAX_DELIVERIES_def\<close>)
  moreover have "keys_of ?gid w1 = []" using out fresh_generation_has_no_keys [OF assms(1)] by (simp add: keys_of_def)
  moreover have "store w1 ?key = Some (uf_content upl)" "gp_id resp = ?gid" using out by simp_all
  moreover have "g_status (decided (Succeeded res) ?g) = SUCCESS" "g_file_storage_key (decided (Succeeded res) ?g) = Some ?key" "g_community ?g = cid"
    by (simp_all add: decided_def file_row_def)
  ultimately show ?thesis by (metis append_Nil)
qed

text \<open>A service with the one algorithm of \<open>pool_env\<close>, and a worker whose reader finds one participant.\<close>

definition small_env :: api_env where
  "small_env = \<lparr> ap_registry = we_registry pool_env, ap_coercion = strict_coercion,
     ap_db = \<lparr> name_le = (\<lambda>_ _. True), surplus_order = (\<lambda>_ ks. Inr ks) \<rparr>, ap_midnight = (\<lambda>d. d * 86400),
     ap_zip = (\<lambda>_. None), ap_isoformat = show_int \<rparr>"

definition small_worker :: worker_env where
  "small_worker = pool_env \<lparr> we_coercion := strict_coercion,
     we_parsers := \<lparr> read_csv = (\<lambda>_. Inl ''csv''), read_excel = (\<lambda>_. Inr [(''a'', [1]), (''pv'', [1])]) \<rparr> \<rparr>"

definition small_request :: generate_request where
  "small_request = \<lparr> gr_name = ''run'', gr_injection_name = ''pv'', gr_algorithm_name = ''idle'', gr_inputs = JObj [] \<rparr>"

definition small_upload :: upload_file where
  "small_upload = \<lparr> uf_content = ''PK'', uf_filename = Some ''d.xlsx'' \<rparr>"

lemma small_validates: "validate_request small_env (gr_algorithm_name small_request) (gr_inputs small_request) = Inr (idle_metadata, [])"
  by (simp add: validate_request_def small_env_def small_request_def pool_env_def registry_contains_def registry_metadata_def
      dict_keys_def idle_metadata_def model_validate_def)

lemma small_size: "upload_measure (ap_zip small_env) (uf_content small_upload) ''d.xlsx'' = None"
proof -
  have "file_extension ''d.xlsx'' = ''xlsx''" by code_simp
  then show ?thesis by (simp add: upload_measure_def small_env_def)
qed

lemma small_start_is: "start_generation small_env ''u'' small_request small_upload 7 = store_and_queue ''u'' small_request 7 idle_metadata [] ''PK'' ''d.xlsx''"
proof -
  have "read_within_cap (uf_content small_upload) UPLOAD_MAX_BODY_BYTES = Inr ''PK''"
    by (simp add: read_within_cap_def read_loop_outcome small_upload_def UPLOAD_MAX_BODY_BYTES_def)
  then show ?thesis
    using small_validates small_size by (simp add: start_generation_def small_upload_def Let_def)
qed

lemma all_work_queue: "all_work (w \<lparr> queue := x \<rparr>) = all_work w" "all_work (w \<lparr> next_generation_id := n \<rparr>) = all_work w"
  by (simp_all add: all_work_def)

lemma completes_send: "completes (send_event subject ev)"
  by (auto simp: completes_def send_event_def all_work_def tick_def)

lemma completes_store_and_queue: "completes (store_and_queue uuid req cid meta ins content file_name)"
proof -
  have publish: "\<exists>x w'. publish_or_fail meta gid rollback w = (Inr x, w') \<and> all_work w'" if "all_work w" for gid rollback w
    using that completes_send [of "md_queue meta" "requested_event gid"]
    by (fastforce simp: completes_def publish_or_fail_def atry_def abind_def areturn_def)
  show ?thesis
    unfolding store_and_queue_def Let_def upload_def create_generation_def commit_generation_def api_audit_def audit_log_def
    by (intro completes_intros) (use publish in \<open>simp_all add: completes_def all_work_queue\<close>)
qed

theorem accepted_upload_is_solved_witness:
  "\<exists>resp w1 q subject body w2 g. start_generation small_env ''u'' small_request small_upload 7 quiet_world = (Inr resp, w1) \<and>
    queue w1 = q @ [(subject, body)] \<and>
    handle_message small_worker idle_metadata \<lparr> msg_data = Some body, msg_num_delivered = Some 1 \<rparr> w1 = (Inr (), w2) \<and>
    generations_t w2 (gp_id resp) = Some g \<and> g_status g = SUCCESS"
proof -
  have "all_work quiet_world" by (simp add: all_work_def quiet_world_def)
  then obtain resp w1 where start: "start_generation small_env ''u'' small_request small_upload 7 quiet_world = (Inr resp, w1)" "all_work w1"
    using completes_store_and_queue unfolding small_start_is completes_def by blast
  obtain subject body where q: "queue w1 = queue quiet_world @ [(subject, body)]"
    using store_and_queue_outcome [OF start(1) [unfolded small_start_is]] by blast
  have ok: "db_ok quiet_world" by (simp add: db_ok_def generations_ok_def keys_ok_def quiet_world_def)
  have lookup: "registry_metadata (ap_registry small_env) (gr_algorithm_name small_request) = Inr idle_metadata"
    "model_validate (ap_coercion small_env) (md_input_schema idle_metadata) (gr_inputs small_request) = Inr []"
    using small_validates by (auto simp: validate_request_def split: if_splits sum.splits)
  have agree: "agrees small_env small_worker idle_metadata idle_class"
    by (simp add: agrees_def small_env_def small_worker_def pool_env_def faithful_def strict_coercion_def schema_ok_def idle_metadata_def
        registry_implementation_def)
  have data: "load (we_parsers small_worker) (uf_content small_upload) (stored_name small_upload) (gr_injection_name small_request) =
      Inr \<lparr> rd_C = [[1]], rd_VA = [[1]], rd_consumer_names = [''a''] \<rparr>"
    by (simp add: load_def parse_file_def file_extension_def small_worker_def small_upload_def small_request_def stored_name_def
        to_algorithm_raw_data_def result_simps lower_char_def)
  have run: "cls_run idle_class [] \<lparr> rd_C = [[1]], rd_VA = [[1]], rd_consumer_names = [''a''] \<rparr> = Inr \<lparr> ar_keys = [] \<rparr>"
    by (simp add: idle_class_def)
  have "length (rd_C \<lparr> rd_C = [[1]], rd_VA = [[1]], rd_consumer_names = [''a''] \<rparr>) *
      shape1 (rd_C \<lparr> rd_C = [[1]], rd_VA = [[1]], rd_consumer_names = [''a''] \<rparr>) \<le> MAX_PROBLEM_CELLS"
    by (simp add: MAX_PROBLEM_CELLS_def shape1_def)
  from accepted_upload_is_solved [OF ok start lookup(1) agree lookup(2) data this run q] start(1) q show ?thesis by blast
qed

theorem accepted_generation_is_queued_witness:
  "\<exists>resp w' meta ins key body. start_generation small_env ''u'' small_request small_upload 7 quiet_world = (Inr resp, w') \<and>
    gp_id resp = 1 \<and> generations_t w' 1 = Some (file_row 1 key small_request 7 meta ins ''d.xlsx'') \<and> store w' key = Some ''PK'' \<and>
    queue w' = [(md_queue meta, body)] \<and>
    Option.bind (decode_event (Some body)) (\<lambda>ev. generation_id_of (de_data ev)) = Some 1"
proof -
  have "all_work quiet_world" by (simp add: all_work_def quiet_world_def)
  then obtain resp w1 where start: "start_generation small_env ''u'' small_request small_upload 7 quiet_world = (Inr resp, w1)"
    using completes_store_and_queue unfolding small_start_is completes_def by blast
  have "next_generation_id quiet_world = 1" "queue quiet_world = []" "stored_name small_upload = ''d.xlsx''" "uf_content small_upload = ''PK''"
    by (simp_all add: quiet_world_def stored_name_def small_upload_def)
  with accepted_generation_is_queued [OF start] obtain meta ins key body where
    "gp_id resp = 1" "generations_t w1 1 = Some (file_row 1 key small_request 7 meta ins ''d.xlsx'')" "store w1 key = Some ''PK''"
    "queue w1 = [(md_queue meta, body)]" "Option.bind (decode_event (Some body)) (\<lambda>ev. generation_id_of (de_data ev)) = Some 1"
    by (auto simp: Let_def)
  with start show ?thesis by blast
qed

section \<open>What is not kept\<close>

text \<open>Actions that leave the durable audit log alone when they succeed.\<close>

definition unaudited :: "(world, 'e, 'a) act \<Rightarrow> bool" where
  "unaudited m \<longleftrightarrow> (\<forall>w x w'. m w = (Inr x, w') \<longrightarrow> audit_t w' = audit_t w)"

lemma unaudited_keeps: "keeps audit_t m \<Longrightarrow> unaudited m"
  unfolding unaudited_def keeps_def by (metis snd_conv)

lemma unaudited_raise: "unaudited (araise e)"
  by (simp add: unaudited_def araise_def)

lemma unaudited_bind: "unaudited m \<Longrightarrow> (\<And>x. unaudited (f x)) \<Longrightarrow> unaudited (abind m f)"
  unfolding unaudited_def by (auto elim!: abind_outcome)

lemma unaudited_if: "unaudited m \<Longrightarrow> unaudited m' \<Longrightarrow> unaudited (if b then m else m')"
  by simp

lemma unaudited_case:
  "unaudited m \<Longrightarrow> (\<And>x. unaudited (g x)) \<Longrightarrow> unaudited (case opt of None \<Rightarrow> m | Some x \<Rightarrow> g x)"
  "(\<And>x y. unaudited (p x y)) \<Longrightarrow> unaudited (case q of (x, y) \<Rightarrow> p x y)"
  "unaudited m \<Longrightarrow> (\<And>x xs. unaudited (c x xs)) \<Longrightarrow> unaudited (case l of [] \<Rightarrow> m | x # xs \<Rightarrow> c x xs)"
  "(\<And>x. unaudited (g x)) \<Longrightarrow> unaudited (case s of Inl e \<Rightarrow> araise (h e) | Inr x \<Rightarrow> g x)"
  by (simp_all add: unaudited_raise split: option.split prod.split list.split sum.split)

lemma unaudited_default: "unaudited m \<Longrightarrow> unaudited (with_default_error e m)"
  unfolding unaudited_def with_default_error_def by (auto split: prod.splits sum.splits exc.splits)

lemma unaudited_guard:
  assumes "unaudited m"
  shows "unaudited (acatch m (\<lambda>x. abind (h x) (\<lambda>_. araise (g x))))"
  using assms unfolding unaudited_def acatch_def
  by (auto simp: abind_def araise_def split: prod.splits sum.splits)

lemma keeps_audit_t:
  "keeps audit_t (repo_get_allocation_key kid)" "keeps audit_t (repo_get_generation gid)"
  "keeps audit_t (get_list_generations db pg ps q)" "keeps audit_t (get_allocation_keys_list db gid pg ps q)"
  "keeps audit_t (create_generation g)" "keeps audit_t (commit_generation g)" "keeps audit_t flush_statement"
  "keeps audit_t (commit_delete_generation gid)" "keeps audit_t (commit_delete_key kid)" "keeps audit_t (save_allocation_key ck)"
  "keeps audit_t (delete_object key)" "keeps audit_t (upload key content)" "keeps audit_t (api_audit a e i pl)"
  "keeps audit_t caller_community" "keeps audit_t (preview_crm_data env op d1 d2 cid)"
proof -
  have tick: "audit_t (tick w) = audit_t w" for w by (simp add: tick_def)
  show "keeps audit_t (repo_get_allocation_key kid)" "keeps audit_t (repo_get_generation gid)"
    unfolding repo_get_allocation_key_def repo_get_generation_def by (intro keeps_intros keeps_outside tick; simp)+
  show "keeps audit_t (get_list_generations db pg ps q)" "keeps audit_t (get_allocation_keys_list db gid pg ps q)"
    unfolding get_list_generations_def get_allocation_keys_list_def by (intro keeps_intros keeps_outside tick; simp)+
  show "keeps audit_t (create_generation g)" "keeps audit_t (commit_generation g)" "keeps audit_t flush_statement"
    "keeps audit_t (commit_delete_generation gid)" "keeps audit_t (commit_delete_key kid)" "keeps audit_t (save_allocation_key ck)"
    unfolding create_generation_def commit_generation_def flush_statement_def commit_delete_generation_def commit_delete_key_def
      save_allocation_key_def by (intro keeps_outside tick; simp)+
  show "keeps audit_t (delete_object key)" unfolding delete_object_def by (intro keeps_intros keeps_outside tick) simp
  show "keeps audit_t (upload key content)" unfolding upload_def by (intro keeps_outside tick) simp
  show "keeps audit_t (api_audit a e i pl)" unfolding api_audit_def audit_log_def by (intro keeps_intros keeps_outside tick) simp
  show "keeps audit_t caller_community" unfolding caller_community_def by (intro keeps_intros)
  show "keeps audit_t (preview_crm_data env op d1 d2 cid)"
    unfolding preview_crm_data_def by (intro keeps_intros keeps_outside tick; simp)
qed

lemmas unaudited_steps = unaudited_bind unaudited_if unaudited_case unaudited_raise unaudited_default keeps_pure [THEN unaudited_keeps]
  keeps_audit_t [THEN unaudited_keeps]

lemma unaudited_publish: "unaudited (publish_or_fail meta gid rollback)"
  unfolding unaudited_def by (auto dest!: publish_outcome simp: tick_def)

lemma unaudited_store: "unaudited (store_and_queue uuid req cid meta ins content file_name)"
proof -
  have "unaudited (acatch (upload k content) (\<lambda>_. araise e))" for k and e :: exc
    using keeps_audit_t(12) unfolding unaudited_def acatch_def keeps_def
    by (auto simp: araise_def split: prod.splits sum.splits) (metis snd_conv)
  then show ?thesis
    unfolding store_and_queue_def Let_def by (intro unaudited_steps unaudited_guard unaudited_publish)
qed

lemma unaudited_route:
  assumes "\<nexists>kid. call = SaveKeyCall kid"
  shows "unaudited (route env call)"
proof (cases call)
  case (SaveKeyCall kid)
  with assms show ?thesis by blast
next
  case (StartGeneration upl name injection_name algorithm_name parsed_inputs)
  have "unaudited (start_generation e u rq upl cid)" for e u rq cid
    unfolding start_generation_def Let_def by (intro unaudited_steps unaudited_store)
  then have "unaudited (abind caller_community (\<lambda>cid. abind (start_generation e u rq upl cid) (\<lambda>resp. areturn (f resp))))" for e u rq f
    by (intro unaudited_steps)
  then show ?thesis unfolding StartGeneration route.simps route_defs
    by (intro unaudited_default) (auto split: option.split json.split intro: unaudited_raise)
next
  case (StartGenerationFromCrm body)
  show ?thesis unfolding StartGenerationFromCrm route.simps route_defs start_generation_from_crm_def by (intro unaudited_steps unaudited_publish)
next
  case (GetAlgorithmInputs name)
  show ?thesis unfolding GetAlgorithmInputs route.simps route_defs by (intro unaudited_steps)
qed (simp only: route.simps route_defs service_get_generations_def service_get_allocation_keys_def service_get_allocation_key_def
    service_delete_generation_def service_delete_key_def, intro unaudited_steps)+

lemma save_key_unaudited:
  assumes "service_save_key kid w = (Inr u, w')" "audit_staged w = []"
  shows "audit_t w' = audit_t w"
proof -
  let ?f = "\<lambda>w. (audit_t w, audit_staged w)"
  have keep: "keeps ?f (repo_get_allocation_key kid)" "keeps ?f (save_allocation_key ck)" for ck
    unfolding repo_get_allocation_key_def save_allocation_key_def by (intro keeps_intros keeps_outside; simp add: tick_def)+
  obtain k w1 where w1: "repo_get_allocation_key kid w = (Inr (Some k), w1)"
    and r1: "abind (save_allocation_key (to_allocation_key_crm k)) (\<lambda>ck. abind (commit_crm_key ck) (\<lambda>_.
      api_audit ALLOCATION_KEY_SAVED ''allocation_key'' (ck_id ck) [(''local_key_id'', JInt kid), (''name'', JStr (ck_name ck))])) w1 = (Inr u, w')"
    using assms(1) unfolding service_save_key_def by (auto elim!: abind_outcome simp: araise_def split: option.splits)
  from r1 obtain ck w2 w3 x where w2: "save_allocation_key (to_allocation_key_crm k) w1 = (Inr ck, w2)"
    and w3: "commit_crm_key ck w2 = (Inr x, w3)"
    and w': "api_audit ALLOCATION_KEY_SAVED ''allocation_key'' (ck_id ck) [(''local_key_id'', JInt kid), (''name'', JStr (ck_name ck))] w3 = (Inr u, w')"
    by (auto elim!: abind_outcome)
  have "?f w1 = ?f w" using keep(1) w1 unfolding keeps_def by (metis snd_conv)
  moreover have "?f w2 = ?f w1" using keep(2) w2 unfolding keeps_def by (metis snd_conv)
  moreover have "audit_t w3 = audit_t w2 @ audit_staged w2"
    using w3 by (auto simp: commit_crm_key_def outside_def tick_def split: outcome.splits)
  moreover have "audit_t w' = audit_t w3" using keeps_audit_t(13) w' unfolding keeps_def by (metis snd_conv)
  ultimately show ?thesis using assms(2) by simp
qed

lemma run_route_unaudited:
  assumes "run_route env call w = (Inr rs, w')"
  shows "audit_t w' = audit_t w"
proof -
  obtain v where v: "route env call (w \<lparr> audit_staged := [] \<rparr>) = (Inr rs, v)" "audit_t w' = audit_t v"
    using assms by (auto simp: run_route_def with_crm_session_def split: prod.splits)
  show ?thesis
  proof (cases "\<exists>kid. call = SaveKeyCall kid")
    case False
    then show ?thesis using unaudited_route [of call env] v unfolding unaudited_def by fastforce
  next
    case True
    then obtain kid where "call = SaveKeyCall kid" by blast
    then obtain u where "service_save_key (sk_id_key kid) (w \<lparr> audit_staged := [] \<rparr>) = (Inr u, v)"
      using v(1) by (auto simp: route_save_key_def with_default_error_def areturn_def split: prod.splits sum.splits exc.splits elim!: abind_outcome)
    from save_key_unaudited [OF this] v(2) show ?thesis by simp
  qed
qed

text \<open>C37. The audit log of the service stays empty: whatever a request does, when it is answered with
  success no audit entry has become durable. The entry is staged on the CRM session of the request
  after its last commit, and the session is closed without another one.\<close>

theorem successful_requests_are_not_audited:
  assumes "run_route env call w = (Inr rs, w')"
  shows "audit_t w' = audit_t w"
  using assms by (rule run_route_unaudited)

text \<open>Community 7 deletes its pending generation.\<close>

definition owner_world :: world where
  "owner_world = neighbour_world \<lparr> context_community := Some 7, store := [''generations/5.csv'' \<mapsto> ''a,pv''] \<rparr>"

lemma owner_world_ok: "db_ok owner_world"
  by (auto simp: owner_world_def neighbour_world_def quiet_world_def db_ok_def generations_ok_def keys_ok_def pending_file_row_def complete_row_def)

lemma owner_deletes: "\<exists>w'. service_delete_generation 5 owner_world = (Inr (), w')"
  by (simp add: service_delete_generation_def repo_get_generation_def flush_statement_def commit_delete_generation_def api_audit_def
      audit_log_def acatch_def abind_def aget_def outside_def tick_def owner_world_def neighbour_world_def quiet_world_def
      with_community_scope_def one_or_none_def pending_file_row_def)

theorem successful_requests_are_not_audited_witness:
  "\<forall>env. \<exists>rs w'. run_route env (DeleteGenerationCall 5) owner_world = (Inr rs, w') \<and> audit_t w' = audit_t owner_world"
proof
  fix env
  have "owner_world \<lparr> audit_staged := [] \<rparr> = owner_world" by (simp add: owner_world_def neighbour_world_def quiet_world_def)
  then have "\<exists>rs w'. run_route env (DeleteGenerationCall 5) owner_world = (Inr rs, w')"
    using owner_deletes by (auto simp: run_route_def route_delete_generation_def with_crm_session_def with_default_error_def abind_def areturn_def)
  then show "\<exists>rs w'. run_route env (DeleteGenerationCall 5) owner_world = (Inr rs, w') \<and> audit_t w' = audit_t owner_world"
    using successful_requests_are_not_audited by blast
qed

lemma missing_row_keeps_store:
  assumes "generations_t w gid = None" "message_generation m = Some gid"
  shows "store (snd (handle_message wenv meta m w)) = store w"
proof -
  obtain ev where ev: "decode_event (msg_data m) = Some ev" "generation_id_of (de_data ev) = Some gid"
    using assms(2) by (auto simp: message_generation_def bind_eq_Some_conv)
  have "process wenv meta gid m w = (Inr None, tick w) \<or> (\<exists>x. process wenv meta gid m w = (Inl (WorkerException x), tick w))"
    using assms(1)
    by (cases "outcomes w (clock w)")
       (simp_all add: process_def snapshot_generation_def read_generation_def abind_def outside_def areturn_def tick_def raise_worker_def)
  then consider "(atry (process wenv meta gid m) :: (world, worker_exc, worker_exc + terminal) act) w = (Inr (Inr None), tick w)"
    | x where "(atry (process wenv meta gid m) :: (world, worker_exc, worker_exc + terminal) act) w = (Inr (Inl (WorkerException x)), tick w)"
    by (auto simp: atry_def)
  then show ?thesis
  proof cases
    case 1
    have "keeps store (abind (send_reply Ack) (\<lambda>_. areturn ()) :: (world, worker_exc, unit) act)"
      unfolding send_reply_def by (intro keeps_intros keeps_outside) (simp_all add: tick_def)
    then show ?thesis using 1 by (simp add: handle_message_def ev abind_at keeps_def tick_def)
  next
    case 2
    have "keeps store (abind (save_failure (we_byte_length wenv) gid ''unhandled_worker_error'') (\<lambda>_. send_reply Ack))"
      unfolding send_reply_def by (intro keeps_intros frame_save worker_frame_fields keeps_outside) (simp_all add: tick_def)
    then show ?thesis using 2 by (simp add: handle_message_def ev abind_at keeps_def tick_def)
  qed
qed

lemma deletion_outcome:
  assumes "db_ok w" "service_delete_generation gid w = (Inr u, w')"
  shows "generations_t w' gid = None" "store w' = store w"
proof -
  obtain g w1 w2 w3 x y where w1: "repo_get_generation gid w = (Inr (Some g), w1)" and w2: "flush_statement w1 = (Inr x, w2)"
    and w3: "commit_delete_generation (g_id g) w2 = (Inr y, w3)"
    and w': "\<exists>a e pl. api_audit a e gid pl w3 = (Inr u, w')"
    using assms(2) unfolding service_delete_generation_def
    by (auto elim!: abind_outcome simp: araise_def split: option.splits) blast
  have "generations_t w gid = Some g"
    using w1 by (auto simp: repo_get_generation_def abind_def aget_def outside_def tick_def with_community_scope_def one_or_none_def
        split: outcome.splits option.splits if_splits list.splits)
  then have "g_id g = gid" using assms(1) by (simp add: db_ok_def generations_ok_def)
  then have "generations_t w3 gid = None" using w3 by (auto simp: commit_delete_generation_def outside_def split: outcome.splits)
  moreover have "generations_t w' = generations_t w3" "store w' = store w3"
  proof -
    obtain a e pl where run: "api_audit a e gid pl w3 = (Inr u, w')" using w' by blast
    obtain k st where "snd (api_audit a e gid pl w3) = w3 \<lparr> clock := k, audit_staged := st \<rparr>"
      using audit_outcome [of w3 a e gid pl] by blast
    then show "generations_t w' = generations_t w3" "store w' = store w3" by (simp_all add: run)
  qed
  moreover have "store w3 = store w"
    using w1 w2 w3 by (auto simp: repo_get_generation_def flush_statement_def commit_delete_generation_def abind_def aget_def outside_def tick_def
        split: outcome.splits)
  ultimately show "generations_t w' gid = None" "store w' = store w" by simp_all
qed

text \<open>The file of a deleted pending generation is never released: the deletion leaves the object store
  alone, and the worker, which finds no row for the message any more, leaves it alone as well.\<close>

theorem deleted_generation_leaves_its_file:
  assumes "db_ok w" "service_delete_generation gid w = (Inr u, w')" "message_generation m = Some gid"
  shows "generations_t w' gid = None \<and> store (snd (handle_message wenv meta m w')) = store w"
  using deletion_outcome [OF assms(1,2)] missing_row_keeps_store [OF _ assms(3), of w' wenv meta] by simp

theorem deleted_generation_leaves_its_file_witness:
  "\<exists>w'. service_delete_generation 5 owner_world = (Inr (), w') \<and>
    store (snd (handle_message pool_env idle_metadata (generation_message 5 (Some 1)) w')) ''generations/5.csv'' = Some ''a,pv''"
proof -
  obtain w' where w': "service_delete_generation 5 owner_world = (Inr (), w')" using owner_deletes by blast
  then show ?thesis
    using deleted_generation_leaves_its_file [OF owner_world_ok w' generation_message_id, of pool_env idle_metadata "Some 1"]
    by (simp add: owner_world_def)
qed

lemma mark_failed_works:
  assumes "all_work w" "generations_t w gid = Some g"
  shows "\<exists>w'. mark_failed_to_queue gid reason w = (Inr (), w') \<and> keys_t w' = keys_t w \<and> generations_t w' =
    (generations_t w)(gid \<mapsto> g \<lparr> g_status := FAILED, g_error_message := Some (take 2000 (''failed_to_queue: '' @ reason)) \<rparr>)"
proof -
  let ?g = "g \<lparr> g_status := FAILED, g_error_message := Some (take 2000 (''failed_to_queue: '' @ reason)) \<rparr>"
  let ?w = "(tick (tick w)) \<lparr> generations_t := (generations_t w)(gid \<mapsto> ?g) \<rparr>"
  obtain announce where tail: "mark_failed_to_queue gid reason w = announce ?w"
    and announce: "keeps tables announce" "completes announce"
  proof
    let ?announce = "with_crm_session (abind (audit_log
                \<lparr> ai_action = GENERATION_QUEUE_FAILED, ai_entity_type = ''generation'', ai_entity_id = Some (show_int gid),
                  ai_payload = [(''reason'', JStr (take 500 reason)), (''algorithm_name'', JStr (g_algorithm_name g))],
                  ai_source = None \<rparr> (Some (g_community g))) (\<lambda>_. api_crm_commit))"
    let ?h = "\<lambda>g. g \<lparr> g_status := FAILED, g_error_message := Some (take 2000 (''failed_to_queue: '' @ reason)) \<rparr>"
    have row: "outside raise_db (\<lambda>w. (generations_t w gid, w)) w = (Inr (Some g), tick w)"
      using assms by (simp add: outside_works) (simp add: tick_def)
    let ?mark = "outside raise_db (\<lambda>w. ((), w \<lparr> generations_t := (generations_t w)(gid := map_option ?h (generations_t w gid)) \<rparr>))"
    have marked: "?mark (tick w) = (Inr (), ?w)"
      using assms by (simp add: outside_works) (simp add: tick_def)
    show "mark_failed_to_queue gid reason w = ?announce ?w"
      unfolding mark_failed_to_queue_def abind_at [of "outside raise_db (\<lambda>w. (generations_t w gid, w))", OF row] option.case
        abind_at [of ?mark, OF marked] ..
    show "keeps tables ?announce" by (intro keeps_intros keeps_session keeps_tables) (simp add: tables_def)
    show "completes ?announce"
      unfolding audit_log_def api_crm_commit_def crm_commit_def by (intro completes_intros) simp_all
  qed
  have "all_work ?w" using assms(1) by simp
  then obtain u w' where w': "announce ?w = (Inr u, w')" using announce(2) unfolding completes_def by blast
  have "tables w' = tables ?w" using announce(1) w' unfolding keeps_def by (metis snd_conv)
  then show ?thesis using w' tail by (simp add: tables_def tick_def)
qed

text \<open>C38. A result can be lost to a late failure of the publication: a publish that timed out may have
  reached the stream all the same, and when the worker has already saved its result by the time
  the service marks the generation, the mark replaces SUCCESS by FAILED without looking at the
  status, while the generated keys stay.\<close>

theorem late_mark_discards_success:
  assumes "all_work w" "generations_t w gid = Some g" "g_status g = SUCCESS"
  shows "\<exists>w' g'. mark_failed_to_queue gid reason w = (Inr (), w') \<and> generations_t w' gid = Some g' \<and> g_status g' = FAILED \<and>
    keys_of gid w' = keys_of gid w"
  using mark_failed_works [OF assms(1,2), of reason] by (auto simp: keys_of_def)

theorem late_mark_discards_success_witness:
  "\<exists>w' g'. mark_failed_to_queue 5 ''timeout'' (quiet_world \<lparr> generations_t := [5 \<mapsto> pending_file_row \<lparr> g_status := SUCCESS \<rparr>] \<rparr>) = (Inr (), w') \<and>
    generations_t w' 5 = Some g' \<and> g_status g' = FAILED \<and>
    keys_of 5 w' = keys_of 5 (quiet_world \<lparr> generations_t := [5 \<mapsto> pending_file_row \<lparr> g_status := SUCCESS \<rparr>] \<rparr>)"
  by (rule late_mark_discards_success [where g = "pending_file_row \<lparr> g_status := SUCCESS \<rparr>"]) (simp_all add: all_work_def quiet_world_def)

text \<open>A broken connection can leave a generation pending for good: when the publication fails and the
  database fails too as the row is to be marked, the request is answered with an error, the row
  stays PENDING without any message on the queue, and the uploaded file stays in the store.\<close>

theorem outage_strands_a_generation:
  "let w = quiet_world \<lparr> outcomes := (\<lambda>i. if i < 4 then Works else Fails ''down'') \<rparr>;
       (r, w') = start_generation small_env ''u'' small_request small_upload 7 w
   in (\<exists>e. r = Inl e) \<and> queue w' = [] \<and> map_option g_status (generations_t w' 1) = Some PENDING \<and>
      (\<exists>key. store w' key = Some ''PK'' \<and> map_option g_file_storage_key (generations_t w' 1) = Some (Some key))"
  unfolding small_start_is
  by (simp add: store_and_queue_def upload_def create_generation_def commit_generation_def api_audit_def audit_log_def publish_or_fail_def
      send_event_def mark_failed_to_queue_def abind_def atry_def acatch_def areturn_def araise_def outside_def tick_def quiet_world_def Let_def)

end
