(* ===== verification/Refinement.thy ===== *)
theory Refinement
  imports Consistency
begin

text \<open>
  The system refines its specifications: handling a message is at most one atomic decision on the
  abstract store of generations and their keys, and every step of the system is a sequence of
  steps of the life cycle of theory \<open>Lifecycle\<close>.
\<close>

section \<open>The worker\<close>

text \<open>A generation with its keys, apart from their ids, and the decision of it.\<close>

type_synonym abstract_store = "int \<Rightarrow> generation_row option \<times> key_row list"

definition store_of :: "world \<Rightarrow> abstract_store" where
  "store_of w = (\<lambda>i. (generations_t w i, keys_of i w))"

definition decide :: "int \<Rightarrow> verdict \<Rightarrow> abstract_store \<Rightarrow> abstract_store" where
  "decide gid v A =
     (case A gid of
        (Some g, ks) \<Rightarrow>
          if g_status g = PENDING then A(gid := (Some (decided v g), ks @ verdict_keys gid (g_community g) v)) else A
      | _ \<Rightarrow> A)"

lemma decided_not_pending: "g_status (decided v g) \<noteq> PENDING"
  by (cases v) (simp_all add: decided_def)

lemma decide_twice: "decide gid v (decide gid v' A) = decide gid v' A"
  by (auto simp: decide_def decided_not_pending split: option.splits prod.splits)

lemma claim_decides:
  assumes "generations_t w gid = Some g"
  shows "store_of (snd (claim gid (g_community g, v) w)) = decide gid v (store_of w)"
proof (cases "g_status g = PENDING")
  case True
  have "store_of (snd (claim gid (g_community g, v) w)) i = decide gid v (store_of w) i" for i
    using claim_open [OF assms True, of "g_community g" v] claim_other [of i gid "(g_community g, v)" w] assms True
    by (cases "i = gid") (simp_all add: store_of_def decide_def)
  then show ?thesis ..
next
  case False
  then have "snd (claim gid (g_community g, v) w) = w" using assms by (simp add: claim_def)
  then show ?thesis using assms False by (simp add: decide_def store_of_def)
qed

definition decided_from :: "int \<Rightarrow> abstract_store \<Rightarrow> world \<Rightarrow> bool" where
  "decided_from gid A w \<longleftrightarrow> (store_of w = A \<or> (\<exists>v. store_of w = decide gid v A)) \<and>
     (\<forall>g. generations_t w gid = Some g \<longrightarrow> g_id g = gid)"

lemma of_tables_decided: "of_tables (decided_from gid A)"
  by (auto simp: of_tables_def tables_def decided_from_def store_of_def keys_of_def)

lemma claim_decided:
  assumes "decided_from gid A w" "generations_t w gid = Some g"
  shows "decided_from gid A (snd (claim gid (g_community g, v) w))"
proof -
  have "store_of (snd (claim gid (g_community g, v) w)) = decide gid v (store_of w)" by (rule claim_decides [OF assms(2)])
  moreover have "\<forall>h. generations_t (snd (claim gid (g_community g, v) w)) gid = Some h \<longrightarrow> g_id h = gid"
    using assms by (auto simp: decided_from_def claim_def split: verdict.splits)
  ultimately show ?thesis using assms(1) by (auto simp: decided_from_def decide_twice)
qed

lemma save_decided: "maintains (decided_from gid A) (save_success bl gid res)" "maintains (decided_from gid A) (save_failure bl gid m)"
  unfolding save_success_def save_failure_def by (rule claim_and_announce_maintains [OF of_tables_decided claim_decided]; assumption)+

interpretation one_decision: pipeline_invariant "decided_from gid A" gid for gid A
  by unfold_locales (auto intro: of_tables_decided save_decided simp: decided_from_def)

lemma message_decides:
  assumes "db_ok w" "message_generation m = Some gid"
  shows "store_of (snd (handle_message env meta m w)) = store_of w \<or>
    (\<exists>v. store_of (snd (handle_message env meta m w)) = decide gid v (store_of w))"
proof -
  have "decided_from gid (store_of w) w" using assms(1) by (simp add: decided_from_def db_ok_def generations_ok_def)
  then show ?thesis
    using one_decision.handle_message_maintains [OF assms(2), where A = "store_of w" and env = env and meta = meta]
    by (auto simp: maintains_def decided_from_def)
qed

text \<open>A message without a generation id is dropped.\<close>

lemma message_dropped:
  assumes "message_generation m = None"
  shows "store_of (snd (handle_message env meta m w)) = store_of w"
proof -
  have "of_tables (\<lambda>v. store_of v = store_of w)" by (auto simp: of_tables_def tables_def store_of_def keys_of_def)
  from unreadable_message_maintains [OF this assms, of env meta] show ?thesis by (simp add: maintains_def)
qed

section \<open>The life cycle\<close>

definition from_stages :: "(int \<Rightarrow> life_stage) \<Rightarrow> world \<Rightarrow> bool" where
  "from_stages L w \<longleftrightarrow> db_ok w \<and> life_step\<^sup>*\<^sup>* L (stage_of (generations_t w))"

lemma route_from_stages: "maintains (from_stages L) (run_route env call)"
proof (rule maintainsI)
  fix w r w' assume w: "from_stages L w" and run: "run_route env call w = (r, w')"
  have "tenant (context_community w) (started w) w'"
    using w by (intro maintainsD [OF tenant_run_route run] tenant_start) (simp add: from_stages_def)
  with w show "from_stages L w'" by (auto simp: from_stages_def tenant_def started_def)
qed

lemma request_from_stages: "maintains (from_stages L) (api_request env fresh None rq call)"
  by (rule api_request_maintains [OF _ route_from_stages]) (simp add: context_free_def from_stages_def)

lemma message_from_stages: "maintains (from_stages L) (handle_message env meta m)"
proof (rule maintainsI)
  fix w r w' assume w: "from_stages L w" and run: "handle_message env meta m w = (r, w')"
  have ok: "db_ok w'" using maintainsD [OF handle_message_ok run] w by (simp add: from_stages_def)
  have "life_step\<^sup>*\<^sup>* (stage_of (generations_t w)) (stage_of (generations_t w'))"
  proof (cases "message_generation m")
    case None
    then have "generations_t w' = generations_t w"
      using message_dropped [OF None, of env meta w] run by (simp add: store_of_def fun_eq_iff)
    then show ?thesis by simp
  next
    case (Some gid)
    consider "store_of w' = store_of w" | v where "store_of w' = decide gid v (store_of w)"
      using message_decides [OF _ Some, of w env meta] run w by (auto simp: from_stages_def)
    then show ?thesis
    proof cases
      case 1
      then have "generations_t w' = generations_t w" by (simp add: store_of_def fun_eq_iff)
      then show ?thesis by simp
    next
      case (2 v)
      show ?thesis
      proof (cases "\<exists>g. generations_t w gid = Some g \<and> g_status g = PENDING")
        case True
        then obtain g where g: "generations_t w gid = Some g" "g_status g = PENDING" by blast
        have "generations_t w' i = ((generations_t w)(gid \<mapsto> decided v g)) i" for i
          using 2 g by (auto simp: store_of_def decide_def fun_eq_iff dest: spec [of _ i])
        then have "generations_t w' = (generations_t w)(gid \<mapsto> decided v g)" ..
        with decide_row [where t = "generations_t w", OF g, of v] show ?thesis by (simp add: r_into_rtranclp)
      next
        case False
        then have "store_of w' = store_of w" using 2 by (auto simp: decide_def store_of_def split: option.splits)
        then have "generations_t w' = generations_t w" by (simp add: store_of_def fun_eq_iff)
        then show ?thesis by simp
      qed
    qed
  qed
  with w ok show "from_stages L w'" by (auto simp: from_stages_def)
qed

lemma step_from_stages:
  assumes "system_step renv wenv w w'" "from_stages L w"
  shows "from_stages L w'"
  using assms(1)
proof cases
  case (request_served fresh rq call)
  then show ?thesis using assms(2) request_from_stages unfolding maintains_def by blast
next
  case (message_handled meta m)
  then show ?thesis using assms(2) message_from_stages unfolding maintains_def by blast
next
  case elsewhere
  then show ?thesis using assms(2) by (simp add: from_stages_def db_ok_def generations_ok_def keys_ok_def)
qed

section \<open>Properties\<close>

text \<open>C4. Handling a message refines a single atomic decision: seen from outside, the whole pipeline, with its
  downloads, solves, saves and retries and whatever fails in it, either leaves every generation and
  every key as they are, or turns the one pending generation of the message into a finished one
  together with exactly the keys of its result.\<close>

theorem message_refines_one_decision:
  assumes "db_ok w" "message_generation m = Some gid"
  shows "store_of (snd (handle_message env meta m w)) \<in> insert (store_of w) (range (\<lambda>v. decide gid v (store_of w)))"
  using message_decides [OF assms, of env meta] by auto

theorem message_refines_one_decision_witness:
  "\<forall>env meta. store_of (snd (handle_message env meta (generation_message 5 (Some 1)) neighbour_world)) \<in>
     insert (store_of neighbour_world) (range (\<lambda>v. decide 5 v (store_of neighbour_world)))"
  using message_refines_one_decision [OF neighbour_world_ok generation_message_id] by blast

text \<open>The system refines the life cycle of its generations: every request, message or change elsewhere
  is a sequence of the steps submit, solve, reject, unqueue and remove. So a generation is solved or
  rejected by the worker only while it waits, no step makes a finished generation wait again,
  and nothing but its removal ends it.\<close>

theorem system_refines_life_cycle:
  assumes "db_ok w" "system_step renv wenv w w'"
  shows "life_step\<^sup>*\<^sup>* (stage_of (generations_t w)) (stage_of (generations_t w'))"
proof -
  have "from_stages (stage_of (generations_t w)) w" using assms(1) by (simp add: from_stages_def)
  from step_from_stages [OF assms(2) this] show ?thesis by (simp add: from_stages_def)
qed

theorem system_refines_life_cycle_witness:
  "\<forall>renv wenv meta. life_step\<^sup>*\<^sup>* (stage_of (generations_t neighbour_world))
     (stage_of (generations_t (snd (handle_message wenv meta (generation_message 5 (Some 1)) neighbour_world))))"
  using system_refines_life_cycle [OF neighbour_world_ok message_handled] by blast

end
