(* ===== verification/Tasks.thy ===== *)
theory Tasks
  imports Consistency
begin

text \<open>
  \<open>system_step\<close> runs a request or a message to its end; here they are cut at every access to the
  database. A task is what a request or a message still knows and means to write: the snapshot a
  worker solves, the row a request is about to commit, the generation it failed to queue, the row
  or key it looked up and will delete or copy. Between two accesses of one task all the others may
  run.

  \<open>busy_ok\<close> is the invariant of the interleaved system: the tables are consistent and what each task
  knows is still true enough for its write.
\<close>

section \<open>Tasks\<close>

text \<open>A task and the community it works for.\<close>

datatype task =
    Handling snapshot
  | Inserting generation_row
  | Queueing int int
  | Removing int generation_row
  | RemovingKey int key_row
  | Copying int key_row

fun community_of :: "task \<Rightarrow> int" where
  "community_of (Handling sn) = sn_community sn"
| "community_of (Inserting m) = g_community m"
| "community_of (Queueing c gid) = c"
| "community_of (Removing c g) = c"
| "community_of (RemovingKey c k) = c"
| "community_of (Copying c k) = c"

text \<open>The generation a task will write, if it is one.\<close>

fun target :: "task \<Rightarrow> int option" where
  "target (Handling sn) = Some (sn_id sn)"
| "target (Inserting m) = Some (g_id m)"
| "target (Queueing c gid) = Some gid"
| "target (Removing c g) = Some (g_id g)"
| "target (RemovingKey c k) = None"
| "target (Copying c k) = None"

type_synonym tasks = "nat \<Rightarrow> task option"

text \<open>A task begins with what it reads; a request reads in the context of its community.\<close>

inductive task_begins :: "world \<Rightarrow> task \<Rightarrow> world \<Rightarrow> bool" where
  snapshot_read: "snapshot_generation gid w = (Inr (Some sn), w') \<Longrightarrow> task_begins w (Handling sn) w'"
| id_drawn: "new_row (Some c) g \<Longrightarrow> create_generation g w = (Inr m, w') \<Longrightarrow> task_begins w (Inserting m) w'"
| row_found: "repo_get_generation gid (w \<lparr> context_community := Some c \<rparr>) = (Inr (Some g), w') \<Longrightarrow> task_begins w (Removing c g) w'"
| key_found: "repo_get_allocation_key kid (w \<lparr> context_community := Some c \<rparr>) = (Inr (Some k), w') \<Longrightarrow> task_begins w (RemovingKey c k) w'"
| key_read: "repo_get_allocation_key kid (w \<lparr> context_community := Some c \<rparr>) = (Inr (Some k), w') \<Longrightarrow> task_begins w (Copying c k) w'"

text \<open>A write of a task, and the task it leaves. A worker may save again after a save that failed.\<close>

inductive task_writes :: "task \<Rightarrow> world \<Rightarrow> world \<Rightarrow> task option \<Rightarrow> bool" where
  saved: "task_writes (Handling sn) w (snd (save_success bl (sn_id sn) res w)) (Some (Handling sn))"
| failed: "task_writes (Handling sn) w (snd (save_failure bl (sn_id sn) msg w)) (Some (Handling sn))"
| committed: "commit_generation m w = (Inr (), w') \<Longrightarrow> task_writes (Inserting m) w w' (Some (Queueing (g_community m) (g_id m)))"
| unqueued: "task_writes (Queueing c gid) w (snd (mark_failed_to_queue gid reason w)) (Some (Queueing c gid))"
| row_removed: "task_writes (Removing c g) w (snd (commit_delete_generation (g_id g) w)) None"
| key_removed: "task_writes (RemovingKey c k) w (snd (commit_delete_key (k_id k) w)) None"
| key_copied: "task_writes (Copying c k) w (snd (commit_crm_key ((to_allocation_key_crm k) \<lparr> ck_id := i \<rparr>) w)) None"

text \<open>What the steps of this theory see of the world: the tables without the context of a request.\<close>

definition rows :: "world \<Rightarrow> (int \<Rightarrow> generation_row option) \<times> int \<times> key_row list \<times> int \<times> crm_key_row list" where
  "rows w = (generations_t w, next_generation_id w, keys_t w, next_key_id w, crm_keys_t w)"

text \<open>
  \<open>unseen\<close> is all that happens besides: downloads, solves, publications, replies, other context,
  changes of the other services' data. A task that begins takes the place of the one before.
\<close>

inductive task_step :: "world \<times> tasks \<Rightarrow> world \<times> tasks \<Rightarrow> bool" where
  unseen: "rows w' = rows w \<Longrightarrow> task_step (w, T) (w', T)"
| begins: "task_begins w k w' \<Longrightarrow> task_step (w, T) (w', T(j \<mapsto> k))"
| writes: "T j = Some k \<Longrightarrow> task_writes k w w' k' \<Longrightarrow> task_step (w, T) (w', T(j := k'))"
| ends: "task_step (w, T) (w, T(j := None))"

section \<open>What a task knows\<close>

text \<open>What a worker has read is still the request of its generation, if that exists.\<close>

definition fits :: "world \<Rightarrow> snapshot \<Rightarrow> bool" where
  "fits w sn \<longleftrightarrow> sn_id sn < next_generation_id w \<and>
     (\<forall>g. generations_t w (sn_id sn) = Some g \<longrightarrow> snapshot_of (g \<lparr> g_status := sn_status sn \<rparr>) = sn)"

fun knows :: "world \<Rightarrow> task \<Rightarrow> bool" where
  "knows w (Handling sn) \<longleftrightarrow> fits w sn"
| "knows w (Inserting m) \<longleftrightarrow> complete_row m \<and> g_status m = PENDING \<and> 0 < g_id m \<and> g_id m < next_generation_id w \<and>
     generations_t w (g_id m) = None"
| "knows w (Queueing c gid) \<longleftrightarrow> gid < next_generation_id w \<and> (\<forall>g. generations_t w gid = Some g \<longrightarrow> g_community g = c)"
| "knows w (Removing c g) \<longleftrightarrow> g_id g < next_generation_id w \<and> (\<forall>h. generations_t w (g_id g) = Some h \<longrightarrow> g_community h = c)"
| "knows w (RemovingKey c k) \<longleftrightarrow> k_id k < next_key_id w \<and> (\<forall>k'\<in>set (keys_t w). k_id k' = k_id k \<longrightarrow> k_community k' = c)"
| "knows w (Copying c k) \<longleftrightarrow> k_community k = c"

text \<open>Nobody else works on a row whose insertion is under way.\<close>

definition alone :: "tasks \<Rightarrow> bool" where
  "alone T \<longleftrightarrow> (\<forall>i j m k. T i = Some (Inserting m) \<longrightarrow> T j = Some k \<longrightarrow> target k = Some (g_id m) \<longrightarrow> i = j)"

definition busy_ok :: "world \<times> tasks \<Rightarrow> bool" where
  "busy_ok s \<longleftrightarrow> db_ok (fst s) \<and> (\<forall>j k. snd s j = Some k \<longrightarrow> knows (fst s) k) \<and> alone (snd s)"

section \<open>Stability\<close>

text \<open>A row that is there was there, with its request; sequences grow; a key with an old id is an old key.\<close>

definition steady :: "world \<Rightarrow> world \<Rightarrow> int \<Rightarrow> bool" where
  "steady w w' i \<longleftrightarrow> (\<forall>g. generations_t w' i = Some g \<longrightarrow> (\<exists>h. generations_t w i = Some h \<and> request_of h = request_of g))"

definition grown :: "world \<Rightarrow> world \<Rightarrow> bool" where
  "grown w w' \<longleftrightarrow> next_generation_id w \<le> next_generation_id w' \<and> next_key_id w \<le> next_key_id w' \<and>
     (\<forall>k\<in>set (keys_t w'). k_id k < next_key_id w \<longrightarrow> k \<in> set (keys_t w))"

lemma snapshot_of_request: "request_of h = request_of g \<Longrightarrow> snapshot_of (h \<lparr> g_status := st \<rparr>) = snapshot_of (g \<lparr> g_status := st \<rparr>)"
  by (cases h; cases g) (simp add: request_of_def snapshot_of_def)

lemma snapshot_status: "snapshot_of g = (snapshot_of (g \<lparr> g_status := st \<rparr>)) \<lparr> sn_status := g_status g \<rparr>"
  by (simp add: snapshot_of_def)

lemma request_community: "request_of h = request_of g \<Longrightarrow> g_community h = g_community g"
  by (cases h; cases g) (simp add: request_of_def)

lemma steadyD: "steady w w' i \<Longrightarrow> generations_t w' i = Some g \<Longrightarrow> \<exists>h. generations_t w i = Some h \<and> request_of h = request_of g"
  by (simp add: steady_def)

lemma steady_community:
  assumes "steady w w' i" "\<forall>h. generations_t w i = Some h \<longrightarrow> g_community h = c" "generations_t w' i = Some g"
  shows "g_community g = c"
  using steadyD [OF assms(1,3)] assms(2) request_community by metis

lemma knows_stable:
  assumes "knows w k" "grown w w'" "\<And>i. target k = Some i \<Longrightarrow> steady w w' i"
  shows "knows w' k"
proof (cases k)
  case (Handling sn)
  then have fit: "fits w sn" and steady: "steady w w' (sn_id sn)" using assms by simp_all
  have "snapshot_of (g \<lparr> g_status := sn_status sn \<rparr>) = sn" if g: "generations_t w' (sn_id sn) = Some g" for g
  proof -
    obtain h where "generations_t w (sn_id sn) = Some h" "request_of h = request_of g" using steadyD [OF steady g] by blast
    then show ?thesis using fit snapshot_of_request [of h g "sn_status sn"] by (simp add: fits_def)
  qed
  then show ?thesis using fit assms(2) Handling by (auto simp: fits_def grown_def)
next
  case (Inserting m)
  then show ?thesis using assms by (auto simp: grown_def steady_def)
next
  case (Queueing c gid)
  then have "\<forall>h. generations_t w gid = Some h \<longrightarrow> g_community h = c" "steady w w' gid" using assms by simp_all
  then have "\<forall>g. generations_t w' gid = Some g \<longrightarrow> g_community g = c" using steady_community by blast
  then show ?thesis using assms(1,2) Queueing by (simp add: grown_def)
next
  case (Removing c g)
  then have "\<forall>h. generations_t w (g_id g) = Some h \<longrightarrow> g_community h = c" "steady w w' (g_id g)" using assms by simp_all
  then have "\<forall>h. generations_t w' (g_id g) = Some h \<longrightarrow> g_community h = c" using steady_community by blast
  then show ?thesis using assms(1,2) Removing by (simp add: grown_def)
next
  case (RemovingKey c k)
  then show ?thesis using assms by (auto simp: grown_def)
next
  case (Copying c k)
  then show ?thesis using assms by simp
qed

lemma same_rows:
  assumes "rows w' = rows w"
  shows "db_ok w' = db_ok w" "grown w w'" "steady w w' i"
  using assms by (auto simp: rows_def db_ok_def generations_ok_def keys_ok_def grown_def steady_def)

lemma alike_rows:
  assumes "rows v = rows v'"
  shows "db_ok v = db_ok v'" "grown w v = grown w v'" "steady w v i = steady w v' i" "foreign c v = foreign c v'"
  using assms by (auto simp: rows_def db_ok_def generations_ok_def keys_ok_def grown_def steady_def foreign_def)

text \<open>The saves of a worker.\<close>

definition kept_from :: "world \<Rightarrow> world \<Rightarrow> bool" where
  "kept_from w v \<longleftrightarrow> db_ok v \<and> grown w v \<and> (\<forall>i. steady w v i)"

lemma of_tables_kept: "of_tables (kept_from w)"
  by (auto simp: of_tables_def tables_def kept_from_def db_ok_def generations_ok_def keys_ok_def grown_def steady_def)

lemma claim_kept:
  assumes "kept_from w v" "generations_t v gid = Some g"
  shows "kept_from w (snd (claim gid (g_community g, verdict) v))"
proof -
  have ok: "db_ok (snd (claim gid (g_community g, verdict) v))" using assms by (intro claim_ok) (simp_all add: kept_from_def)
  obtain h where h: "generations_t w gid = Some h" "request_of h = request_of g"
    using assms by (auto simp: kept_from_def dest: steadyD)
  have steady: "steady w (snd (claim gid (g_community g, verdict) v)) i" for i
    using assms h by (auto simp: kept_from_def steady_def claim_def split: verdict.split)
  have "next_key_id v \<le> k_id k" if "k \<in> set (key_rows_of gid c (next_key_id v) i n ks)" for k c i n ks
    using new_keys(2) [OF that] by simp
  then have "grown w (snd (claim gid (g_community g, verdict) v))"
    using assms by (fastforce simp: kept_from_def grown_def claim_def split: verdict.split)
  with ok steady show ?thesis by (simp add: kept_from_def)
qed

lemma save_kept: "maintains (kept_from w) (save_success bl gid res)" "maintains (kept_from w) (save_failure bl gid msg)"
  unfolding save_success_def save_failure_def by (rule claim_and_announce_maintains [OF of_tables_kept claim_kept]; assumption)+

lemma kept_start: "db_ok w \<Longrightarrow> kept_from w w"
  by (auto simp: kept_from_def grown_def steady_def)

lemma saves_kept:
  assumes "db_ok w"
  shows "kept_from w (snd (save_success bl gid res w))" "kept_from w (snd (save_failure bl gid msg w))"
  using save_kept [of w] kept_start [OF assms] unfolding maintains_def by blast+

text \<open>The other writes.\<close>

lemma commit_result: "commit_generation m w = (Inr (), w') \<Longrightarrow> rows w' = rows (w \<lparr> generations_t := (generations_t w)(g_id m \<mapsto> m) \<rparr>)"
  by (auto simp: commit_generation_def outside_def tick_def rows_def split: outcome.splits)

lemma insertion_ok:
  assumes "db_ok w" "knows w (Inserting m)"
  shows "db_ok (w \<lparr> generations_t := (generations_t w)(g_id m \<mapsto> m) \<rparr>)"
proof -
  have "k_generation k \<noteq> g_id m" if "k \<in> set (keys_t w)" for k
    using assms that by (auto simp: db_ok_def keys_ok_def)
  then show ?thesis using assms by (auto simp: db_ok_def generations_ok_def keys_ok_def)
qed

lemma mark_ok:
  assumes "db_ok w"
  shows "db_ok (mark_row gid reason w)" "grown w (mark_row gid reason w)" "steady w (mark_row gid reason w) i"
proof -
  show "db_ok (mark_row gid reason w)"
  proof (cases "generations_t w gid")
    case None
    then have "(generations_t w)(gid := None) = generations_t w" by (intro fun_upd_idem)
    then show ?thesis using assms None by (simp add: mark_row_def)
  next
    case (Some g)
    from decide_row_ok [OF assms Some, of "g \<lparr> g_status := FAILED, g_error_message := Some (take 2000 (''failed_to_queue: '' @ reason)) \<rparr>"]
    show ?thesis by (simp add: mark_row_def Some)
  qed
qed (auto simp: mark_row_def grown_def steady_def)

lemma remove_ok:
  assumes "db_ok w"
  shows "db_ok (remove_row gid w)" "grown w (remove_row gid w)" "steady w (remove_row gid w) i"
    "db_ok (remove_key kid w)" "grown w (remove_key kid w)" "steady w (remove_key kid w) i"
    "db_ok (add_crm_key ck w)" "grown w (add_crm_key ck w)" "steady w (add_crm_key ck w) i"
  using assms
  by (auto simp: remove_row_def remove_key_def add_crm_key_def grown_def steady_def db_ok_def generations_ok_def keys_ok_def distinct_map_filter)

text \<open>The statements of the service have these effects, or none.\<close>

lemma mark_idem: "mark_row gid reason (mark_row gid reason w) = mark_row gid reason w"
proof -
  have twice: "t(i := map_option h (t i), i := map_option h ((t(i := map_option h (t i))) i)) = t(i := map_option h (t i))"
    if "\<And>g. h (h g) = h g" for t :: "int \<Rightarrow> generation_row option" and i h
    using that by (cases "t i") simp_all
  show ?thesis unfolding mark_row_def using twice [of "\<lambda>g. g \<lparr> g_status := FAILED, g_error_message := m \<rparr>" "generations_t w" gid for m] by simp
qed

lemma mark_rows: "rows v = rows w \<Longrightarrow> rows (mark_row gid reason v) = rows (mark_row gid reason w)"
  by (simp add: rows_def mark_row_def)

lemma mark_effect: "rows (snd (mark_failed_to_queue gid reason w)) \<in> {rows w, rows (mark_row gid reason w)}"
proof -
  let ?P = "\<lambda>v. rows v = rows w \<or> rows v = rows (mark_row gid reason w)"
  have "of_tables ?P" by (auto simp: of_tables_def tables_def rows_def)
  moreover have "?P (mark_row gid reason v)" if "?P v" for v
    using that mark_rows [of v w gid reason] mark_rows [of v "mark_row gid reason w" gid reason] mark_idem [of gid reason w] by metis
  ultimately have "maintains ?P (mark_failed_to_queue gid reason)" by (rule marking_maintains)
  then show ?thesis by (auto simp: maintains_def)
qed

lemma delete_effects:
  "rows (snd (commit_delete_generation gid w)) \<in> {rows w, rows (remove_row gid w)}"
  "rows (snd (commit_delete_key kid w)) \<in> {rows w, rows (remove_key kid w)}"
  "rows (snd (commit_crm_key ck w)) \<in> {rows w, rows (add_crm_key ck w)}"
  by (auto simp: commit_delete_generation_def commit_delete_key_def commit_crm_key_def outside_def tick_def rows_def
      remove_row_def remove_key_def add_crm_key_def split: outcome.splits)

lemma effect_ok:
  assumes "rows w' \<in> {rows w, rows v}" "db_ok w" "db_ok v" "grown w v" "steady w v i"
  shows "db_ok w'" "grown w w'" "steady w w' i"
  using assms same_rows [of w' w] alike_rows [of w' v] by auto

lemma effect_foreign: "rows w' \<in> {rows w, rows v} \<Longrightarrow> foreign c v = foreign c w \<Longrightarrow> foreign c w' = foreign c w"
  using alike_rows(4) [of w' w c] alike_rows(4) [of w' v c] by (simp only: insert_iff empty_iff) metis

text \<open>What a task reads, and how the tables look then.\<close>

lemma read_rows:
  "snapshot_generation gid w = (r, w') \<Longrightarrow> rows w' = rows w"
  "repo_get_generation gid (w \<lparr> context_community := c \<rparr>) = (r', w') \<Longrightarrow> rows w' = rows w"
  "repo_get_allocation_key kid (w \<lparr> context_community := c \<rparr>) = (r'', w') \<Longrightarrow> rows w' = rows w"
  by (auto simp: snapshot_generation_def read_generation_def repo_get_generation_def repo_get_allocation_key_def abind_def aget_def
      outside_def tick_def areturn_def rows_def split: prod.splits sum.splits outcome.splits)

lemma snapshot_row:
  "snapshot_generation gid w = (Inr (Some sn), w') \<Longrightarrow> \<exists>g. generations_t w' gid = Some g \<and> sn = snapshot_of g"
  by (auto simp: snapshot_generation_def abind_def areturn_def split: prod.splits sum.splits dest!: read_generation_row)

lemma drawn_row:
  "create_generation g w = (Inr m, w') \<Longrightarrow> m = g \<lparr> g_id := next_generation_id w \<rparr> \<and> rows w' = rows (w \<lparr> next_generation_id := next_generation_id w + 1 \<rparr>)"
  by (auto simp: create_generation_def outside_def tick_def rows_def split: outcome.splits)

lemma read_fits:
  assumes "snapshot_generation gid w = (Inr (Some sn), w')" "db_ok w'"
  shows "fits w' sn"
proof -
  obtain g where g: "generations_t w' gid = Some g" "sn = snapshot_of g" using snapshot_row [OF assms(1)] by blast
  then have "g_id g = gid" "gid < next_generation_id w'" using assms(2) by (auto simp: db_ok_def generations_ok_def)
  then show ?thesis using g by (simp add: fits_def snapshot_of_def)
qed

lemma draw_ok:
  assumes "create_generation g w = (Inr m, w')" "new_row (Some c) g" "db_ok w"
  shows "db_ok w'" "grown w w'" "steady w w' i" "knows w' (Inserting m)"
proof -
  note m = drawn_row [OF assms(1)]
  have absent: "generations_t w (next_generation_id w) = None"
  proof (cases "generations_t w (next_generation_id w)")
    case (Some h)
    then show ?thesis using assms(3) by (auto simp: db_ok_def generations_ok_def)
  qed simp
  show "db_ok w'" "grown w w'" using m assms(3) by (force simp: rows_def db_ok_def generations_ok_def keys_ok_def grown_def)+
  show "steady w w' i" "knows w' (Inserting m)"
    using m absent assms(2,3) by (simp_all add: rows_def new_row_def steady_def db_ok_def generations_ok_def)
qed

text \<open>Lookups in the context of community \<open>c\<close>.\<close>

lemma row_lookup:
  assumes "repo_get_generation gid (w \<lparr> context_community := Some c \<rparr>) = (Inr (Some g), w')"
  shows "generations_t w' gid = Some g" "g_community g = c"
  using assms repo_generation_own [of "Some c" "w \<lparr> context_community := Some c \<rparr>" gid g w'] by (simp_all add: caller_def)

lemma key_lookup:
  assumes "repo_get_allocation_key kid (w \<lparr> context_community := Some c \<rparr>) = (Inr (Some k), w')"
  shows "k \<in> set (keys_t w')" "k_community k = c"
  using assms repo_key_own [of "Some c" "w \<lparr> context_community := Some c \<rparr>" kid k w'] by (simp_all add: caller_def)

lemma begin_ok:
  assumes "task_begins w k w'" "db_ok w"
  shows "db_ok w'" "grown w w'" "steady w w' i" "knows w' k"
proof -
  have "db_ok w' \<and> grown w w' \<and> steady w w' i \<and> knows w' k"
    using assms(1)
  proof cases
    case (snapshot_read gid sn)
    note same = same_rows [OF read_rows(1) [OF snapshot_read(2)]]
    have "db_ok w'" using assms(2) same(1) by simp
    with same assms(2) snapshot_read(1) read_fits [OF snapshot_read(2)] show ?thesis by simp
  next
    case (id_drawn c g m)
    from draw_ok [OF id_drawn(3,2) assms(2)] id_drawn(1) show ?thesis by blast
  next
    case (row_found gid c g)
    note same = same_rows [OF read_rows(2) [OF row_found(2)]]
    note g = row_lookup [OF row_found(2)]
    have "db_ok w'" using assms(2) same(1) by simp
    then have "g_id g = gid" "gid < next_generation_id w'" using g(1) by (auto simp: db_ok_def generations_ok_def)
    with same assms(2) row_found(1) g show ?thesis by simp
  next
    case (key_found kid c key)
    note same = same_rows [OF read_rows(3) [OF key_found(2)]]
    note key = key_lookup [OF key_found(2)]
    have ok: "db_ok w'" using assms(2) same(1) by simp
    then have "k' = key" if "k' \<in> set (keys_t w')" "k_id k' = k_id key" for k'
      using that key(1) by (auto simp: db_ok_def keys_ok_def distinct_map dest: inj_onD)
    then show ?thesis using same assms(2) key_found(1) key ok by (auto simp: db_ok_def keys_ok_def)
  next
    case (key_read kid c key)
    note same = same_rows [OF read_rows(3) [OF key_read(2)]]
    from same assms(2) key_read(1) key_lookup(2) [OF key_read(2)] show ?thesis by simp
  qed
  then show "db_ok w'" "grown w w'" "steady w w' i" "knows w' k" by blast+
qed

section \<open>The invariant of the interleaved system\<close>

lemma known_target: "knows w k \<Longrightarrow> target k = Some i \<Longrightarrow> i < next_generation_id w"
  by (cases k) (auto simp: fits_def)

lemma begun_target:
  assumes "task_begins w k w'" "db_ok w" "target k = Some i"
  shows "generations_t w i \<noteq> None \<or> i = next_generation_id w"
  using assms(1)
proof cases
  case (snapshot_read gid sn)
  obtain g where g: "generations_t w' gid = Some g" "sn = snapshot_of g" using snapshot_row [OF snapshot_read(2)] by blast
  then have "generations_t w gid = Some g" using read_rows(1) [OF snapshot_read(2)] by (simp add: rows_def)
  moreover from this have "g_id g = gid" using assms(2) by (simp add: db_ok_def generations_ok_def)
  ultimately show ?thesis using snapshot_read(1) g(2) assms(3) by (simp add: snapshot_of_def)
next
  case (id_drawn c g m)
  with drawn_row [OF id_drawn(3)] assms(3) show ?thesis by simp
next
  case (row_found gid c g)
  have "generations_t w gid = Some g" using row_lookup(1) [OF row_found(2)] read_rows(2) [OF row_found(2)] by (simp add: rows_def)
  moreover from this have "g_id g = gid" using assms(2) by (simp add: db_ok_def generations_ok_def)
  ultimately show ?thesis using row_found(1) assms(3) by simp
qed (use assms(3) in simp_all)

lemma alone_begin:
  assumes "alone T" "\<And>i m. T i = Some (Inserting m) \<Longrightarrow> target k \<noteq> Some (g_id m)"
    "\<And>i k' m. T i = Some k' \<Longrightarrow> k = Inserting m \<Longrightarrow> target k' \<noteq> Some (g_id m)"
  shows "alone (T(j \<mapsto> k))"
  using assms unfolding alone_def by (metis fun_upd_apply option.inject)

lemma alone_replace:
  assumes "alone T" "T j = Some k" "\<And>k''. k' = Some k'' \<Longrightarrow> target k'' = target k \<and> (\<forall>m. k'' \<noteq> Inserting m)"
  shows "alone (T(j := k'))"
  using assms unfolding alone_def by (metis fun_upd_apply)

lemma busyD:
  "busy_ok (w, T) \<Longrightarrow> db_ok w" "busy_ok (w, T) \<Longrightarrow> T j = Some k \<Longrightarrow> knows w k" "busy_ok (w, T) \<Longrightarrow> alone T"
  by (simp_all add: busy_ok_def)

text \<open>A task is replaced, the others know what they knew.\<close>

lemma busy_replace:
  assumes "busy_ok (w, T)" "db_ok w'" "grown w w'" "alone (T(j := k))" "\<And>k'. k = Some k' \<Longrightarrow> knows w' k'"
    "\<And>j' k' i. j' \<noteq> j \<Longrightarrow> T j' = Some k' \<Longrightarrow> target k' = Some i \<Longrightarrow> steady w w' i"
  shows "busy_ok (w', T(j := k))"
proof -
  have "knows w' k'" if "(T(j := k)) j' = Some k'" for j' k'
  proof (cases "j' = j")
    case False
    with that have "T j' = Some k'" by simp
    with False show ?thesis using assms(6) knows_stable [OF busyD(2) [OF assms(1)] assms(3)] by blast
  qed (use that assms(5) in simp)
  then show ?thesis using assms(2,4) by (simp add: busy_ok_def)
qed

lemma begin_busy:
  assumes "busy_ok (w, T)" "task_begins w k w'"
  shows "busy_ok (w', T(j \<mapsto> k))"
proof (rule busy_replace [OF assms(1)])
  note begun = begin_ok [OF assms(2) busyD(1) [OF assms(1)]]
  show "db_ok w'" "grown w w'" by (rule begun)+
  show "steady w w' i" for i by (rule begun(3))
  show "knows w' k'" if "Some k = Some k'" for k' using that begun(4) by simp
  show "alone (T(j \<mapsto> k))"
  proof (rule alone_begin)
    show "alone T" by (rule busyD(3) [OF assms(1)])
    show "target k \<noteq> Some (g_id m)" if T: "T i = Some (Inserting m)" for i m
      using begun_target [OF assms(2) busyD(1) [OF assms(1)], of "g_id m"] busyD(2) [OF assms(1) T] by auto
    show "target k' \<noteq> Some (g_id m)" if T: "T i = Some k'" "k = Inserting m" for i k' m
    proof -
      have "g_id m = next_generation_id w" using assms(2) T(2) by cases (auto dest: drawn_row)
      then show ?thesis using known_target [OF busyD(2) [OF assms(1) T(1)], of "g_id m"] by auto
    qed
  qed
qed

inductive_cases inserting_writes: "task_writes (Inserting m) w w' k'"

lemma update_kept:
  assumes "task_writes k w w' k'" "db_ok w" "\<nexists>m. k = Inserting m"
  shows "kept_from w w'" "k' = Some k'' \<Longrightarrow> k'' = k"
proof -
  have "db_ok w' \<and> grown w w' \<and> (\<forall>i. steady w w' i)"
    using assms(1)
  proof cases
    case (saved sn bl res)
    with saves_kept(1) [OF assms(2)] show ?thesis by (simp add: kept_from_def)
  next
    case (failed sn bl msg)
    with saves_kept(2) [OF assms(2)] show ?thesis by (simp add: kept_from_def)
  next
    case (committed m)
    with assms(3) show ?thesis by blast
  next
    case (unqueued c gid reason)
    with effect_ok [OF mark_effect assms(2) mark_ok [OF assms(2)]] show ?thesis by blast
  next
    case (row_removed c g)
    with effect_ok [OF delete_effects(1) assms(2) remove_ok(1-3) [OF assms(2)]] show ?thesis by blast
  next
    case (key_removed c k)
    with effect_ok [OF delete_effects(2) assms(2) remove_ok(4-6) [OF assms(2)]] show ?thesis by blast
  next
    case (key_copied c k i)
    with effect_ok [OF delete_effects(3) assms(2) remove_ok(7-9) [OF assms(2)]] show ?thesis by blast
  qed
  then show "kept_from w w'" by (simp add: kept_from_def)
  show "k'' = k" if "k' = Some k''" using assms(1,3) that by cases auto
qed

lemma insertion_kept:
  assumes "task_writes (Inserting m) w w' k'" "db_ok w" "knows w (Inserting m)"
  shows "db_ok w' \<and> grown w w' \<and> knows w' (Queueing (g_community m) (g_id m)) \<and> k' = Some (Queueing (g_community m) (g_id m)) \<and>
    (i \<noteq> g_id m \<longrightarrow> steady w w' i)"
  using assms(1)
proof (rule inserting_writes)
  assume k': "k' = Some (Queueing (g_community m) (g_id m))" and commit: "commit_generation m w = (Inr (), w')"
  note row = commit_result [OF commit]
  have "db_ok w'" using same_rows(1) [OF row] insertion_ok [OF assms(2,3)] by blast
  moreover have "g_id m < next_generation_id w" using assms(3) by simp
  ultimately show ?thesis using row k' by (auto simp: rows_def grown_def steady_def)
qed

lemma write_ok:
  assumes "task_writes k w w' k'" "db_ok w" "knows w k"
  shows "db_ok w'" "grown w w'" "k' = Some k'' \<Longrightarrow> knows w' k''"
    "k' = Some k'' \<Longrightarrow> target k'' = target k \<and> (\<forall>m. k'' \<noteq> Inserting m)"
    "(\<And>m. k = Inserting m \<Longrightarrow> i \<noteq> g_id m) \<Longrightarrow> steady w w' i"
proof -
  have "db_ok w' \<and> grown w w' \<and> (k' = Some k'' \<longrightarrow> knows w' k'' \<and> target k'' = target k \<and> (\<forall>m. k'' \<noteq> Inserting m)) \<and>
    ((\<forall>m. k = Inserting m \<longrightarrow> i \<noteq> g_id m) \<longrightarrow> steady w w' i)"
  proof (cases "\<exists>m. k = Inserting m")
    case True
    then obtain m where k: "k = Inserting m" by blast
    from insertion_kept [OF assms(1) [unfolded k] assms(2) assms(3) [unfolded k], of i] show ?thesis
      unfolding k by (auto simp del: knows.simps)
  next
    case False
    note kept = update_kept [OF assms(1,2) False]
    from kept(1) have "db_ok w'" "grown w w'" "\<And>i. steady w w' i" by (simp_all add: kept_from_def)
    with knows_stable [OF assms(3)] kept(2) False show ?thesis by blast
  qed
  then show "db_ok w'" "grown w w'" "k' = Some k'' \<Longrightarrow> knows w' k''"
    "k' = Some k'' \<Longrightarrow> target k'' = target k \<and> (\<forall>m. k'' \<noteq> Inserting m)"
    "(\<And>m. k = Inserting m \<Longrightarrow> i \<noteq> g_id m) \<Longrightarrow> steady w w' i"
    by blast+
qed

lemma write_busy:
  assumes "busy_ok (w, T)" "T j = Some k" "task_writes k w w' k'"
  shows "busy_ok (w', T(j := k'))"
proof (rule busy_replace [OF assms(1)])
  note written = write_ok [OF assms(3) busyD(1) [OF assms(1)] busyD(2) [OF assms(1,2)]]
  show "db_ok w'" "grown w w'" by (rule written)+
  show "knows w' k''" if "k' = Some k''" for k'' using written(3) that .
  show "alone (T(j := k'))" using written(4) by (intro alone_replace [OF busyD(3) [OF assms(1)] assms(2)])
  show "steady w w' i" if "j' \<noteq> j" "T j' = Some t" "target t = Some i" for j' t i
  proof (rule written(5))
    show "i \<noteq> g_id m" if "k = Inserting m" for m
      using busyD(3) [OF assms(1)] assms(2) that \<open>j' \<noteq> j\<close> \<open>T j' = Some t\<close> \<open>target t = Some i\<close> unfolding alone_def by metis
  qed
qed

lemma task_step_busy: "task_step s s' \<Longrightarrow> busy_ok s \<Longrightarrow> busy_ok s'"
proof (induction rule: task_step.induct)
  case (unseen w' w T)
  then show ?case using same_rows [OF unseen(1)] knows_stable unfolding busy_ok_def fst_conv snd_conv by metis
next
  case (begins w k w' T j)
  then show ?case by (intro begin_busy)
next
  case (writes T j k w w' k')
  then show ?case by (intro write_busy)
next
  case (ends w T j)
  then show ?case by (auto simp: busy_ok_def alone_def)
qed

lemma tasks_busy: "task_step\<^sup>*\<^sup>* s s' \<Longrightarrow> busy_ok s \<Longrightarrow> busy_ok s'"
  by (induction rule: rtranclp_induct) (auto intro: task_step_busy)

definition idle :: tasks where
  "idle = (\<lambda>_. None)"

lemma idle_busy: "db_ok w \<Longrightarrow> busy_ok (w, idle)"
  by (simp add: busy_ok_def alone_def idle_def)

section \<open>Everybody stays at home\<close>

definition home_kept :: "int option \<Rightarrow> world \<Rightarrow> int \<Rightarrow> world \<Rightarrow> bool" where
  "home_kept ctx w gid v \<longleftrightarrow> foreign ctx v = foreign ctx w \<and> (\<forall>g. generations_t v gid = Some g \<longrightarrow> Some (g_community g) = ctx)"

lemma foreign_keys:
  "filter (\<lambda>k. Some (k_community k) \<noteq> ctx) ks = [] \<Longrightarrow>
    foreign ctx (u \<lparr> generations_t := t, keys_t := keys_t u @ ks, next_key_id := a, next_iteration_id := b, next_consumer_id := c \<rparr>) =
      foreign ctx (u \<lparr> generations_t := t \<rparr>)"
  by (simp add: foreign_def)

lemma save_home:
  assumes "home_kept ctx w gid w"
  shows "foreign ctx (snd (save_success bl gid res w)) = foreign ctx w" "foreign ctx (snd (save_failure bl gid msg w)) = foreign ctx w"
proof -
  have tables: "of_tables (home_kept ctx w gid)" by (auto simp: of_tables_def tables_def home_kept_def foreign_def)
  have key: "k_community k = c" if "k \<in> set (key_rows_of gid c n i m ks)" for k c n i m ks using new_keys(2) [OF that] by simp
  have claim: "home_kept ctx w gid (snd (claim gid (g_community g, v) u))" if u: "home_kept ctx w gid u" "generations_t u gid = Some g" for v u g
  proof -
    have own: "Some (g_community g) = ctx" using u by (simp add: home_kept_def)
    then have no_keys: "filter (\<lambda>k. Some (k_community k) \<noteq> ctx) (key_rows_of gid (g_community g) n i m ks) = []" for n i m ks
      by (auto simp: filter_empty_conv dest: key)
    have row: "foreign ctx (u \<lparr> generations_t := (generations_t u)(gid \<mapsto> h) \<rparr>) = foreign ctx u" if "g_community h = g_community g" for h
      using that u own by (intro foreign_own_row) (simp_all add: own_rows_def)
    have claimed: "Some (g_community h) = ctx" if "generations_t (snd (claim gid (g_community g, v) u)) gid = Some h" for h
      using that u(2) own by (cases v) (auto simp: claim_def split: if_splits)
    show ?thesis
    proof (cases v)
      case (Failed m)
      have "foreign ctx (snd (claim gid (g_community g, v) u)) = foreign ctx u"
        using row [of "g \<lparr> g_status := FAILED, g_error_message := Some (take ERROR_MESSAGE_MAX_LEN m) \<rparr>"] u(2) Failed
        by (simp add: claim_def)
      then show ?thesis using claimed u(1) by (simp add: home_kept_def)
    next
      case (Succeeded res)
      have "foreign ctx (snd (claim gid (g_community g, v) u)) = foreign ctx u"
        using row [of "g \<lparr> g_status := SUCCESS, g_error_message := None \<rparr>"] u(2) Succeeded foreign_keys [OF no_keys]
        by (simp add: claim_def)
      then show ?thesis using claimed u(1) by (simp add: home_kept_def)
    qed
  qed
  have "maintains (home_kept ctx w gid) (save_success bl gid res)" "maintains (home_kept ctx w gid) (save_failure bl gid msg)"
    unfolding save_success_def save_failure_def by (rule claim_and_announce_maintains [OF tables], erule (1) claim)+
  with assms have "home_kept ctx w gid (snd (save_success bl gid res w))" "home_kept ctx w gid (snd (save_failure bl gid msg w))"
    unfolding maintains_def by blast+
  then show "foreign ctx (snd (save_success bl gid res w)) = foreign ctx w" "foreign ctx (snd (save_failure bl gid msg w)) = foreign ctx w"
    unfolding home_kept_def by blast+
qed

lemma remove_home:
  assumes "db_ok w" "\<forall>h. generations_t w gid = Some h \<longrightarrow> g_community h = c"
  shows "foreign (Some c) (remove_row gid w) = foreign (Some c) w"
proof -
  have "k_generation k \<noteq> gid" if "k \<in> set (keys_t w)" "k_community k \<noteq> c" for k
    using assms that by (auto simp: db_ok_def keys_ok_def)
  then have "filter (\<lambda>k. Some (k_community k) \<noteq> Some c) (filter (\<lambda>k. k_generation k \<noteq> gid) (keys_t w)) =
      filter (\<lambda>k. Some (k_community k) \<noteq> Some c) (keys_t w)"
    by (auto intro!: filter_cong)
  then show ?thesis using assms(2) by (auto simp: foreign_def remove_row_def fun_eq_iff split: option.split)
qed

lemma remove_key_home:
  assumes "\<forall>k\<in>set (keys_t w). k_id k = kid \<longrightarrow> k_community k = c"
  shows "foreign (Some c) (remove_key kid w) = foreign (Some c) w"
proof -
  have "filter (\<lambda>k. Some (k_community k) \<noteq> Some c) (filter (\<lambda>k. k_id k \<noteq> kid) (keys_t w)) =
      filter (\<lambda>k. Some (k_community k) \<noteq> Some c) (keys_t w)"
    using assms by (auto intro!: filter_cong)
  then show ?thesis by (simp add: foreign_def remove_key_def)
qed

lemma mark_home:
  assumes "\<forall>g. generations_t w gid = Some g \<longrightarrow> g_community g = c"
  shows "foreign (Some c) (mark_row gid reason w) = foreign (Some c) w"
  using assms by (auto simp: foreign_def mark_row_def fun_eq_iff split: option.split)

lemma fits_community:
  assumes "fits w sn" "generations_t w (sn_id sn) = Some g"
  shows "g_community g = sn_community sn"
proof -
  have "snapshot_of (g \<lparr> g_status := sn_status sn \<rparr>) = sn" using assms by (simp add: fits_def)
  then have "sn_community (snapshot_of (g \<lparr> g_status := sn_status sn \<rparr>)) = sn_community sn" by simp
  then show ?thesis by (simp add: snapshot_of_def)
qed

lemma write_home:
  assumes "task_writes k w w' k'" "db_ok w" "knows w k"
  shows "foreign (Some (community_of k)) w' = foreign (Some (community_of k)) w"
  using assms(1)
proof cases
  case (saved sn bl res)
  have "home_kept (Some (sn_community sn)) w (sn_id sn) w"
    using assms(3) saved(1) fits_community by (simp add: home_kept_def)
  then show ?thesis using saved by (simp add: save_home)
next
  case (failed sn bl msg)
  have "home_kept (Some (sn_community sn)) w (sn_id sn) w"
    using assms(3) failed(1) fits_community by (simp add: home_kept_def)
  then show ?thesis using failed by (simp add: save_home)
next
  case (committed m)
  have "foreign (Some (g_community m)) (w \<lparr> generations_t := (generations_t w)(g_id m \<mapsto> m) \<rparr>) = foreign (Some (g_community m)) w"
    using assms(3) committed(1) by (intro foreign_own_row) (simp_all add: own_rows_def)
  moreover have "foreign c w' = foreign c (w \<lparr> generations_t := (generations_t w)(g_id m \<mapsto> m) \<rparr>)" for c
    using commit_result [OF committed(3)] by (simp add: rows_def foreign_def)
  ultimately show ?thesis using committed(1) by simp
next
  case (unqueued c gid reason)
  then show ?thesis using effect_foreign [OF mark_effect mark_home] assms(3) by simp
next
  case (row_removed c g)
  then show ?thesis using effect_foreign [OF delete_effects(1) remove_home [OF assms(2)]] assms(3) by simp
next
  case (key_removed c k)
  then show ?thesis using effect_foreign [OF delete_effects(2) remove_key_home] assms(3) by simp
next
  case (key_copied c k i)
  have "foreign (Some c) (add_crm_key ((to_allocation_key_crm k) \<lparr> ck_id := i \<rparr>) w) = foreign (Some c) w"
    using assms(3) key_copied(1) by (simp add: foreign_def add_crm_key_def to_allocation_key_crm_def)
  with effect_foreign [OF delete_effects(3)] key_copied show ?thesis by simp
qed

end
