(* ===== verification/Interleaving.thy ===== *)
theory Interleaving
  imports Refinement Tasks
begin

text \<open>
  Everything at once: the theorems about tasks that run beside one another. The requests and
  messages of \<open>system_step\<close>, which run to their end, are runs of \<open>task_step\<close>: the locales
  \<open>request_invariant\<close> and \<open>pipeline_invariant\<close> are interpreted on the worlds a task can reach.
\<close>

section \<open>Requests never change\<close>

definition evolved :: "(int \<Rightarrow> generation_row option) \<times> int \<Rightarrow> world \<Rightarrow> bool" where
  "evolved b w \<longleftrightarrow> db_ok w \<and> evolves b (generations_t w, next_generation_id w)"

lemma of_tables_evolved: "of_tables (evolved b)"
  by (auto simp: of_tables_def tables_def evolved_def db_ok_def generations_ok_def keys_ok_def)

lemma claim_evolved:
  assumes "evolved b w" "generations_t w gid = Some g"
  shows "evolved b (snd (claim gid (g_community g, v) w))"
proof -
  have "db_ok (snd (claim gid (g_community g, v) w))" using assms by (intro claim_ok) (simp_all add: evolved_def)
  moreover have "evolves b ((generations_t w)(gid \<mapsto> g \<lparr> g_status := st, g_error_message := msg \<rparr>), next_generation_id w)" for st msg
    using assms by (intro evolves_write) (simp_all add: evolved_def)
  ultimately show ?thesis using assms by (auto simp: evolved_def claim_def split: verdict.split)
qed

lemma save_evolved: "maintains (evolved b) (save_success bl gid res)" "maintains (evolved b) (save_failure bl gid msg)"
  unfolding save_success_def save_failure_def by (rule claim_and_announce_maintains [OF of_tables_evolved claim_evolved]; assumption)+

interpretation requests_kept: pipeline_invariant "evolved b" gid for gid b
  by unfold_locales (auto intro: of_tables_evolved save_evolved simp: evolved_def db_ok_def generations_ok_def)

lemma message_evolved: "maintains (evolved b) (handle_message env meta m)"
  by (cases "message_generation m")
     (auto intro: unreadable_message_maintains of_tables_evolved requests_kept.handle_message_maintains)

lemma request_evolved: "maintains (evolved b) (api_request env fresh None rq call)"
proof (rule api_request_maintains)
  show "context_free (evolved b)" by (simp add: context_free_def evolved_def)
  show "maintains (evolved b) (run_route env call)"
  proof (rule maintainsI)
    fix w r w' assume w: "evolved b w" and run: "run_route env call w = (r, w')"
    have "tenant (context_community w) (foreign (context_community w) w, stage_of (generations_t w), b) w"
      using w by (simp add: tenant_def evolved_def caller_def)
    from maintainsD [OF tenant_run_route run this] show "evolved b w'" by (simp add: tenant_def evolved_def)
  qed
qed

lemma step_evolved:
  assumes "system_step renv wenv w w'" "evolved b w"
  shows "evolved b w'"
  using assms(1)
proof cases
  case (request_served fresh rq call)
  then show ?thesis using assms(2) request_evolved unfolding maintains_def by blast
next
  case (message_handled meta m)
  then show ?thesis using assms(2) message_evolved unfolding maintains_def by blast
next
  case elsewhere
  then show ?thesis using assms(2) by (simp add: evolved_def db_ok_def generations_ok_def keys_ok_def)
qed

lemma request_never_changes:
  assumes "db_ok w" "(system_step renv wenv)\<^sup>*\<^sup>* w w'" "generations_t w i = Some g" "generations_t w' i = Some g'"
  shows "request_of g = request_of g'"
proof -
  have "evolved (generations_t w, next_generation_id w) w'"
    using assms(2)
  proof (induction rule: rtranclp_induct)
    case base
    show ?case using assms(1) by (simp add: evolved_def)
  next
    case (step v v')
    show ?case using step_evolved [OF step.hyps(2) step.IH] .
  qed
  moreover have "i < next_generation_id w" using assms(1,3) by (auto simp: db_ok_def generations_ok_def)
  ultimately show ?thesis using assms(3,4) unfolding evolved_def evolves_def fst_conv snd_conv by (metis option.inject)
qed

section \<open>Requests and messages are runs of their steps\<close>

definition runs :: "tasks \<Rightarrow> nat \<Rightarrow> world \<Rightarrow> task option \<Rightarrow> world \<Rightarrow> bool" where
  "runs T j w0 k w \<longleftrightarrow> task_step\<^sup>*\<^sup>* (w0, T(j := None)) (w, T(j := k))"

lemma runs_step: "runs T j w0 k w \<Longrightarrow> task_step (w, T(j := k)) (w', T(j := k')) \<Longrightarrow> runs T j w0 k' w'"
  unfolding runs_def by (rule rtranclp.rtrancl_into_rtrancl)

lemma runs_start: "runs T j w None w"
  by (simp add: runs_def)

lemma runs_unseen: "runs T j w0 k w \<Longrightarrow> rows w' = rows w \<Longrightarrow> runs T j w0 k w'"
  by (rule runs_step) (auto intro: unseen)

lemma runs_begin: "runs T j w0 k w \<Longrightarrow> task_begins w t w' \<Longrightarrow> runs T j w0 (Some t) w'"
  by (rule runs_step) (use begins [of w t w' "T(j := k)" j] in simp_all)

lemma runs_write: "runs T j w0 (Some t) w \<Longrightarrow> task_writes t w w' k' \<Longrightarrow> runs T j w0 k' w'"
  by (rule runs_step) (use writes [of "T(j \<mapsto> t)" j t w w' k'] in simp_all)

lemma runs_end: "runs T j w0 k w \<Longrightarrow> runs T j w0 None w"
  by (rule runs_step) (use ends [of w "T(j := k)" j] in simp_all)

lemma tables_rows: "tables w = tables w' \<Longrightarrow> rows w = rows w'"
  by (simp add: tables_def rows_def)

definition request_run :: "tasks \<Rightarrow> nat \<Rightarrow> world \<Rightarrow> int option \<Rightarrow> task option \<Rightarrow> world \<Rightarrow> bool" where
  "request_run T j w0 ctx k w \<longleftrightarrow> runs T j w0 k w \<and> context_community w = ctx"

lemma of_tables_request_run: "of_tables (request_run T j w0 ctx k)"
proof -
  have "request_run T j w0 ctx k w'" if "request_run T j w0 ctx k w" "tables w = tables w'" for w w'
    using that runs_unseen [of T j w0 k w w'] tables_rows [OF that(2)] by (simp add: request_run_def tables_def)
  then show ?thesis unfolding of_tables_def by metis
qed

lemma request_run_tables: "request_run T j w0 ctx k w \<Longrightarrow> tables w' = tables w \<Longrightarrow> request_run T j w0 ctx k w'"
  using of_tablesD [OF of_tables_request_run, of w' w] by simp

lemma draw_run:
  assumes "request_run T j w0 ctx None w" "new_row ctx g" "create_generation g w = (Inr m, v)"
  shows "request_run T j w0 ctx (Some (Inserting m)) v"
proof -
  have "new_row (Some (g_community g)) g" using assms(2) by (simp add: new_row_def)
  from runs_begin [OF _ id_drawn [OF this assms(3)]] assms(1,3) show ?thesis
    by (auto simp: request_run_def create_generation_def outside_def tick_def split: outcome.splits)
qed

lemma commit_run:
  assumes "request_run T j w0 ctx (Some (Inserting m)) v" "commit_generation m v = (Inr (), v')"
  shows "request_run T j w0 ctx (Some (Queueing (g_community m) (g_id m))) v'"
  using runs_write [OF _ committed [OF assms(2)]] assms
  by (auto simp: request_run_def commit_generation_def outside_def tick_def split: outcome.splits)

lemma request_run_end: "request_run T j w0 ctx k w \<Longrightarrow> request_run T j w0 ctx None w"
  unfolding request_run_def using runs_end by blast

lemma lookup_run:
  assumes "request_run T j w0 ctx None w" "repo_get_generation gid w = (Inr (Some g), v)" "tables u = tables v"
  shows "\<exists>c. ctx = Some c \<and> request_run T j w0 ctx (Some (Removing c g)) u"
proof -
  have ctx: "context_community w = ctx" "ctx = Some (g_community g)"
    using assms(1,2) repo_generation_own [of ctx w gid g v] by (simp_all add: request_run_def caller_def)
  have "w \<lparr> context_community := Some (g_community g) \<rparr> = w" using ctx by simp
  with row_found [of gid "g_community g" w g v] assms(2) have "task_begins w (Removing (g_community g) g) v" by simp
  moreover have "context_community v = ctx"
    using assms(2) keeps_tables(9) [of gid] ctx unfolding keeps_def by (metis snd_conv tables_def prod.inject)
  ultimately have "request_run T j w0 ctx (Some (Removing (g_community g) g)) v"
    using assms(1) runs_begin unfolding request_run_def by blast
  from request_run_tables [OF this assms(3)] ctx(2) show ?thesis by blast
qed

lemma key_lookup_run:
  assumes "request_run T j w0 ctx None w" "repo_get_allocation_key kid w = (Inr (Some k), v)" "tables u = tables v"
  shows "\<exists>c. ctx = Some c \<and> request_run T j w0 ctx (Some (RemovingKey c k)) u \<and> request_run T j w0 ctx (Some (Copying c k)) u"
proof -
  have ctx: "context_community w = ctx" "ctx = Some (k_community k)"
    using assms(1,2) repo_key_own [of ctx w kid k v] by (simp_all add: request_run_def caller_def)
  have "w \<lparr> context_community := Some (k_community k) \<rparr> = w" using ctx by simp
  with key_found [of kid "k_community k" w k v] key_read [of kid "k_community k" w k v] assms(2)
  have "task_begins w (RemovingKey (k_community k) k) v" "task_begins w (Copying (k_community k) k) v" by simp_all
  moreover have "context_community v = ctx"
    using assms(2) keeps_tables(8) [of kid] ctx unfolding keeps_def by (metis snd_conv tables_def prod.inject)
  ultimately have "request_run T j w0 ctx (Some (RemovingKey (k_community k) k)) v" "request_run T j w0 ctx (Some (Copying (k_community k) k)) v"
    using assms(1) runs_begin unfolding request_run_def by blast+
  with request_run_tables [OF _ assms(3)] ctx(2) show ?thesis by blast
qed

text \<open>A write whose statement has the given effect when the database works.\<close>

definition working :: "world \<Rightarrow> world" where
  "working w = w \<lparr> outcomes := \<lambda>_. Works \<rparr>"

lemma effect_run:
  assumes "request_run T j w0 ctx (Some t) w" "task_writes t (working w) w' k'" "tables w' = tables v"
    "context_community v = context_community w"
  shows "request_run T j w0 ctx k' v"
proof -
  have "runs T j w0 (Some t) (working w)" using assms(1) runs_unseen [of T j w0 "Some t" w "working w"]
    by (simp add: request_run_def working_def rows_def)
  then have "runs T j w0 k' w'" using assms(2) by (rule runs_write)
  then have "runs T j w0 k' v" using runs_unseen [of T j w0 k' w' v] tables_rows [OF assms(3)] by simp
  then show ?thesis using assms(1,4) by (simp add: request_run_def)
qed

lemma effect_context [simp]:
  "context_community (mark_row gid reason w) = context_community w" "context_community (remove_row gid w) = context_community w"
  "context_community (remove_key kid w) = context_community w" "context_community (add_crm_key ck w) = context_community w"
  by (simp_all add: mark_row_def remove_row_def remove_key_def add_crm_key_def)

lemma deletes:
  "tables (snd (commit_delete_generation gid (working w))) = tables (remove_row gid w)"
  "tables (snd (commit_delete_key kid (working w))) = tables (remove_key kid w)"
  "tables (snd (commit_crm_key ck (working w))) = tables (add_crm_key ck w)"
  by (simp_all add: commit_delete_generation_def commit_delete_key_def commit_crm_key_def outside_def tick_def tables_def
      remove_row_def remove_key_def add_crm_key_def working_def)

lemma marks: "tables (snd (mark_failed_to_queue gid reason (working w))) = tables (mark_row gid reason w)"
proof (cases "generations_t w gid")
  case None
  then have "(generations_t w)(gid := None) = generations_t w" by (intro fun_upd_idem)
  with None show ?thesis
    by (simp add: mark_failed_to_queue_def mark_row_def abind_def outside_def areturn_def tick_def tables_def working_def)
next
  case (Some g)
  then show ?thesis
    by (simp add: mark_failed_to_queue_def mark_row_def abind_def outside_def areturn_def tick_def tables_def working_def
        with_crm_session_def audit_log_def acatch_def api_crm_commit_def crm_commit_def)
qed

definition queued_run :: "tasks \<Rightarrow> nat \<Rightarrow> world \<Rightarrow> int option \<Rightarrow> int \<Rightarrow> world \<Rightarrow> bool" where
  "queued_run T j w0 ctx gid w \<longleftrightarrow> (\<exists>c. ctx = Some c \<and> request_run T j w0 ctx (Some (Queueing c gid)) w)"

text \<open>The laws of the interface, for the worlds the task can reach.\<close>

lemma drawn_run:
  assumes "request_run T j w0 ctx None w" "new_row ctx g" "create_generation g w = (r, v)"
  shows "request_run T j w0 ctx None v"
proof (cases r)
  case (Inl e)
  then have "tables v = tables w" using assms(3) by (auto simp: create_generation_def outside_def tick_def tables_def split: outcome.splits)
  then show ?thesis by (rule request_run_tables [OF assms(1)])
next
  case (Inr m)
  then show ?thesis using request_run_end [OF draw_run [OF assms(1,2)]] assms(3) by blast
qed

lemma inserted_run:
  assumes "request_run T j w0 ctx None w" "new_row ctx g" "create_generation g w = (Inr m, v)" "commit_generation m v = (r, v')"
  shows "request_run T j w0 ctx None v'"
proof (cases r)
  case (Inl e)
  then have "tables v' = tables v" using assms(4) by (auto simp: commit_generation_def outside_def tick_def tables_def split: outcome.splits)
  then show ?thesis using request_run_end [OF request_run_tables [OF draw_run [OF assms(1-3)]]] by blast
next
  case (Inr u)
  then show ?thesis using request_run_end [OF commit_run [OF draw_run [OF assms(1-3)]]] assms(4) by simp
qed

lemma queue_run:
  assumes "request_run T j w0 ctx None w" "new_row ctx g" "create_generation g w = (Inr m, v)" "commit_generation m v = (Inr (), v')"
  shows "queued_run T j w0 ctx (g_id m) v'"
proof -
  have "m = g \<lparr> g_id := next_generation_id w \<rparr>" using drawn_row [OF assms(3)] by blast
  then have "ctx = Some (g_community m)" using assms(2) by (simp add: new_row_def)
  then show ?thesis using commit_run [OF draw_run [OF assms(1-3)] assms(4)] unfolding queued_run_def by blast
qed

lemma marked_run:
  assumes "queued_run T j w0 ctx gid w"
  shows "queued_run T j w0 ctx gid (mark_row gid reason w)"
proof -
  obtain c where c: "ctx = Some c" "request_run T j w0 ctx (Some (Queueing c gid)) w" using assms unfolding queued_run_def by blast
  from effect_run [OF c(2) unqueued marks effect_context(1)] c(1) show ?thesis by (auto simp: queued_run_def)
qed

lemma copied_run:
  assumes "request_run T j w0 ctx None w" "repo_get_allocation_key kid w = (Inr (Some k), v)"
    "save_allocation_key (to_allocation_key_crm k) v = (Inr ck, u)" "tables u' = tables u"
  shows "request_run T j w0 ctx None (add_crm_key ck u')"
proof -
  have ck: "ck = to_allocation_key_crm k \<lparr> ck_id := next_crm_key_id v \<rparr>" "tables u = tables v"
    using assms(3) by (auto simp: save_allocation_key_def outside_def tables_def tick_def split: outcome.splits)
  then have "tables u' = tables v" using assms(4) by simp
  then obtain c where "request_run T j w0 ctx (Some (Copying c k)) u'" using key_lookup_run [OF assms(1,2)] by blast
  from effect_run [OF this key_copied deletes(3) effect_context(4)] ck(1) show ?thesis by simp
qed

lemma of_tables_queued_run: "of_tables (queued_run T j w0 ctx gid)"
  using of_tablesD [OF of_tables_request_run] unfolding of_tables_def queued_run_def by metis

interpretation request_runs: request_invariant "request_run T j w0 ctx None" "queued_run T j w0 ctx" ctx for T j w0 ctx
proof unfold_locales
  show "context_community w = ctx" if "request_run T j w0 ctx None w" for w using that by (simp add: request_run_def)
  show "request_run T j w0 ctx None w" if "queued_run T j w0 ctx gid w" for gid w
    using that request_run_end unfolding queued_run_def by blast
  show "request_run T j w0 ctx None (remove_row (g_id g) u)"
    if "request_run T j w0 ctx None w" "repo_get_generation gid w = (Inr (Some g), v)" "tables u = tables v" for w gid g v u
    using lookup_run [OF that] effect_run [OF _ row_removed deletes(1) effect_context(2)] by blast
  show "request_run T j w0 ctx None (remove_key (k_id k) u)"
    if "request_run T j w0 ctx None w" "repo_get_allocation_key kid w = (Inr (Some k), v)" "tables u = tables v" for w kid k v u
    using key_lookup_run [OF that] effect_run [OF _ key_removed deletes(2) effect_context(3)] by blast
qed (fact of_tables_request_run of_tables_queued_run drawn_run inserted_run queue_run marked_run copied_run)+

lemma request_is_run:
  assumes "T j = None"
  shows "task_step\<^sup>*\<^sup>* (w, T) (snd (api_request env fresh None rq call w), T)"
proof -
  have "maintains (runs T j w None) (api_request env fresh None rq call)"
  proof (rule api_request_maintains)
    have same: "runs T j w None v' = runs T j w None v" if "rows v' = rows v" for v v'
      using runs_unseen that by metis
    show "context_free (runs T j w None)" by (auto simp: context_free_def rows_def intro!: same)
    show "maintains (runs T j w None) (run_route env call)"
    proof (rule maintainsI)
      fix v r v' assume v: "runs T j w None v" and run: "run_route env call v = (r, v')"
      have "request_run T j w (context_community v) None v" using v by (simp add: request_run_def)
      from maintainsD [OF request_runs.run_route_maintains run this] show "runs T j w None v'" by (simp add: request_run_def)
    qed
  qed
  moreover have "T(j := None) = T" using assms by (simp add: fun_upd_idem)
  ultimately show ?thesis using runs_start [of T j w] by (simp add: maintains_def runs_def)
qed

text \<open>A save reads the row it decides.\<close>

definition message_run :: "tasks \<Rightarrow> nat \<Rightarrow> world \<Rightarrow> world \<Rightarrow> bool" where
  "message_run T j w0 w \<longleftrightarrow> db_ok w \<and> runs T j w0 None w"

lemma of_tables_message_run: "of_tables (message_run T j w0)"
proof -
  have "message_run T j w0 w'" if "message_run T j w0 w" "tables w = tables w'" for w w'
    using that runs_unseen [of T j w0 None w w'] tables_rows [OF that(2)] of_tablesD [OF of_tables_db_ok that(2)]
    by (simp add: message_run_def)
  then show ?thesis unfolding of_tables_def by metis
qed

lemma worker_run:
  assumes "message_run T j w0 w" "generations_t w gid = Some g"
  shows "runs T j w0 (Some (Handling (snapshot_of g))) w" "sn_id (snapshot_of g) = gid"
proof -
  let ?w = "w \<lparr> outcomes := \<lambda>_. Works \<rparr>"
  have "snapshot_generation gid ?w = (Inr (Some (snapshot_of g)), tick ?w)"
    using assms(2) by (simp add: snapshot_generation_def read_generation_def outside_def abind_def areturn_def tick_def)
  from runs_begin [OF runs_unseen [of T j w0 None w ?w] snapshot_read [OF this]] assms(1)
  have "runs T j w0 (Some (Handling (snapshot_of g))) (tick ?w)" by (simp add: message_run_def rows_def)
  then show "runs T j w0 (Some (Handling (snapshot_of g))) w" by (rule runs_unseen) (simp add: rows_def tick_def)
  show "sn_id (snapshot_of g) = gid" using assms by (simp add: message_run_def db_ok_def generations_ok_def snapshot_of_def)
qed

lemma save_nothing:
  assumes "generations_t w gid = None"
  shows "rows (snd (save_success bl gid res w)) = rows w" "rows (snd (save_failure bl gid msg w)) = rows w"
proof -
  let ?P = "\<lambda>v. rows v = rows w"
  have tables: "of_tables ?P" by (simp add: of_tables_def tables_def rows_def)
  have claim: "?P (snd (claim gid (g_community g, v) u))" if "?P u" "generations_t u gid = Some g" for v u g
    using that assms by (simp add: rows_def)
  have "maintains ?P (save_success bl gid res)" "maintains ?P (save_failure bl gid msg)"
    unfolding save_success_def save_failure_def by (rule claim_and_announce_maintains [OF tables claim]; assumption)+
  then show "?P (snd (save_success bl gid res w))" "?P (snd (save_failure bl gid msg w))" by (simp_all add: maintains_def)
qed

lemma save_run: "maintains (message_run T j w0) (save_success bl gid res)" "maintains (message_run T j w0) (save_failure bl gid msg)"
proof -
  have run: "runs T j w0 None (snd (save_success bl gid res w)) \<and> runs T j w0 None (snd (save_failure bl gid msg w))"
    if w: "message_run T j w0 w" for w
  proof (cases "generations_t w gid")
    case None
    then show ?thesis using w save_nothing [OF None] runs_unseen unfolding message_run_def by blast
  next
    case (Some g)
    note run = runs_write [OF worker_run(1) [OF w Some]]
    show ?thesis using runs_end [OF run [OF saved]] runs_end [OF run [OF failed]] worker_run(2) [OF w Some] by simp
  qed
  show "maintains (message_run T j w0) (save_success bl gid res)" "maintains (message_run T j w0) (save_failure bl gid msg)"
    using run save_ok unfolding maintains_def message_run_def by blast+
qed

interpretation message_runs: pipeline_invariant "message_run T j w0" gid for gid T j w0
  by unfold_locales (auto intro: of_tables_message_run save_run simp: message_run_def db_ok_def generations_ok_def)

lemma message_is_run:
  assumes "db_ok w" "T j = None"
  shows "task_step\<^sup>*\<^sup>* (w, T) (snd (handle_message env meta m w), T)"
proof -
  have "maintains (message_run T j w) (handle_message env meta m)"
    by (cases "message_generation m")
       (auto intro: unreadable_message_maintains of_tables_message_run message_runs.handle_message_maintains)
  moreover have "T(j := None) = T" using assms(2) by (simp add: fun_upd_idem)
  ultimately show ?thesis using assms(1) runs_start [of T j w] by (simp add: maintains_def message_run_def runs_def)
qed

section \<open>A save is one decision\<close>

definition decided_once :: "int \<Rightarrow> verdict \<Rightarrow> abstract_store \<Rightarrow> world \<Rightarrow> bool" where
  "decided_once gid v A w \<longleftrightarrow> store_of w = A \<or> store_of w = decide gid v A"

lemma of_tables_decided_once: "of_tables (decided_once gid v A)"
  by (auto simp: of_tables_def tables_def decided_once_def store_of_def keys_of_def)

lemma claim_decided_once:
  assumes "decided_once gid v A w" "generations_t w gid = Some g"
  shows "decided_once gid v A (snd (claim gid (g_community g, v) w))"
  using assms claim_decides [OF assms(2), of v] by (auto simp: decided_once_def decide_twice)

lemma save_decided_once:
  "maintains (decided_once gid (Succeeded res) A) (save_success bl gid res)"
  "maintains (decided_once gid (Failed msg) A) (save_failure bl gid msg)"
  unfolding save_success_def save_failure_def by (rule claim_and_announce_maintains [OF of_tables_decided_once claim_decided_once]; assumption)+

lemma decide_nothing:
  assumes "\<And>g. generations_t w gid = Some g \<Longrightarrow> g_status g \<noteq> PENDING"
  shows "decide gid v (store_of w) = store_of w"
  using assms by (auto simp: decide_def store_of_def split: option.split)

section \<open>A write is one step of the life cycle\<close>

definition one_step :: "world \<Rightarrow> world \<Rightarrow> bool" where
  "one_step w w' \<longleftrightarrow> life_step\<^sup>=\<^sup>= (stage_of (generations_t w)) (stage_of (generations_t w'))"

lemma no_step: "generations_t w' = generations_t w \<Longrightarrow> one_step w w'"
  by (simp add: one_step_def)

lemma decision_step:
  assumes "decided_once gid v (store_of w) w'"
  shows "one_step w w'"
proof -
  have rows: "generations_t u = (\<lambda>i. fst (store_of u i))" for u by (simp add: store_of_def)
  consider "store_of w' = store_of w"
    | (decided) g where "generations_t w gid = Some g" "g_status g = PENDING" "generations_t w' = (generations_t w)(gid \<mapsto> decided v g)"
  proof (cases "\<exists>g. generations_t w gid = Some g \<and> g_status g = PENDING")
    case True
    then obtain g where g: "generations_t w gid = Some g" "g_status g = PENDING" by blast
    then have "(\<lambda>i. fst (decide gid v (store_of w) i)) = (generations_t w)(gid \<mapsto> decided v g)"
      by (auto simp: decide_def store_of_def fun_eq_iff)
    with g assms show ?thesis using that rows [of w'] by (auto simp: decided_once_def)
  next
    case False
    then have "decide gid v (store_of w) = store_of w" by (intro decide_nothing) blast
    with assms show ?thesis using that(1) by (simp add: decided_once_def)
  qed
  then show ?thesis
  proof cases
    case 1
    then have "generations_t w' = generations_t w" using rows [of w] rows [of w'] by simp
    then show ?thesis by (rule no_step)
  next
    case (decided g)
    from decide_row [where t = "generations_t w", OF decided(1,2)] show ?thesis by (simp add: one_step_def decided(3))
  qed
qed

lemma save_step: "one_step w (snd (save_success bl gid res w))" "one_step w (snd (save_failure bl gid msg w))"
proof -
  have "decided_once gid v (store_of w) w" for v by (simp add: decided_once_def)
  then show "one_step w (snd (save_success bl gid res w))" "one_step w (snd (save_failure bl gid msg w))"
    using save_decided_once unfolding maintains_def by (blast intro: decision_step)+
qed

lemma effect_step: "rows w' \<in> {rows w, rows v} \<Longrightarrow> one_step w v \<Longrightarrow> one_step w w'"
  by (auto simp: one_step_def rows_def)

lemma mark_step: "one_step w (mark_row gid reason w)"
proof (cases "generations_t w gid")
  case None
  then have "(generations_t w)(gid := None) = generations_t w" by (intro fun_upd_idem)
  with None show ?thesis by (intro no_step) (simp add: mark_row_def)
next
  case (Some g)
  from unqueue_row [where t = "generations_t w", OF Some, of "g \<lparr> g_status := FAILED, g_error_message := Some (take 2000 (''failed_to_queue: '' @ reason)) \<rparr>"]
  show ?thesis by (simp add: one_step_def mark_row_def Some)
qed

lemma remove_step: "one_step w (Requests.remove_row gid w)"
proof (cases "generations_t w gid")
  case None
  then have "(generations_t w)(gid := None) = generations_t w" by (intro fun_upd_idem)
  then show ?thesis by (intro no_step) (simp add: remove_row_def)
next
  case (Some g)
  from Lifecycle.remove_row [where t = "generations_t w", OF Some] show ?thesis by (simp add: one_step_def remove_row_def)
qed

lemma write_step:
  assumes "task_writes k w w' k'" "knows w k"
  shows "one_step w w'"
  using assms(1)
proof cases
  case (committed m)
  then have "generations_t w (g_id m) = None" "g_status m = PENDING" using assms(2) by simp_all
  from submit_row [where t = "generations_t w", OF this] commit_result [OF committed(3)] show ?thesis
    by (simp add: one_step_def rows_def)
qed (use save_step effect_step [OF mark_effect mark_step] effect_step [OF delete_effects(1) remove_step]
       effect_step [OF delete_effects(2) no_step] effect_step [OF delete_effects(3) no_step]
     in \<open>simp_all add: remove_key_def add_crm_key_def\<close>)

lemma begin_step: "task_begins w k w' \<Longrightarrow> generations_t w' = generations_t w"
  by (erule task_begins.cases) (auto dest: read_rows drawn_row simp: rows_def)

section \<open>Properties\<close>

lemma idle_tasks_busy: "db_ok w0 \<Longrightarrow> task_step\<^sup>*\<^sup>* (w0, idle) s \<Longrightarrow> busy_ok s"
  using tasks_busy idle_busy by blast

text \<open>A manager deletes generation 5 while a worker solves it.\<close>

definition solving :: tasks where
  "solving = idle(0 \<mapsto> Handling (snapshot_of pending_file_row))"

definition deleted_meanwhile :: "route_env \<Rightarrow> request \<Rightarrow> world" where
  "deleted_meanwhile renv rq = snd (api_request renv ''id'' None rq (DeleteGenerationCall 5) (tick neighbour_world))"

lemma worker_reads: "task_step\<^sup>*\<^sup>* (neighbour_world, idle) (tick neighbour_world, solving)"
proof -
  have "snapshot_generation 5 neighbour_world = (Inr (Some (snapshot_of pending_file_row)), tick neighbour_world)"
    by (simp add: snapshot_generation_def read_generation_def outside_def abind_def areturn_def tick_def neighbour_world_def quiet_world_def)
  from begins [OF snapshot_read [OF this], of idle 0] show ?thesis by (simp add: solving_def)
qed

lemma deleted_meanwhile_run: "task_step\<^sup>*\<^sup>* (neighbour_world, idle) (deleted_meanwhile renv rq, solving)"
  using rtranclp_trans [OF worker_reads request_is_run [of solving 1]] by (simp add: solving_def idle_def deleted_meanwhile_def)

text \<open>C6. However the accesses of requests and messages to the database interleave, and whichever of them
  end half-way, the tables are consistent at every moment: rows are stored under their id, ids are
  unique and come from the sequences, every generated key belongs to an existing generation of the
  same community, and every generation has the fields its source needs.\<close>

theorem interleaved_tables_consistent:
  assumes "db_ok w0" "task_step\<^sup>*\<^sup>* (w0, idle) (w, T)"
  shows "generations_ok w \<and> keys_ok w"
  using idle_tasks_busy [OF assms] by (simp add: busy_ok_def db_ok_def)

theorem interleaved_tables_consistent_witness:
  "\<forall>renv rq. generations_ok (deleted_meanwhile renv rq) \<and> keys_ok (deleted_meanwhile renv rq)"
  using interleaved_tables_consistent [OF neighbour_world_ok deleted_meanwhile_run] by blast

text \<open>C7. Whatever a request or a message read before it writes, and whatever the others did since, its
  write leaves the rows of all communities but its own as they are.\<close>

theorem interleaved_writes_stay_home:
  assumes "db_ok w0" "task_step\<^sup>*\<^sup>* (w0, idle) (w, T)" "T j = Some k" "task_writes k w w' k'"
  shows "foreign (Some (community_of k)) w' = foreign (Some (community_of k)) w"
  using write_home [OF assms(4)] idle_tasks_busy [OF assms(1,2)] assms(3) by (simp add: busy_ok_def)

theorem interleaved_writes_stay_home_witness:
  "\<forall>renv rq bl res. foreign (Some 7) (snd (save_success bl 5 res (deleted_meanwhile renv rq))) = foreign (Some 7) (deleted_meanwhile renv rq)"
proof (intro allI)
  fix renv rq bl res
  have "solving 0 = Some (Handling (snapshot_of pending_file_row))" by (simp add: solving_def)
  from interleaved_writes_stay_home [OF neighbour_world_ok deleted_meanwhile_run this saved]
  show "foreign (Some 7) (snd (save_success bl 5 res (deleted_meanwhile renv rq))) = foreign (Some 7) (deleted_meanwhile renv rq)"
    by (simp add: snapshot_of_def pending_file_row_def)
qed



text \<open>C3. The interleaved system refines the life cycle of its generations: whatever happens between its
  accesses to the database, each of them takes at most one generation one step further, by submit,
  solve, reject, unqueue or remove. So a generation is solved or rejected by the worker only while
  it waits, and no step makes a finished generation wait again.\<close>

theorem every_access_is_a_life_step:
  assumes "db_ok w0" "task_step\<^sup>*\<^sup>* (w0, idle) (w, T)" "task_step (w, T) (w', T')"
  shows "life_step\<^sup>=\<^sup>= (stage_of (generations_t w)) (stage_of (generations_t w'))"
  using assms(3)
proof cases
  case unseen
  then show ?thesis by (simp add: rows_def)
next
  case (begins k j)
  from begin_step [OF begins(2)] show ?thesis by simp
next
  case (writes j k k')
  have "knows w k" using busyD(2) [OF idle_tasks_busy [OF assms(1,2)] writes(2)] .
  from write_step [OF writes(3) this] show ?thesis by (simp add: one_step_def)
next
  case ends
  then show ?thesis by simp
qed

theorem every_access_is_a_life_step_witness:
  "\<forall>renv rq bl msg. life_step\<^sup>=\<^sup>= (stage_of (generations_t (deleted_meanwhile renv rq)))
     (stage_of (generations_t (snd (save_failure bl 5 msg (deleted_meanwhile renv rq)))))"
proof (intro allI)
  fix renv rq bl msg
  have handling: "solving 0 = Some (Handling (snapshot_of pending_file_row))" by (simp add: solving_def)
  note save = writes [of solving 0, OF handling failed [of _ _ bl msg]]
  from every_access_is_a_life_step [OF neighbour_world_ok deleted_meanwhile_run save]
  show "life_step\<^sup>=\<^sup>= (stage_of (generations_t (deleted_meanwhile renv rq)))
     (stage_of (generations_t (snd (save_failure bl 5 msg (deleted_meanwhile renv rq)))))"
    by (simp add: snapshot_of_def pending_file_row_def)
qed

text \<open>C5. However requests and messages interleave, a worker that saves its result late does no harm:
  it changes nothing, or it decides a generation that still waits and still is the request the worker
  had read, and this decision with the keys of the result is all that changes.\<close>

theorem late_save_decides_the_request_read:
  assumes "db_ok w0" "task_step\<^sup>*\<^sup>* (w0, idle) (w, T)" "T j = Some (Handling sn)"
  shows "store_of (snd (save_success bl (sn_id sn) res w)) = store_of w \<or>
    (\<exists>g. generations_t w (sn_id sn) = Some g \<and> snapshot_of g = sn \<lparr> sn_status := PENDING \<rparr> \<and>
       store_of (snd (save_success bl (sn_id sn) res w)) = decide (sn_id sn) (Succeeded res) (store_of w))"
proof -
  have "knows w (Handling sn)" using busyD(2) [OF idle_tasks_busy [OF assms(1,2)] assms(3)] .
  then have fit: "snapshot_of g = sn \<lparr> sn_status := g_status g \<rparr>" if "generations_t w (sn_id sn) = Some g" for g
    using that snapshot_status [of g "sn_status sn"] by (simp add: fits_def)
  have "decided_once (sn_id sn) (Succeeded res) (store_of w) (snd (save_success bl (sn_id sn) res w))"
    using save_decided_once(1) unfolding maintains_def by (blast intro: decided_once_def [THEN iffD2])
  then have once: "store_of (snd (save_success bl (sn_id sn) res w)) \<in> {store_of w, decide (sn_id sn) (Succeeded res) (store_of w)}"
    by (simp add: decided_once_def)
  show ?thesis
  proof (cases "\<exists>g. generations_t w (sn_id sn) = Some g \<and> g_status g = PENDING")
    case True
    then obtain g where "generations_t w (sn_id sn) = Some g" "g_status g = PENDING" by blast
    with fit [of g] once show ?thesis by auto
  next
    case False
    then have "decide (sn_id sn) (Succeeded res) (store_of w) = store_of w" by (intro decide_nothing) blast
    with once show ?thesis by simp
  qed
qed

theorem late_save_decides_the_request_read_witness:
  "\<forall>renv rq bl res.
     let w = deleted_meanwhile renv rq
     in store_of (snd (save_success bl 5 res w)) = store_of w \<or>
       (\<exists>g. generations_t w 5 = Some g \<and> snapshot_of g = snapshot_of pending_file_row \<and>
          store_of (snd (save_success bl 5 res w)) = decide 5 (Succeeded res) (store_of w))"
proof (unfold Let_def, intro allI)
  fix renv rq bl res
  let ?w = "deleted_meanwhile renv rq"
  let ?sn = "snapshot_of pending_file_row"
  have "solving 0 = Some (Handling ?sn)" by (simp add: solving_def)
  from late_save_decides_the_request_read [OF neighbour_world_ok deleted_meanwhile_run this, of bl res]
  show "store_of (snd (save_success bl 5 res ?w)) = store_of ?w \<or>
       (\<exists>g. generations_t ?w 5 = Some g \<and> snapshot_of g = ?sn \<and>
          store_of (snd (save_success bl 5 res ?w)) = decide 5 (Succeeded res) (store_of ?w))"
    by (simp add: snapshot_of_def pending_file_row_def)
qed

end
