(* ===== verification/Queue.thy ===== *)
theory Queue
  imports Dispatcher
begin

text \<open>
  The connection to the broker and its consumers: the streams and the process-wide client
  (\<open>core/queue/init.py\<close>), the reconciliation of a durable consumer with the settings the code
  declares (\<open>subscribe_durable\<close> and \<open>ensure_consumer_config\<close> of \<open>core/queue/helper.py\<close>) and the
  subscription of the worker to one algorithm (\<open>subscribe_algorithm\<close> of \<open>worker/dispatcher.py\<close>).

  The NATS client library and the server are parameters: the fields of \<open>ConsumerConfig\<close> with their
  defaults (\<open>nats_library\<close>) and the calls of the JetStream API (\<open>jetstream_api\<close>) on a broker state
  \<open>'b\<close>. What the code relies on in them is the predicate \<open>documented_broker\<close>.
\<close>

section \<open>Exceptions\<close>

text \<open>\<open>NotFoundError\<close> and \<open>BadRequestError\<close> are subclasses of \<open>APIError\<close>.\<close>

datatype nats_error = NotFoundError string | BadRequestError nat string | APIError string | ConnectionFailure string

definition is_api_error :: "nats_error \<Rightarrow> bool" where
  "is_api_error e = (case e of ConnectionFailure _ \<Rightarrow> False | _ \<Rightarrow> True)"

text \<open>The exceptions of the module; the constructors after the first two carry the data of their messages.\<close>

datatype queue_exc =
    NatsError nats_error
  | StreamsFile py_error
  | ConsumerUpdateRefused string string "(string \<times> json) list" nats_error
  | StreamIncompatible string nats_error
  | UnsupportedConsumerFields "string set"
  | NotInitialized string

section \<open>Streams\<close>

datatype retention_policy = RETENTION_LIMITS | RETENTION_INTEREST | RETENTION_WORK_QUEUE

datatype storage_type = STORAGE_FILE | STORAGE_MEMORY

record stream_config =
  st_name :: json
  st_subjects :: json
  st_retention :: retention_policy
  st_storage :: storage_type

definition RETENTION_MAP :: "(string \<times> retention_policy) list" where
  "RETENTION_MAP = [(''limits'', RETENTION_LIMITS), (''interest'', RETENTION_INTEREST), (''work_queue'', RETENTION_WORK_QUEUE)]"

definition STORAGE_MAP :: "(string \<times> storage_type) list" where
  "STORAGE_MAP = [(''file'', STORAGE_FILE), (''memory'', STORAGE_MEMORY)]"

text \<open>\<open>TABLE.get(s.get(key, default), fallback)\<close>; a list or an object cannot be a key.\<close>

definition table_get :: "(string \<times> 'a) list \<Rightarrow> (string \<times> json) list \<Rightarrow> string \<Rightarrow> string \<Rightarrow> 'a \<Rightarrow> 'a result" where
  "table_get table s key otherwise fallback =
     (case (case map_of s key of None \<Rightarrow> JStr otherwise | Some v \<Rightarrow> v) of
        JStr t \<Rightarrow> Inr (case map_of table t of None \<Rightarrow> fallback | Some x \<Rightarrow> x)
      | JList _ \<Rightarrow> Inl TypeError
      | JObj _ \<Rightarrow> Inl TypeError
      | _ \<Rightarrow> Inr fallback)"

definition load_stream :: "json \<Rightarrow> stream_config result" where
  "load_stream j =
     (case j of
        JObj s \<Rightarrow>
          (case map_of s ''name'' of
             None \<Rightarrow> Inl (KeyError ''name'')
           | Some name \<Rightarrow>
               (case map_of s ''subjects'' of
                  None \<Rightarrow> Inl (KeyError ''subjects'')
                | Some subjects \<Rightarrow>
                    rbind (table_get RETENTION_MAP s ''retention'' ''limits'' RETENTION_LIMITS) (\<lambda>retention.
                    rbind (table_get STORAGE_MAP s ''storage'' ''file'' STORAGE_FILE) (\<lambda>storage.
                    Inr \<lparr> st_name = name, st_subjects = subjects, st_retention = retention, st_storage = storage \<rparr>))))
      | _ \<Rightarrow> Inl TypeError)"

definition load_streams :: "json \<Rightarrow> stream_config list result" where
  "load_streams streams_config =
     (case streams_config of JList ss \<Rightarrow> rmapM load_stream ss | _ \<Rightarrow> Inl TypeError)"

text \<open>\<open>core/queue/streams.json\<close>.\<close>

definition STREAMS_JSON :: json where
  "STREAMS_JSON = JList [JObj [(''name'', JStr ''ALGORITHMS''), (''subjects'', JList [JStr ''optimce.allocation.>'']),
     (''retention'', JStr ''work_queue''), (''storage'', JStr ''file'')]]"

section \<open>The library and the broker\<close>

type_synonym consumer_config = "string \<Rightarrow> json"

record nats_library =
  nl_fields :: "string list"
  nl_defaults :: consumer_config

record 'b jetstream_api =
  js_connect :: "string list option \<Rightarrow> ('b, nats_error, unit) act"
  js_drain :: "('b, nats_error, unit) act"
  js_add_stream :: "stream_config \<Rightarrow> ('b, nats_error, unit) act"
  js_update_stream :: "stream_config \<Rightarrow> ('b, nats_error, unit) act"
  js_find_stream :: "string \<Rightarrow> ('b, nats_error, string) act"
  js_consumer_info :: "string \<Rightarrow> string \<Rightarrow> ('b, nats_error, consumer_config) act"
  js_add_consumer :: "string \<Rightarrow> consumer_config \<Rightarrow> ('b, nats_error, unit) act"
  js_subscribe :: "string \<Rightarrow> string \<Rightarrow> string \<Rightarrow> consumer_config \<Rightarrow> ('b, nats_error, unit) act"

text \<open>A process: its two globals, the connections it has open, and the seconds it has slept.\<close>

record 'b nats_process =
  np_broker :: 'b
  np_client :: "nat option"
  np_jetstream :: "nat option"
  np_open :: "nat list"
  np_next :: nat
  np_slept :: "nat list"

definition on_broker :: "('b, nats_error, 'a) act \<Rightarrow> ('b nats_process, nats_error, 'a) act" where
  "on_broker call = (\<lambda>p. (case call (np_broker p) of (r, b) \<Rightarrow> (r, p \<lparr> np_broker := b \<rparr>)))"

definition nats_call :: "('b, nats_error, 'a) act \<Rightarrow> ('b nats_process, queue_exc, 'a) act" where
  "nats_call call = acatch (on_broker call) (\<lambda>e. araise (NatsError e))"

section \<open>Connecting\<close>

text \<open>\<open>[u.strip() for u in NATS_URL.split(",") if u.strip()]\<close>; an empty list becomes \<open>None\<close>.\<close>

definition servers_of :: "string \<Rightarrow> string list option" where
  "servers_of url =
     (let servers = filter (\<lambda>u. u \<noteq> []) (map strip (split_at (CHR '','') url)) in if servers = [] then None else Some servers)"

definition ensure_stream :: "'b jetstream_api \<Rightarrow> stream_config \<Rightarrow> ('b nats_process, queue_exc, unit) act" where
  "ensure_stream js stream =
     abind (atry (on_broker (js_add_stream js stream))) (\<lambda>added.
       (case added of
          Inr _ \<Rightarrow> areturn ()
        | Inl (BadRequestError code m) \<Rightarrow>
            if code \<noteq> 10058 then araise (NatsError (BadRequestError code m))
            else acatch (on_broker (js_update_stream js stream)) (\<lambda>e.
                   if is_api_error e
                   then araise (StreamIncompatible (case st_name stream of JStr s \<Rightarrow> s | _ \<Rightarrow> ''?'') e)
                   else araise (NatsError e))
        | Inl e \<Rightarrow> araise (NatsError e)))"

definition opened :: "('b nats_process, queue_exc, unit) act" where
  "opened = amodify (\<lambda>p. p \<lparr> np_client := Some (np_next p), np_jetstream := Some (np_next p),
     np_open := np_next p # np_open p, np_next := np_next p + 1 \<rparr>)"

fun ensure_streams :: "'b jetstream_api \<Rightarrow> stream_config list \<Rightarrow> ('b nats_process, queue_exc, unit) act" where
  "ensure_streams js [] = areturn ()"
| "ensure_streams js (s # ss) = abind (ensure_stream js s) (\<lambda>_. ensure_streams js ss)"

definition init_nats :: "'b jetstream_api \<Rightarrow> string \<Rightarrow> json \<Rightarrow> ('b nats_process, queue_exc, unit) act" where
  "init_nats js url streams_file =
     abind (nats_call (js_connect js (servers_of url))) (\<lambda>_.
     abind opened (\<lambda>_.
       (case load_streams streams_file of
          Inl e \<Rightarrow> araise (StreamsFile e)
        | Inr streams \<Rightarrow> ensure_streams js streams)))"

definition close_nats :: "'b jetstream_api \<Rightarrow> ('b nats_process, queue_exc, unit) act" where
  "close_nats js =
     abind (aget np_client) (\<lambda>c.
       (case c of
          None \<Rightarrow> areturn ()
        | Some i \<Rightarrow>
            abind (nats_call (js_drain js)) (\<lambda>_.
            amodify (\<lambda>p. p \<lparr> np_client := None, np_jetstream := None, np_open := removeAll i (np_open p) \<rparr>))))"

definition get_nats :: "('b nats_process, queue_exc, nat) act" where
  "get_nats = abind (aget np_client) (\<lambda>c. case c of None \<Rightarrow> araise (NotInitialized ''NATS client'') | Some i \<Rightarrow> areturn i)"

definition get_jetstream :: "('b nats_process, queue_exc, nat) act" where
  "get_jetstream = abind (aget np_jetstream) (\<lambda>c. case c of None \<Rightarrow> araise (NotInitialized ''NATS JetStream'') | Some i \<Rightarrow> areturn i)"

section \<open>Consumers\<close>

definition RECONCILED_CONSUMER_FIELDS :: "string list" where
  "RECONCILED_CONSUMER_FIELDS = [''ack_wait'', ''max_deliver'', ''max_ack_pending'', ''backoff'']"

definition declared_consumer_fields :: "nats_library \<Rightarrow> consumer_config \<Rightarrow> queue_exc + (string \<times> json) list" where
  "declared_consumer_fields lib config =
     (let declared = map (\<lambda>n. (n, config n)) (filter (\<lambda>n. config n \<noteq> nl_defaults lib n) (nl_fields lib));
          unsupported = filter (\<lambda>n. n \<notin> set RECONCILED_CONSUMER_FIELDS) (map fst declared)
      in if unsupported \<noteq> [] then Inl (UnsupportedConsumerFields (set unsupported)) else Inr declared)"

definition evolve :: "consumer_config \<Rightarrow> (string \<times> json) list \<Rightarrow> consumer_config" where
  "evolve config changes = (\<lambda>n. case map_of changes n of None \<Rightarrow> config n | Some v \<Rightarrow> v)"

definition ensure_consumer_config ::
  "nats_library \<Rightarrow> 'b jetstream_api \<Rightarrow> string \<Rightarrow> string \<Rightarrow> consumer_config \<Rightarrow> ('b nats_process, queue_exc, unit) act" where
  "ensure_consumer_config lib js stream durable config =
     abind (alift (declared_consumer_fields lib config)) (\<lambda>declared.
     abind (atry (on_broker (js_consumer_info js stream durable))) (\<lambda>info.
       (case info of
          Inl (NotFoundError _) \<Rightarrow> areturn ()
        | Inl e \<Rightarrow> araise (NatsError e)
        | Inr current \<Rightarrow>
            let drift = filter (\<lambda>(n, v). current n \<noteq> v) declared
            in if drift = [] then areturn ()
               else acatch (on_broker (js_add_consumer js stream (evolve current drift))) (\<lambda>e.
                      if is_api_error e then araise (ConsumerUpdateRefused stream durable drift e) else araise (NatsError e)))))"

definition subscribe_durable ::
  "nats_library \<Rightarrow> 'b jetstream_api \<Rightarrow> string \<Rightarrow> string \<Rightarrow> consumer_config \<Rightarrow> string option \<Rightarrow> ('b nats_process, queue_exc, unit) act" where
  "subscribe_durable lib js subject durable config stream =
     abind (case stream of None \<Rightarrow> nats_call (js_find_stream js subject) | Some s \<Rightarrow> areturn s) (\<lambda>s.
     abind (ensure_consumer_config lib js s durable config) (\<lambda>_.
     nats_call (js_subscribe js subject s durable config)))"

text \<open>\<open>ConsumerConfig(**config_kwargs)\<close> over the defaults of the library.\<close>

definition algorithm_consumer :: "nats_library \<Rightarrow> nat option \<Rightarrow> consumer_config" where
  "algorithm_consumer lib max_ack_pending =
     evolve (nl_defaults lib) ([(''ack_wait'', JInt (int ACK_WAIT_SECONDS)), (''max_deliver'', JInt (int MAX_DELIVER))] @
       (case max_ack_pending of None \<Rightarrow> [] | Some n \<Rightarrow> [(''max_ack_pending'', JInt (int n))]))"

definition subscribe_algorithm ::
  "nats_library \<Rightarrow> 'b jetstream_api \<Rightarrow> algorithm_metadata \<Rightarrow> nat option \<Rightarrow> ('b nats_process, queue_exc, unit) act" where
  "subscribe_algorithm lib js meta max_ack_pending =
     subscribe_durable lib js (md_queue meta) (''worker-'' @ md_name meta) (algorithm_consumer lib max_ack_pending) None"

section \<open>What the code relies on\<close>

text \<open>
  The documented behaviour of the broker, over its stored consumer settings: reading leaves them
  alone and tells whether the durable exists, an accepted update stores what it was given under
  the durable's own name, and subscribing binds to the stored settings of an existing durable and
  creates a missing one from the settings it is given.
\<close>

type_synonym 'b consumers = "'b \<Rightarrow> string \<Rightarrow> string \<Rightarrow> consumer_config option"

definition declares :: "nats_library \<Rightarrow> consumer_config \<Rightarrow> string \<Rightarrow> bool" where
  "declares lib config n \<longleftrightarrow> n \<in> set (nl_fields lib) \<and> config n \<noteq> nl_defaults lib n"

definition documented_broker :: "nats_library \<Rightarrow> 'b jetstream_api \<Rightarrow> 'b consumers \<Rightarrow> bool" where
  "documented_broker lib js stored \<longleftrightarrow>
     (\<forall>subject b. stored (snd (js_find_stream js subject b)) = stored b) \<and>
     (\<forall>s d b. stored (snd (js_consumer_info js s d b)) = stored b) \<and>
     (\<forall>s d b c. fst (js_consumer_info js s d b) = Inr c \<longrightarrow> stored b s d = Some c) \<and>
     (\<forall>s d b m. fst (js_consumer_info js s d b) = Inl (NotFoundError m) \<longrightarrow> stored b s d = None) \<and>
     (\<forall>s d b c. stored b s d = Some c \<longrightarrow> c ''durable_name'' = JStr d) \<and>
     (\<forall>s d b c. fst (js_add_consumer js s c b) = Inr () \<longrightarrow> c ''durable_name'' = JStr d \<longrightarrow>
        stored (snd (js_add_consumer js s c b)) s d = Some c) \<and>
     (\<forall>subject s d b c c0. fst (js_subscribe js subject s d c b) = Inr () \<longrightarrow> stored b s d = Some c0 \<longrightarrow>
        stored (snd (js_subscribe js subject s d c b)) s d = Some c0) \<and>
     (\<forall>subject s d b c. fst (js_subscribe js subject s d c b) = Inr () \<longrightarrow> stored b s d = None \<longrightarrow>
        (\<exists>c'. stored (snd (js_subscribe js subject s d c b)) s d = Some c' \<and> (\<forall>n. declares lib c n \<longrightarrow> c' n = c n)))"

lemma documentedD:
  assumes "documented_broker lib js stored"
  shows "stored (snd (js_find_stream js subject b)) = stored b"
    "js_consumer_info js s d b = (r, b') \<Longrightarrow> stored b' = stored b"
    "js_consumer_info js s d b = (Inr c, b') \<Longrightarrow> stored b s d = Some c"
    "js_consumer_info js s d b = (Inl (NotFoundError m), b') \<Longrightarrow> stored b s d = None"
    "stored b s d = Some c \<Longrightarrow> c ''durable_name'' = JStr d"
    "js_add_consumer js s c b = (Inr (), b') \<Longrightarrow> c ''durable_name'' = JStr d \<Longrightarrow> stored b' s d = Some c"
    "js_subscribe js subject s d c b = (Inr (), b') \<Longrightarrow> stored b s d = Some c0 \<Longrightarrow> stored b' s d = Some c0"
    "js_subscribe js subject s d c b = (Inr (), b') \<Longrightarrow> stored b s d = None \<Longrightarrow>
      \<exists>c'. stored b' s d = Some c' \<and> (\<forall>n. declares lib c n \<longrightarrow> c' n = c n)"
  using assms unfolding documented_broker_def by (metis fst_conv snd_conv)+

section \<open>Lemmas\<close>

lemma declared_fields_spec:
  assumes "declared_consumer_fields lib config = Inr declared"
  shows "(n, v) \<in> set declared \<longleftrightarrow> declares lib config n \<and> v = config n"
    and "declares lib config n \<Longrightarrow> n \<in> set RECONCILED_CONSUMER_FIELDS"
  using assms by (auto simp: declared_consumer_fields_def Let_def declares_def filter_empty_conv split: if_splits)

lemma drift_lookup:
  assumes "declared_consumer_fields lib config = Inr declared"
  shows "map_of (filter (\<lambda>(n, v). current n \<noteq> v) declared) n =
    (if declares lib config n \<and> current n \<noteq> config n then Some (config n) else None)"
proof -
  let ?drift = "filter (\<lambda>(n, v). current n \<noteq> v) declared"
  have mem: "(n, v) \<in> set ?drift \<longleftrightarrow> declares lib config n \<and> current n \<noteq> config n \<and> v = config n" for v
    using declared_fields_spec(1) [OF assms] by auto
  show ?thesis
  proof (cases "declares lib config n \<and> current n \<noteq> config n")
    case True
    then obtain v where v: "map_of ?drift n = Some v" using mem by (metis option.exhaust map_of_eq_None_iff image_eqI fst_conv)
    then have "(n, v) \<in> set ?drift" by (rule map_of_SomeD)
    with mem v True show ?thesis by auto
  next
    case False
    have "map_of ?drift n = None"
    proof (rule ccontr)
      assume "map_of ?drift n \<noteq> None"
      then obtain v where "(n, v) \<in> set ?drift" by (auto dest: map_of_SomeD)
      with mem False show False by blast
    qed
    with False show ?thesis by auto
  qed
qed

text \<open>Writing the drift gives the declared fields their declared values and leaves the others.\<close>

lemma evolved_fields:
  assumes "declared_consumer_fields lib config = Inr declared"
  shows "evolve current (filter (\<lambda>(n, v). current n \<noteq> v) declared) n = (if declares lib config n then config n else current n)"
  by (auto simp: evolve_def drift_lookup [OF assms] split: option.splits)

lemma ensure_is:
  assumes "declared_consumer_fields lib config = Inr declared" "js_consumer_info js s d (np_broker p) = (info, b)"
  shows "ensure_consumer_config lib js s d config p =
    (case info of
       Inl (NotFoundError _) \<Rightarrow> areturn ()
     | Inl e \<Rightarrow> araise (NatsError e)
     | Inr current \<Rightarrow>
         let drift = filter (\<lambda>(n, v). current n \<noteq> v) declared
         in if drift = [] then areturn ()
            else acatch (on_broker (js_add_consumer js s (evolve current drift))) (\<lambda>e.
                   if is_api_error e then araise (ConsumerUpdateRefused s d drift e) else araise (NatsError e)))
      (p \<lparr> np_broker := b \<rparr>)"
  using assms by (simp add: ensure_consumer_config_def abind_def atry_def on_broker_def alift_def)

lemma ensured:
  assumes "documented_broker lib js stored" "ensure_consumer_config lib js s d config p = (Inr (), p')"
  shows "\<exists>declared. declared_consumer_fields lib config = Inr declared"
    and "stored (np_broker p') s d = map_option (\<lambda>c n. if declares lib config n then config n else c n) (stored (np_broker p) s d)"
proof -
  obtain declared where declared: "declared_consumer_fields lib config = Inr declared"
    using assms(2) by (cases "declared_consumer_fields lib config") (auto simp: ensure_consumer_config_def araise_def)
  then show "\<exists>declared. declared_consumer_fields lib config = Inr declared" by blast
  obtain info b where info: "js_consumer_info js s d (np_broker p) = (info, b)" by (cases "js_consumer_info js s d (np_broker p)")
  note keep = documentedD(2) [OF assms(1) info]
  let ?drift = "\<lambda>current. filter (\<lambda>(n, v). current n \<noteq> v) declared"
  show "stored (np_broker p') s d = map_option (\<lambda>c n. if declares lib config n then config n else c n) (stored (np_broker p) s d)"
  proof (cases info)
    case (Inl e)
    with assms(2) have "\<exists>m. e = NotFoundError m" and p': "p' = p \<lparr> np_broker := b \<rparr>"
      by (auto simp: ensure_is [OF declared info] araise_def areturn_def split: nats_error.splits)
    with info Inl have "stored (np_broker p) s d = None" using documentedD(4) [OF assms(1)] by blast
    with keep p' show ?thesis by simp
  next
    case (Inr current)
    have cur: "stored (np_broker p) s d = Some current" using documentedD(3) [OF assms(1)] info Inr by blast
    note evolved = evolved_fields [OF declared, of current]
    show ?thesis
    proof (cases "?drift current = []")
      case True
      have p': "p' = p \<lparr> np_broker := b \<rparr>"
        using assms(2) Inr True by (simp add: ensure_is [OF declared info] areturn_def Let_def)
      have "(\<lambda>n. if declares lib config n then config n else current n) = current"
        using evolved True by (auto simp: evolve_def fun_eq_iff)
      with p' keep cur show ?thesis by simp
    next
      case False
      let ?new = "evolve current (?drift current)"
      obtain r b2 where add: "js_add_consumer js s ?new b = (r, b2)" by (cases "js_add_consumer js s ?new b")
      have "r = Inr ()" and p': "p' = p \<lparr> np_broker := b2 \<rparr>"
        using assms(2) Inr False add
        by (auto simp: ensure_is [OF declared info] on_broker_def araise_def acatch_def Let_def split: sum.splits if_splits)
      moreover have "?new ''durable_name'' = JStr d"
        using evolved [of "''durable_name''"] declared_fields_spec(2) [OF declared, of "''durable_name''"] documentedD(5) [OF assms(1) cur]
        by (auto simp: RECONCILED_CONSUMER_FIELDS_def)
      ultimately have "stored b2 s d = Some ?new" using documentedD(6) [OF assms(1)] add by blast
      moreover have "?new = (\<lambda>n. if declares lib config n then config n else current n)" using evolved by (simp add: fun_eq_iff)
      ultimately show ?thesis using p' cur by simp
    qed
  qed
qed

lemma subscribed:
  assumes "documented_broker lib js stored" "subscribe_durable lib js subject d config (Some s) p = (Inr (), p')"
  shows "\<exists>c. stored (np_broker p') s d = Some c \<and> (\<forall>n. declares lib config n \<longrightarrow> c n = config n) \<and>
    (\<forall>c0. stored (np_broker p) s d = Some c0 \<longrightarrow> (\<forall>n. \<not> declares lib config n \<longrightarrow> c n = c0 n))"
proof -
  obtain p1 where ens: "ensure_consumer_config lib js s d config p = (Inr (), p1)"
    and sub: "nats_call (js_subscribe js subject s d config) p1 = (Inr (), p')"
    using assms(2) by (auto simp: subscribe_durable_def abind_def areturn_def split: prod.splits sum.splits)
  obtain b where b: "js_subscribe js subject s d config (np_broker p1) = (Inr (), b)" "p' = p1 \<lparr> np_broker := b \<rparr>"
    using sub by (auto simp: nats_call_def acatch_def on_broker_def araise_def split: prod.splits sum.splits)
  note stored1 = ensured(2) [OF assms(1) ens]
  show ?thesis
  proof (cases "stored (np_broker p) s d")
    case None
    then show ?thesis using documentedD(8) [OF assms(1) b(1)] stored1 b(2) by auto
  next
    case (Some c0)
    then show ?thesis using documentedD(7) [OF assms(1) b(1)] stored1 b(2) by auto
  qed
qed

lemma algorithm_consumer_at:
  "algorithm_consumer lib (Some pool) n =
     (if n = ''ack_wait'' then JInt 600 else if n = ''max_deliver'' then JInt 11
      else if n = ''max_ack_pending'' then JInt (int pool) else nl_defaults lib n)"
  by (simp add: algorithm_consumer_def evolve_def ACK_WAIT_SECONDS_def MAX_DELIVER_def MAX_DELIVERIES_def)

lemma subscribed_algorithm:
  assumes "documented_broker lib js stored" "subscribe_algorithm lib js meta n p = (Inr (), p')"
    and "js_find_stream js (md_queue meta) (np_broker p) = (Inr s, b)"
  shows "\<exists>c. stored (np_broker p') s (''worker-'' @ md_name meta) = Some c \<and>
    (\<forall>f. declares lib (algorithm_consumer lib n) f \<longrightarrow> c f = algorithm_consumer lib n f) \<and>
    (\<forall>c0. stored (np_broker p) s (''worker-'' @ md_name meta) = Some c0 \<longrightarrow>
       (\<forall>f. \<not> declares lib (algorithm_consumer lib n) f \<longrightarrow> c f = c0 f))"
proof -
  have "stored b = stored (np_broker p)" using documentedD(1) [OF assms(1), of "md_queue meta" "np_broker p"] assms(3) by simp
  moreover have "subscribe_durable lib js (md_queue meta) (''worker-'' @ md_name meta) (algorithm_consumer lib n) (Some s)
      (p \<lparr> np_broker := b \<rparr>) = (Inr (), p')"
    using assms(2,3) by (simp add: subscribe_algorithm_def subscribe_durable_def nats_call_def acatch_def on_broker_def abind_def areturn_def)
  ultimately show ?thesis using subscribed [OF assms(1)] by fastforce
qed

section \<open>Properties\<close>

text \<open>C21. The consumer settings of the code are in force after every successful subscription, also on a
  durable that an earlier build created with others: ten minutes until redelivery, eleven deliveries,
  and as many unacknowledged messages as the pool has processes. Every other setting of an
  existing durable is left as the broker holds it.\<close>

theorem algorithm_consumer_in_force:
  assumes "documented_broker lib js stored" "subscribe_algorithm lib js meta (Some pool) p = (Inr (), p')"
    and "js_find_stream js (md_queue meta) (np_broker p) = (Inr s, b)"
    and "\<forall>f\<in>{''ack_wait'', ''max_deliver'', ''max_ack_pending''}. f \<in> set (nl_fields lib) \<and> nl_defaults lib f = JNull"
  shows "\<exists>c. stored (np_broker p') s (''worker-'' @ md_name meta) = Some c \<and>
    c ''ack_wait'' = JInt 600 \<and> c ''max_deliver'' = JInt 11 \<and> c ''max_ack_pending'' = JInt (int pool) \<and>
    (\<forall>c0 f. stored (np_broker p) s (''worker-'' @ md_name meta) = Some c0 \<longrightarrow>
       f \<notin> {''ack_wait'', ''max_deliver'', ''max_ack_pending''} \<longrightarrow> c f = c0 f)"
proof -
  have d: "declares lib (algorithm_consumer lib (Some pool)) f \<longleftrightarrow> f \<in> {''ack_wait'', ''max_deliver'', ''max_ack_pending''}" for f
  proof (cases "f \<in> {''ack_wait'', ''max_deliver'', ''max_ack_pending''}")
    case True
    with assms(4) have "f \<in> set (nl_fields lib)" "nl_defaults lib f = JNull" by blast+
    with True show ?thesis by (simp only: declares_def algorithm_consumer_at) auto
  next
    case False
    then show ?thesis by (simp only: declares_def algorithm_consumer_at) auto
  qed
  from subscribed_algorithm [OF assms(1-3)] obtain c where
    c: "stored (np_broker p') s (''worker-'' @ md_name meta) = Some c"
      "\<forall>f. declares lib (algorithm_consumer lib (Some pool)) f \<longrightarrow> c f = algorithm_consumer lib (Some pool) f"
      "\<forall>c0. stored (np_broker p) s (''worker-'' @ md_name meta) = Some c0 \<longrightarrow>
         (\<forall>f. \<not> declares lib (algorithm_consumer lib (Some pool)) f \<longrightarrow> c f = c0 f)"
    by (elim exE conjE) (rule that)
  have "c ''ack_wait'' = JInt 600" "c ''max_deliver'' = JInt 11" "c ''max_ack_pending'' = JInt (int pool)"
    using c(2) d [of "''ack_wait''"] d [of "''max_deliver''"] d [of "''max_ack_pending''"] by (simp_all add: algorithm_consumer_at)
  moreover have "\<forall>c0 f. stored (np_broker p) s (''worker-'' @ md_name meta) = Some c0 \<longrightarrow>
       f \<notin> {''ack_wait'', ''max_deliver'', ''max_ack_pending''} \<longrightarrow> c f = c0 f"
    using c(3) by (simp only: d) iprover
  ultimately show ?thesis using c(1) by (intro exI conjI)
qed

text \<open>A broker as documented, and a durable of an earlier build with the broker's own ten seconds.\<close>

type_synonym plain_broker = "string \<Rightarrow> string \<Rightarrow> consumer_config option"

definition plain_library :: nats_library where
  "plain_library = \<lparr> nl_fields = [''ack_wait'', ''max_deliver'', ''max_ack_pending''], nl_defaults = (\<lambda>_. JNull) \<rparr>"

definition plain_stored :: "plain_broker consumers" where
  "plain_stored b s d = map_option (\<lambda>c. c(''durable_name'' := JStr d)) (b s d)"

definition plain_jetstream :: "plain_broker jetstream_api" where
  "plain_jetstream = \<lparr> js_connect = (\<lambda>_. areturn ()), js_drain = areturn (), js_add_stream = (\<lambda>_. areturn ()),
     js_update_stream = (\<lambda>_. areturn ()), js_find_stream = (\<lambda>_. areturn ''ALGORITHMS''),
     js_consumer_info = (\<lambda>s d b. (case plain_stored b s d of None \<Rightarrow> Inl (NotFoundError d) | Some c \<Rightarrow> Inr c, b)),
     js_add_consumer = (\<lambda>s c b. (case c ''durable_name'' of JStr d \<Rightarrow> (Inr (), b(s := (b s)(d \<mapsto> c))) | _ \<Rightarrow> (Inl (APIError ''no name''), b))),
     js_subscribe = (\<lambda>subject s d c b. (Inr (), if b s d = None then b(s := (b s)(d \<mapsto> c)) else b)) \<rparr>"

lemma plain_documented: "documented_broker plain_library plain_jetstream plain_stored"
  by (auto simp: documented_broker_def plain_jetstream_def plain_stored_def plain_library_def areturn_def declares_def fun_upd_idem
      split: json.splits option.splits)

definition old_durable :: plain_broker where
  "old_durable = (\<lambda>_ _. None)(''ALGORITHMS'' := [''worker-brute_force'' \<mapsto> (\<lambda>_. JNull)(''ack_wait'' := JInt 30, ''deliver_group'' := JStr ''g'')])"

theorem algorithm_consumer_in_force_witness:
  "\<exists>p' c. subscribe_algorithm plain_library plain_jetstream BRUTE_FORCE_METADATA (Some 3)
      \<lparr> np_broker = old_durable, np_client = Some 0, np_jetstream = Some 0, np_open = [0], np_next = 1, np_slept = [] \<rparr> = (Inr (), p') \<and>
    plain_stored (np_broker p') ''ALGORITHMS'' ''worker-brute_force'' = Some c \<and>
    c ''ack_wait'' = JInt 600 \<and> c ''max_deliver'' = JInt 11 \<and> c ''max_ack_pending'' = JInt 3"
proof -
  let ?p = "\<lparr> np_broker = old_durable, np_client = Some 0, np_jetstream = Some 0, np_open = [0], np_next = 1, np_slept = [] \<rparr>"
  have name: "md_name BRUTE_FORCE_METADATA = ''brute_force''" by (simp add: BRUTE_FORCE_METADATA_def)
  have find: "js_find_stream plain_jetstream (md_queue BRUTE_FORCE_METADATA) (np_broker ?p) = (Inr ''ALGORITHMS'', old_durable)"
    by (simp add: plain_jetstream_def areturn_def)
  have declared: "declared_consumer_fields plain_library (algorithm_consumer plain_library (Some 3)) =
      Inr [(''ack_wait'', JInt 600), (''max_deliver'', JInt 11), (''max_ack_pending'', JInt 3)]"
    by (simp add: declared_consumer_fields_def plain_library_def algorithm_consumer_at RECONCILED_CONSUMER_FIELDS_def Let_def)
  have "\<exists>p'. subscribe_algorithm plain_library plain_jetstream BRUTE_FORCE_METADATA (Some 3) ?p = (Inr (), p')"
    by (simp add: subscribe_algorithm_def subscribe_durable_def ensure_consumer_config_def declared name plain_jetstream_def plain_stored_def
        old_durable_def nats_call_def acatch_def atry_def on_broker_def abind_def areturn_def alift_def evolve_def Let_def)
  then obtain p' where run: "subscribe_algorithm plain_library plain_jetstream BRUTE_FORCE_METADATA (Some 3) ?p = (Inr (), p')" ..
  have fields: "\<forall>f\<in>{''ack_wait'', ''max_deliver'', ''max_ack_pending''}. f \<in> set (nl_fields plain_library) \<and> nl_defaults plain_library f = JNull"
    by (simp add: plain_library_def)
  from algorithm_consumer_in_force [OF plain_documented run find fields] run name show ?thesis by auto
qed

end
