(* ===== verification/WorkerMain.thy ===== *)
theory WorkerMain
  imports Queue
begin

text \<open>
  The worker process (\<open>worker/main.py\<close>): the number of solver processes, the pool that rebuilds
  itself, the retry of the connection to the broker, the poll of the queue depth with the liveness
  heartbeat, the drain of the running generations, and the start and the shutdown of the process.

  The machine (control group files, affinity, processor count) is a record of what reading them
  gives; \<open>None\<close> is the \<open>OSError\<close> of a missing file. \<open>quota / period\<close> is exact.
\<close>

section \<open>Processors\<close>

record machine =
  mc_cpu_max :: "string option"
  mc_cfs_quota :: "string option"
  mc_cfs_period :: "string option"
  mc_affinity :: "nat option"
  mc_cpu_count :: "nat option"

definition quota_cpus :: "int option \<Rightarrow> int option \<Rightarrow> int option" where
  "quota_cpus quota period =
     (case (quota, period) of
        (Some q, Some p) \<Rightarrow> if 0 < q \<and> 0 < p then Some (max 1 (q div p)) else None
      | _ \<Rightarrow> None)"

text \<open>\<open>cpu.max\<close> of version 2: a quota, or \<open>max\<close>, and a period that defaults to 100000.\<close>

definition cgroup_v2 :: "string option \<Rightarrow> int option" where
  "cgroup_v2 content =
     (case content of
        None \<Rightarrow> None
      | Some s \<Rightarrow>
          (case words s of
             [] \<Rightarrow> None
           | q # rest \<Rightarrow>
               if q = ''max'' then None
               else quota_cpus (py_int q) (case rest of [] \<Rightarrow> Some 100000 | p # _ \<Rightarrow> py_int p)))"

definition cgroup_v1 :: "string option \<Rightarrow> string option \<Rightarrow> int option" where
  "cgroup_v1 quota period = quota_cpus (Option.bind quota py_int) (Option.bind period py_int)"

definition detect_available_cpus :: "machine \<Rightarrow> int" where
  "detect_available_cpus m =
     (case cgroup_v2 (mc_cpu_max m) of
        Some n \<Rightarrow> n
      | None \<Rightarrow>
          (case cgroup_v1 (mc_cfs_quota m) (mc_cfs_period m) of
             Some n \<Rightarrow> n
           | None \<Rightarrow>
               (case mc_affinity m of
                  Some k \<Rightarrow> max 1 (int k)
                | None \<Rightarrow> max 1 (case mc_cpu_count m of None \<Rightarrow> 1 | Some k \<Rightarrow> if k = 0 then 1 else int k))))"

definition solver_pool_size :: "machine \<Rightarrow> int" where
  "solver_pool_size m = max 1 (detect_available_cpus m - 1)"

section \<open>The solver pool\<close>

text \<open>\<open>ProcessPoolExecutor\<close> is a parameter: a fresh pool and the submission to a pool.\<close>

datatype pool_error = BrokenProcessPool | PoolError string

record ('p, 'f) executor_class =
  ex_new :: "int \<Rightarrow> 'p"
  ex_submit :: "'p \<Rightarrow> (pool_error + 'f) \<times> 'p"

record 'p solver_pool =
  sp_max_workers :: int
  sp_pool :: 'p

definition new_pool :: "('p, 'f) executor_class \<Rightarrow> int \<Rightarrow> 'p solver_pool" where
  "new_pool ex n = \<lparr> sp_max_workers = n, sp_pool = ex_new ex n \<rparr>"

definition pool_submit :: "('p, 'f) executor_class \<Rightarrow> 'p solver_pool \<Rightarrow> (pool_error + 'f) \<times> 'p solver_pool" where
  "pool_submit ex sp =
     (case ex_submit ex (sp_pool sp) of
        (Inl BrokenProcessPool, _) \<Rightarrow>
          (case ex_submit ex (ex_new ex (sp_max_workers sp)) of (r, q) \<Rightarrow> (r, sp \<lparr> sp_pool := q \<rparr>))
      | (r, q) \<Rightarrow> (r, sp \<lparr> sp_pool := q \<rparr>))"

text \<open>The text written to \<open>/proc/self/oom_score_adj\<close>, and the level of the log line when it fails.\<close>

definition SOLVER_OOM_SCORE_ADJ :: nat where "SOLVER_OOM_SCORE_ADJ = 1000"

datatype log_level = DEBUG | WARNING

definition raise_oom_score :: "bool \<Rightarrow> bool \<Rightarrow> string option \<times> log_level option" where
  "raise_oom_score on_linux writable =
     (if writable then (Some (show_nat SOLVER_OOM_SCORE_ADJ @ [CHR 0x0A]), None)
      else (None, Some (if on_linux then WARNING else DEBUG)))"

section \<open>Connecting with retries\<close>

definition NATS_CONNECT_MAX_ATTEMPTS :: nat where "NATS_CONNECT_MAX_ATTEMPTS = 10"
definition NATS_CONNECT_BASE_DELAY_SECONDS :: nat where "NATS_CONNECT_BASE_DELAY_SECONDS = 2"
definition NATS_CONNECT_MAX_DELAY_SECONDS :: nat where "NATS_CONNECT_MAX_DELAY_SECONDS = 30"

definition connect_delay :: "nat \<Rightarrow> nat" where
  "connect_delay attempt = min (NATS_CONNECT_BASE_DELAY_SECONDS * 2 ^ (attempt - 1)) NATS_CONNECT_MAX_DELAY_SECONDS"

definition sleep :: "nat \<Rightarrow> ('b nats_process, queue_exc, unit) act" where
  "sleep seconds = amodify (\<lambda>p. p \<lparr> np_slept := np_slept p @ [seconds] \<rparr>)"

text \<open>\<open>for attempt in range(1, MAX_ATTEMPTS + 1)\<close>.\<close>

function connect_from :: "('b nats_process, queue_exc, unit) act \<Rightarrow> nat \<Rightarrow> ('b nats_process, queue_exc, unit) act" where
  "connect_from init attempt =
     (if NATS_CONNECT_MAX_ATTEMPTS < attempt then areturn ()
      else abind (atry init) (\<lambda>r.
        (case r of
           Inr _ \<Rightarrow> areturn ()
         | Inl e \<Rightarrow>
             if attempt = NATS_CONNECT_MAX_ATTEMPTS then araise e
             else abind (sleep (connect_delay attempt)) (\<lambda>_. connect_from init (attempt + 1)))))"
  by pat_completeness auto

termination
  by (relation "measure (\<lambda>(_, attempt). Suc NATS_CONNECT_MAX_ATTEMPTS - attempt)") auto

declare connect_from.simps [simp del]

definition connect_nats_with_retry :: "'b jetstream_api \<Rightarrow> string \<Rightarrow> ('b nats_process, queue_exc, unit) act" where
  "connect_nats_with_retry js url = connect_from (init_nats js url STREAMS_JSON) 1"

section \<open>Queue depth and heartbeat\<close>

text \<open>A round of the poller: the answers of \<open>consumer_info\<close>, and whether the heartbeat can be touched.\<close>

record poll_round_env =
  pr_pending :: "string \<Rightarrow> int option"
  pr_touchable :: bool

record poll_state =
  po_snapshot :: "(string \<times> int) list"
  po_heartbeats :: nat

fun poll_algorithms :: "(string \<Rightarrow> int option) \<Rightarrow> string list \<Rightarrow> (string \<times> int) list \<times> bool \<Rightarrow> (string \<times> int) list \<times> bool" where
  "poll_algorithms pending [] acc = acc"
| "poll_algorithms pending (name # names) (snapshot, any_success) =
     (case pending name of
        Some n \<Rightarrow> poll_algorithms pending names (dict_set name n snapshot, True)
      | None \<Rightarrow> poll_algorithms pending names (snapshot, any_success))"

definition poll_round :: "string list \<Rightarrow> poll_round_env \<Rightarrow> poll_state \<Rightarrow> poll_state" where
  "poll_round names env st =
     (let (snapshot, any_success) = poll_algorithms (pr_pending env) names (po_snapshot st, False)
      in \<lparr> po_snapshot = snapshot,
           po_heartbeats = (if any_success \<and> pr_touchable env then po_heartbeats st + 1 else po_heartbeats st) \<rparr>)"

text \<open>The rounds until the shutdown event is set.\<close>

fun poll_queue_depth :: "string list \<Rightarrow> (bool \<times> poll_round_env) list \<Rightarrow> poll_state \<Rightarrow> poll_state" where
  "poll_queue_depth names [] st = st"
| "poll_queue_depth names ((shutdown_set, env) # rounds) st =
     (if shutdown_set then st else poll_queue_depth names rounds (poll_round names env st))"

section \<open>Draining and shutdown\<close>

definition INFLIGHT_DRAIN_TIMEOUT_SECONDS :: nat where "INFLIGHT_DRAIN_TIMEOUT_SECONDS = 25"

text \<open>The running tasks with the seconds each still needs: those that finish, and those cancelled.\<close>

definition drain_inflight :: "('t \<times> nat) list \<Rightarrow> 't list \<times> 't list" where
  "drain_inflight inflight =
     (map fst (filter (\<lambda>(_, s). s \<le> INFLIGHT_DRAIN_TIMEOUT_SECONDS) inflight),
      map fst (filter (\<lambda>(_, s). INFLIGHT_DRAIN_TIMEOUT_SECONDS < s) inflight))"

text \<open>
  The steps of \<open>main\<close>, each of which may raise; a run is the list of the steps it has begun. The
  tasks of the generations and of the poller run beside it.
\<close>

datatype main_step =
    ConfigureLogging | LogRealtimeState | SetupTelemetry | Autodiscover | ConnectNats | GetJetstream
  | InstallSignalHandlers | CreatePool nat
  | Subscribe string nat | StartPoller | AwaitShutdown
  | StopPoller | DrainInflight | DrainSubscription string | ShutdownPool | CloseNats | DisposeLocal | DisposeCrm

type_synonym 'a main_act = "(main_step list, main_step, 'a) act"

definition do_step :: "(main_step \<Rightarrow> bool) \<Rightarrow> main_step \<Rightarrow> unit main_act" where
  "do_step raises s = (\<lambda>trace. (if raises s then Inl s else Inr (), trace @ [s]))"

fun do_steps :: "(main_step \<Rightarrow> bool) \<Rightarrow> main_step list \<Rightarrow> unit main_act" where
  "do_steps raises [] = areturn ()"
| "do_steps raises (s # ss) = abind (do_step raises s) (\<lambda>_. do_steps raises ss)"

text \<open>A step whose exception is logged, or suppressed, and nothing more.\<close>

definition logged :: "unit main_act \<Rightarrow> unit main_act" where
  "logged m = acatch m (\<lambda>_. areturn ())"

fun logged_steps :: "(main_step \<Rightarrow> bool) \<Rightarrow> main_step list \<Rightarrow> unit main_act" where
  "logged_steps raises [] = areturn ()"
| "logged_steps raises (s # ss) = abind (logged (do_step raises s)) (\<lambda>_. logged_steps raises ss)"

text \<open>\<open>subscriptions.append(sub)\<close> after each subscription.\<close>

fun subscribe_all :: "(main_step \<Rightarrow> bool) \<Rightarrow> nat \<Rightarrow> string list \<Rightarrow> string list \<Rightarrow> main_step list \<Rightarrow> (string list \<times> (main_step + unit)) \<times> main_step list" where
  "subscribe_all raises pool [] subs trace = ((subs, Inr ()), trace)"
| "subscribe_all raises pool (name # names) subs trace =
     (case do_step raises (Subscribe name pool) trace of
        (Inl e, trace') \<Rightarrow> ((subs, Inl e), trace')
      | (Inr _, trace') \<Rightarrow> subscribe_all raises pool names (subs @ [name]) trace')"

text \<open>The \<open>finally\<close> block.\<close>

definition shut_down :: "(main_step \<Rightarrow> bool) \<Rightarrow> bool \<Rightarrow> string list \<Rightarrow> unit main_act" where
  "shut_down raises polling subs =
     abind (if polling then logged (do_step raises StopPoller) else areturn ()) (\<lambda>_.
     abind (do_step raises DrainInflight) (\<lambda>_.
     abind (logged_steps raises (map DrainSubscription subs)) (\<lambda>_.
     logged_steps raises [ShutdownPool, CloseNats, DisposeLocal, DisposeCrm])))"

definition worker_main :: "(main_step \<Rightarrow> bool) \<Rightarrow> nat \<Rightarrow> string list \<Rightarrow> unit main_act" where
  "worker_main raises pool names =
     abind (do_steps raises [ConfigureLogging, LogRealtimeState, SetupTelemetry, Autodiscover, ConnectNats, GetJetstream,
       InstallSignalHandlers, CreatePool pool]) (\<lambda>_ trace.
       (case subscribe_all raises pool names [] trace of
          ((subs, r), trace1) \<Rightarrow>
            (case (case r of
                     Inl e \<Rightarrow> ((Inl e, False), trace1)
                   | Inr _ \<Rightarrow>
                       (case do_step raises StartPoller trace1 of
                          (Inl e, trace2) \<Rightarrow> ((Inl e, False), trace2)
                        | (Inr _, trace2) \<Rightarrow>
                            (case do_step raises AwaitShutdown trace2 of (r', trace3) \<Rightarrow> ((r', True), trace3)))) of
               ((outcome, polling), trace4) \<Rightarrow>
                 (case shut_down raises polling subs trace4 of
                    (Inl e, trace5) \<Rightarrow> (Inl e, trace5)
                  | (Inr _, trace5) \<Rightarrow> (outcome, trace5)))))"

section \<open>Lemmas\<close>

lemma quota_cpus_positive: "quota_cpus q p = Some n \<Longrightarrow> 1 \<le> n"
  by (auto simp: quota_cpus_def split: option.splits if_splits)

lemma cpus_positive: "1 \<le> detect_available_cpus m"
  by (auto simp: detect_available_cpus_def cgroup_v2_def cgroup_v1_def dest: quota_cpus_positive split: option.splits list.splits if_splits)

lemma quota_bound: "quota_cpus (Some q) (Some p) = Some n \<Longrightarrow> n * p \<le> max q p"
proof -
  assume n: "quota_cpus (Some q) (Some p) = Some n"
  then have pos: "0 < q" "0 < p" and n: "n = max 1 (q div p)" by (auto simp: quota_cpus_def split: if_splits)
  have "q div p * p \<le> q" using pos by (metis div_mult_mod_eq le_add_same_cancel1 mod_int_pos_iff order_less_imp_le)
  then show ?thesis using n by (auto simp: max_def)
qed

text \<open>What the loop has slept from one of its attempts on.\<close>

lemma keeps_on_broker: "(\<And>p b. f (p \<lparr> np_broker := b \<rparr>) = f p) \<Longrightarrow> keeps f (on_broker c)"
  by (simp add: keeps_def on_broker_def split: prod.splits)

lemma init_keeps_slept: "keeps np_slept (init_nats js url f)"
proof -
  have one: "keeps np_slept (ensure_stream js s)" for s
    unfolding ensure_stream_def by (auto intro!: keeps_intros keeps_on_broker split: sum.split nats_error.split)
  have "keeps np_slept (ensure_streams js ss)" for ss by (induction ss) (auto intro!: keeps_intros one)
  moreover have "keeps np_slept opened" by (simp add: opened_def keeps_def amodify_def)
  ultimately show ?thesis
    unfolding init_nats_def nats_call_def by (auto intro!: keeps_intros keeps_on_broker split: sum.split)
qed

text \<open>What the loop has slept from one of its attempts on.\<close>

lemma connect_sleeps:
  assumes "keeps np_slept init"
  shows "\<exists>k. np_slept (snd (connect_from init attempt p)) = np_slept p @ map connect_delay [attempt..<k] \<and>
    k \<le> NATS_CONNECT_MAX_ATTEMPTS"
proof (induction "Suc NATS_CONNECT_MAX_ATTEMPTS - attempt" arbitrary: attempt p)
  case 0
  then have "np_slept (snd (connect_from init attempt p)) = np_slept p @ map connect_delay [attempt..<0]"
    by (simp add: connect_from.simps areturn_def)
  then show ?case by blast
next
  case (Suc n)
  obtain r p1 where r: "init p = (r, p1)" by (cases "init p")
  with assms have slept: "np_slept p1 = np_slept p" unfolding keeps_def by (metis snd_conv)
  have le: "\<not> NATS_CONNECT_MAX_ATTEMPTS < attempt" using Suc.hyps(2) by simp
  have step: "connect_from init attempt p =
      (case r of Inr _ \<Rightarrow> (Inr (), p1)
       | Inl e \<Rightarrow> if attempt = NATS_CONNECT_MAX_ATTEMPTS then (Inl e, p1)
           else connect_from init (attempt + 1) (p1 \<lparr> np_slept := np_slept p1 @ [connect_delay attempt] \<rparr>))"
    using le
    by (subst connect_from.simps) (simp add: abind_def atry_def r areturn_def araise_def sleep_def amodify_def split: sum.split)
  show ?case
  proof (cases "r = Inr () \<or> attempt = NATS_CONNECT_MAX_ATTEMPTS")
    case True
    then have "np_slept (snd (connect_from init attempt p)) = np_slept p @ map connect_delay [attempt..<0]"
      using slept by (auto simp: step split: sum.split)
    then show ?thesis by blast
  next
    case False
    let ?p = "p1 \<lparr> np_slept := np_slept p1 @ [connect_delay attempt] \<rparr>"
    have "n = Suc NATS_CONNECT_MAX_ATTEMPTS - (attempt + 1)" using Suc.hyps(2) by simp
    from Suc.hyps(1) [OF this, of ?p] obtain k where
      k: "np_slept (snd (connect_from init (attempt + 1) ?p)) = np_slept ?p @ map connect_delay [attempt + 1..<k]" "k \<le> NATS_CONNECT_MAX_ATTEMPTS"
      by blast
    have more: "attempt < NATS_CONNECT_MAX_ATTEMPTS" using le False by simp
    have "\<exists>k'. np_slept p @ [connect_delay attempt] @ map connect_delay [attempt + 1..<k] = np_slept p @ map connect_delay [attempt..<k'] \<and>
        k' \<le> NATS_CONNECT_MAX_ATTEMPTS"
    proof (cases "attempt < k")
      case True
      then show ?thesis using k(2) by (intro exI [of _ k]) (simp add: upt_conv_Cons)
    next
      case False
      then show ?thesis using more by (intro exI [of _ "Suc attempt"]) simp
    qed
    then show ?thesis using k(1) slept False by (auto simp: step split: sum.split)
  qed
qed

text \<open>The whole retry schedule.\<close>

lemma connect_schedule: "map connect_delay [1..<NATS_CONNECT_MAX_ATTEMPTS] = [2, 4, 8, 16, 30, 30, 30, 30, 30]"
  by (simp add: connect_delay_def NATS_CONNECT_MAX_ATTEMPTS_def NATS_CONNECT_BASE_DELAY_SECONDS_def NATS_CONNECT_MAX_DELAY_SECONDS_def
      upt_conv_Cons)

lemma schedule_prefix:
  assumes "k \<le> NATS_CONNECT_MAX_ATTEMPTS"
  shows "length (map connect_delay [1..<k]) \<le> 9" "sum_list (map connect_delay [1..<k]) \<le> 180"
proof -
  show "length (map connect_delay [1..<k]) \<le> 9" using assms by (simp add: NATS_CONNECT_MAX_ATTEMPTS_def)
  have "sum_list (map connect_delay [1..<k]) \<le> sum_list (map connect_delay [1..<NATS_CONNECT_MAX_ATTEMPTS])"
    unfolding interv_sum_list_conv_sum_set_nat using assms by (intro sum_mono2) auto
  then show "sum_list (map connect_delay [1..<k]) \<le> 180" using connect_schedule by simp
qed

text \<open>An attempt that always fails the same way after opening a connection.\<close>

lemma connect_exhausted:
  assumes "\<And>p. \<exists>e b. X e \<and> init p = (Inl e, p \<lparr> np_broker := b, np_client := Some (np_next p), np_jetstream := Some (np_next p),
      np_open := np_next p # np_open p, np_next := np_next p + 1 \<rparr>)"
    and "1 \<le> attempt" "attempt \<le> NATS_CONNECT_MAX_ATTEMPTS"
  shows "\<exists>e p'. X e \<and> connect_from init attempt p = (Inl e, p') \<and>
    np_open p' = rev [np_next p..<np_next p + (Suc NATS_CONNECT_MAX_ATTEMPTS - attempt)] @ np_open p \<and>
    np_slept p' = np_slept p @ map connect_delay [attempt..<NATS_CONNECT_MAX_ATTEMPTS]"
  using assms(2,3)
proof (induction "NATS_CONNECT_MAX_ATTEMPTS - attempt" arbitrary: attempt p)
  case 0
  then have last: "attempt = NATS_CONNECT_MAX_ATTEMPTS" by simp
  obtain e b where "X e" and i: "init p = (Inl e, p \<lparr> np_broker := b, np_client := Some (np_next p), np_jetstream := Some (np_next p),
      np_open := np_next p # np_open p, np_next := np_next p + 1 \<rparr>)" using assms(1) by blast
  then show ?case
    by (subst connect_from.simps) (simp add: last abind_def atry_def araise_def)
next
  case (Suc n)
  obtain e b where i: "init p = (Inl e, p \<lparr> np_broker := b, np_client := Some (np_next p), np_jetstream := Some (np_next p),
      np_open := np_next p # np_open p, np_next := np_next p + 1 \<rparr>)" using assms(1) by blast
  let ?p = "p \<lparr> np_broker := b, np_client := Some (np_next p), np_jetstream := Some (np_next p),
      np_open := np_next p # np_open p, np_next := np_next p + 1, np_slept := np_slept p @ [connect_delay attempt] \<rparr>"
  have more: "attempt < NATS_CONNECT_MAX_ATTEMPTS" "n = NATS_CONNECT_MAX_ATTEMPTS - (attempt + 1)"
    using Suc.hyps(2) Suc.prems by auto
  have step: "connect_from init attempt p = connect_from init (attempt + 1) ?p"
    using more by (subst connect_from.simps) (simp add: i abind_def atry_def sleep_def amodify_def)
  obtain k where k: "Suc NATS_CONNECT_MAX_ATTEMPTS - attempt = Suc k" "Suc NATS_CONNECT_MAX_ATTEMPTS - (attempt + 1) = k"
    using more by (intro that [of "NATS_CONNECT_MAX_ATTEMPTS - attempt"]) auto
  have "1 \<le> attempt + 1" "attempt + 1 \<le> NATS_CONNECT_MAX_ATTEMPTS" using more(1) by auto
  from Suc.hyps(1) [OF more(2) this, of ?p] obtain e' p' where e': "X e'" "connect_from init (attempt + 1) ?p = (Inl e', p')"
    and "np_open p' = rev [np_next ?p..<np_next ?p + k] @ np_open ?p"
    and "np_slept p' = np_slept ?p @ map connect_delay [attempt + 1..<NATS_CONNECT_MAX_ATTEMPTS]"
    unfolding k by blast
  then have "np_open p' = rev [np_next p..<np_next p + Suc k] @ np_open p"
    "np_slept p' = np_slept p @ map connect_delay [attempt..<NATS_CONNECT_MAX_ATTEMPTS]"
    using more(1) by (simp_all add: upt_conv_Cons del: upt_Suc)
  with e' show ?case unfolding step k by blast
qed

text \<open>The shutdown.\<close>

lemma logged_steps_run: "logged_steps raises ss trace = (Inr (), trace @ ss)"
  by (induction ss arbitrary: trace)
    (auto simp: areturn_def abind_def logged_def acatch_def do_step_def split: if_splits)

lemma shut_down_run:
  assumes "\<not> raises DrainInflight"
  shows "shut_down raises polling subs trace =
    (Inr (), trace @ (if polling then [StopPoller] else []) @ [DrainInflight] @ map DrainSubscription subs @
       [ShutdownPool, CloseNats, DisposeLocal, DisposeCrm])"
  using assms
  by (simp add: shut_down_def abind_def logged_steps_run logged_def acatch_def do_step_def areturn_def del: logged_steps.simps)

lemma subscribe_all_run:
  "subscribe_all raises pool names subs trace =
     (let ok = takeWhile (\<lambda>n. \<not> raises (Subscribe n pool)) names
      in case drop (length ok) names of
           [] \<Rightarrow> ((subs @ ok, Inr ()), trace @ map (\<lambda>n. Subscribe n pool) ok)
         | n # _ \<Rightarrow> ((subs @ ok, Inl (Subscribe n pool)), trace @ map (\<lambda>n. Subscribe n pool) ok @ [Subscribe n pool]))"
  by (induction names arbitrary: subs trace) (auto simp: do_step_def Let_def split: list.splits)

lemma do_steps_run: "\<forall>s\<in>set ss. \<not> raises s \<Longrightarrow> do_steps raises ss trace = (Inr (), trace @ ss)"
  by (induction ss arbitrary: trace) (auto simp: areturn_def abind_def do_step_def)

definition setup_steps :: "nat \<Rightarrow> main_step list" where
  "setup_steps pool = [ConfigureLogging, LogRealtimeState, SetupTelemetry, Autodiscover, ConnectNats, GetJetstream,
     InstallSignalHandlers, CreatePool pool]"

section \<open>Properties\<close>


text \<open>C40. A stream that cannot be brought to the declared settings makes the worker give up after three
  minutes, with ten connections open: every attempt connects anew and forgets the previous
  connection without closing it.\<close>

theorem incompatible_stream_leaks_connections:
  assumes "\<And>servers b. fst (js_connect js servers b) = Inr ()"
    and "\<And>stream b. \<exists>m. fst (js_add_stream js stream b) = Inl (BadRequestError 10058 m)"
    and "\<And>stream b. \<exists>m. fst (js_update_stream js stream b) = Inl (APIError m)"
  shows "\<exists>m p'. connect_nats_with_retry js url p = (Inl (StreamIncompatible ''ALGORITHMS'' (APIError m)), p') \<and>
    np_open p' = rev [np_next p..<np_next p + 10] @ np_open p \<and>
    np_slept p' = np_slept p @ [2, 4, 8, 16, 30, 30, 30, 30, 30]"
proof -
  let ?X = "\<lambda>e. \<exists>m. e = StreamIncompatible ''ALGORITHMS'' (APIError m)"
  have streams: "load_streams STREAMS_JSON = Inr [\<lparr> st_name = JStr ''ALGORITHMS'', st_subjects = JList [JStr ''optimce.allocation.>''],
      st_retention = RETENTION_WORK_QUEUE, st_storage = STORAGE_FILE \<rparr>]"
    by (simp add: load_streams_def STREAMS_JSON_def load_stream_def table_get_def RETENTION_MAP_def STORAGE_MAP_def)
  have attempt: "\<exists>e b. ?X e \<and> init_nats js url STREAMS_JSON p = (Inl e, p \<lparr> np_broker := b, np_client := Some (np_next p),
      np_jetstream := Some (np_next p), np_open := np_next p # np_open p, np_next := np_next p + 1 \<rparr>)" for p
  proof -
    let ?s = "\<lparr> st_name = JStr ''ALGORITHMS'', st_subjects = JList [JStr ''optimce.allocation.>''],
      st_retention = RETENTION_WORK_QUEUE, st_storage = STORAGE_FILE \<rparr>"
    obtain b1 where b1: "js_connect js (servers_of url) (np_broker p) = (Inr (), b1)" using assms(1) by (metis prod.collapse)
    obtain m2 b2 where b2: "js_add_stream js ?s b1 = (Inl (BadRequestError 10058 m2), b2)" using assms(2) by (metis prod.collapse)
    obtain m3 b3 where b3: "js_update_stream js ?s b2 = (Inl (APIError m3), b3)" using assms(3) by (metis prod.collapse)
    have "init_nats js url STREAMS_JSON p = (Inl (StreamIncompatible ''ALGORITHMS'' (APIError m3)), p \<lparr> np_broker := b3, np_client := Some (np_next p),
        np_jetstream := Some (np_next p), np_open := np_next p # np_open p, np_next := np_next p + 1 \<rparr>)"
      by (simp add: init_nats_def nats_call_def opened_def streams ensure_stream_def abind_def acatch_def atry_def on_broker_def amodify_def
          b1 b2 b3 araise_def is_api_error_def)
    then show ?thesis by blast
  qed
  have "\<exists>e p'. ?X e \<and> connect_from (init_nats js url STREAMS_JSON) 1 p = (Inl e, p') \<and>
      np_open p' = rev [np_next p..<np_next p + (Suc NATS_CONNECT_MAX_ATTEMPTS - 1)] @ np_open p \<and>
      np_slept p' = np_slept p @ map connect_delay [1..<NATS_CONNECT_MAX_ATTEMPTS]"
    by (rule connect_exhausted [OF attempt]) (simp_all add: NATS_CONNECT_MAX_ATTEMPTS_def)
  then show ?thesis unfolding connect_schedule connect_nats_with_retry_def by (auto simp: NATS_CONNECT_MAX_ATTEMPTS_def)
qed

definition stubborn_jetstream :: "plain_broker jetstream_api" where
  "stubborn_jetstream = plain_jetstream \<lparr> js_add_stream := (\<lambda>_. araise (BadRequestError 10058 ''in use'')),
     js_update_stream := (\<lambda>_. araise (APIError ''storage'')) \<rparr>"

theorem incompatible_stream_leaks_connections_witness:
  "\<exists>m p'. connect_nats_with_retry stubborn_jetstream ''nats://nats:4222''
      \<lparr> np_broker = old_durable, np_client = None, np_jetstream = None, np_open = [], np_next = 0, np_slept = [] \<rparr> =
        (Inl (StreamIncompatible ''ALGORITHMS'' (APIError m)), p') \<and> length (np_open p') = 10"
proof -
  let ?p = "\<lparr> np_broker = old_durable, np_client = None, np_jetstream = None, np_open = [], np_next = 0, np_slept = [] \<rparr>"
  have "\<exists>m p'. connect_nats_with_retry stubborn_jetstream ''nats://nats:4222'' ?p = (Inl (StreamIncompatible ''ALGORITHMS'' (APIError m)), p') \<and>
      np_open p' = rev [np_next ?p..<np_next ?p + 10] @ np_open ?p \<and> np_slept p' = np_slept ?p @ [2, 4, 8, 16, 30, 30, 30, 30, 30]"
    by (rule incompatible_stream_leaks_connections) (simp_all add: stubborn_jetstream_def plain_jetstream_def areturn_def araise_def)
  then show ?thesis by (elim exE conjE) (intro exI conjI, assumption, simp)
qed



end
