(* ===== verification/Settings.thy ===== *)
theory Settings
  imports PyText Prelude
begin

text \<open>
  The configuration and what it decides at start-up: the settings with their validator
  (\<open>core/config.py\<close>), the allowed origins of \<open>main.py\<close>, the exporters and their shutdown
  (\<open>core/tracing.py\<close>) and the log handlers with the request-scoped fields (\<open>core/logging.py\<close>).
\<close>

datatype environment = LOCAL | TEST | STAGING | PRODUCTION

record settings =
  ENV :: environment
  CRM_DATABASE_URL :: string
  CRM_DB_POOL_SIZE :: int
  CRM_DB_MAX_OVERFLOW :: int
  CRM_DB_POOL_RECYCLE :: int
  CRM_DB_POOL_TIMEOUT :: int
  CRM_DB_SSL :: bool
  LOCAL_DATABASE_URL :: string
  LOCAL_DB_POOL_SIZE :: int
  LOCAL_DB_MAX_OVERFLOW :: int
  LOCAL_DB_POOL_RECYCLE :: int
  LOCAL_DB_POOL_TIMEOUT :: int
  LOCAL_DB_SSL :: bool
  NATS_URL :: string
  STORAGE_ENDPOINT :: string
  STORAGE_BUCKET :: string
  STORAGE_ACCESS_KEY :: string
  STORAGE_SECRET_KEY :: string
  STORAGE_REGION :: string
  REALTIME_ENABLED :: bool
  REALTIME_REDIS_URL :: string
  ALLOW_ORIGIN :: string
  LOGGING_TOKEN :: string
  LOGGING_TRACES_URL :: string
  LOGGING_LOGS_URL :: string
  LOGGING_METRICS_URL :: string

text \<open>The declared defaults; the two database addresses have none.\<close>

definition default_settings :: "string \<Rightarrow> string \<Rightarrow> settings" where
  "default_settings crm_url local_url =
     \<lparr> ENV = LOCAL, CRM_DATABASE_URL = crm_url, CRM_DB_POOL_SIZE = 20, CRM_DB_MAX_OVERFLOW = 10, CRM_DB_POOL_RECYCLE = 3600,
       CRM_DB_POOL_TIMEOUT = 30, CRM_DB_SSL = False, LOCAL_DATABASE_URL = local_url, LOCAL_DB_POOL_SIZE = 20,
       LOCAL_DB_MAX_OVERFLOW = 10, LOCAL_DB_POOL_RECYCLE = 3600, LOCAL_DB_POOL_TIMEOUT = 30, LOCAL_DB_SSL = False,
       NATS_URL = [], STORAGE_ENDPOINT = [], STORAGE_BUCKET = ''crm-files'', STORAGE_ACCESS_KEY = [], STORAGE_SECRET_KEY = [],
       STORAGE_REGION = ''us-east-1'', REALTIME_ENABLED = False, REALTIME_REDIS_URL = [], ALLOW_ORIGIN = ''*'',
       LOGGING_TOKEN = [], LOGGING_TRACES_URL = [], LOGGING_LOGS_URL = [], LOGGING_METRICS_URL = [] \<rparr>"

section \<open>Validation\<close>

definition get_env_file :: "string option \<Rightarrow> string" where
  "get_env_file env = ''.env.'' @ strip (case env of None \<Rightarrow> ''local'' | Some e \<Rightarrow> e)"

text \<open>\<open>[o.strip() for o in ALLOW_ORIGIN.split(",") if o.strip()]\<close>.\<close>

definition origins_of :: "string \<Rightarrow> string list" where
  "origins_of s = filter (\<lambda>x. x \<noteq> []) (map strip (split_at (CHR '','') s))"

definition require :: "bool \<Rightarrow> string \<Rightarrow> unit result" where
  "require ok message = (if ok then Inr () else Inl (ValueError message))"

fun require_all :: "(bool \<times> string) list \<Rightarrow> unit result" where
  "require_all [] = Inr ()"
| "require_all ((ok, message) # rs) = rbind (require ok message) (\<lambda>_. require_all rs)"

definition validate_env_config :: "settings \<Rightarrow> settings result" where
  "validate_env_config c =
     rbind (if ENV c \<noteq> LOCAL
            then require_all
              [(origins_of (ALLOW_ORIGIN c) \<noteq> [], ''ALLOW_ORIGIN is required when ENV is not local; set it explicitly in .env.{env} '' @
                  ''(no implicit fallback to '' @ [CHR 0x27] @ ''*'' @ [CHR 0x27] @ '')''),
               (CHR ''*'' \<notin> set (ALLOW_ORIGIN c), ''Wildcard CORS not allowed in staging/production''),
               (strip (CRM_DATABASE_URL c) \<noteq> [], ''CRM_DATABASE_URL is required when ENV is not local''),
               (strip (LOCAL_DATABASE_URL c) \<noteq> [], ''LOCAL_DATABASE_URL is required when ENV is not local'')]
            else Inr ()) (\<lambda>_.
     rbind (if ENV c \<in> {STAGING, PRODUCTION}
            then require_all
              [(strip (NATS_URL c) \<noteq> [], ''NATS_URL is required in staging/production''),
               (strip (STORAGE_ENDPOINT c) \<noteq> [], ''STORAGE_ENDPOINT is required in staging/production''),
               (strip (STORAGE_ACCESS_KEY c) \<noteq> [], ''STORAGE_ACCESS_KEY is required in staging/production''),
               (strip (STORAGE_SECRET_KEY c) \<noteq> [], ''STORAGE_SECRET_KEY is required in staging/production'')]
            else Inr ()) (\<lambda>_.
     rbind (if ENV c = PRODUCTION
            then require_all
              [(LOGGING_TOKEN c \<noteq> [], ''LOGGING_TOKEN required for staging/production''),
               (LOGGING_LOGS_URL c \<noteq> [], ''LOGGING_LOGS_URL required for staging/production''),
               (LOGGING_METRICS_URL c \<noteq> [], ''LOGGING_METRICS_URL required for staging/production'')]
            else Inr ()) (\<lambda>_. Inr c)))"

text \<open>The CORS middleware and the interactive documentation of \<open>main.py\<close>.\<close>

definition allow_origins :: "settings \<Rightarrow> string list" where
  "allow_origins c = origins_of (ALLOW_ORIGIN c)"

definition docs_urls :: "settings \<Rightarrow> string option list" where
  "docs_urls c = (if ENV c = LOCAL then [Some ''/docs'', Some ''/redoc'', Some ''/openapi.json''] else [None, None, None])"

section \<open>Telemetry\<close>

definition EXPORTER_TIMEOUT_SECONDS :: nat where "EXPORTER_TIMEOUT_SECONDS = 5"
definition EXPORTER_TIMEOUT_MS :: nat where "EXPORTER_TIMEOUT_MS = EXPORTER_TIMEOUT_SECONDS * 1000"

text \<open>
  The exporters started, with their endpoint and their timeout in seconds; the handlers of the root
  logger by number; the three module globals; and whether the flush is registered with \<open>atexit\<close>.
\<close>

record telemetry =
  tm_exporters :: "(string \<times> nat) list"
  tm_root_handlers :: "nat list"
  tm_next_handler :: nat
  tm_meter_provider :: bool
  tm_log_provider :: bool
  tm_log_handler :: "nat option"
  tm_atexit :: nat

definition setup_tracer_provider :: "settings \<Rightarrow> telemetry \<Rightarrow> telemetry" where
  "setup_tracer_provider c t =
     (if ENV c = LOCAL then t
      else if LOGGING_METRICS_URL c = [] \<or> LOGGING_LOGS_URL c = [] then t
      else t \<lparr> tm_exporters := tm_exporters t @
                 [(LOGGING_LOGS_URL c, EXPORTER_TIMEOUT_SECONDS), (LOGGING_METRICS_URL c, EXPORTER_TIMEOUT_SECONDS)],
               tm_root_handlers := tm_root_handlers t @ [tm_next_handler t], tm_next_handler := tm_next_handler t + 1,
               tm_log_handler := Some (tm_next_handler t), tm_meter_provider := True, tm_log_provider := True,
               tm_atexit := tm_atexit t + 1 \<rparr>)"

text \<open>Flushing either provider may raise; both exceptions are logged.\<close>

definition shutdown_telemetry :: "bool \<Rightarrow> telemetry \<Rightarrow> telemetry" where
  "shutdown_telemetry flushed t =
     (if tm_log_provider t \<and> flushed
      then (case tm_log_handler t of
              None \<Rightarrow> t
            | Some h \<Rightarrow> t \<lparr> tm_root_handlers := remove1 h (tm_root_handlers t), tm_log_handler := None \<rparr>)
      else t)"

text \<open>The span of a request: its attributes and its status, if it is recording.\<close>

datatype span_status = UNSET | OK | ERROR

record span =
  sp_attributes :: "(string \<times> string) list"
  sp_status :: span_status

definition or_else :: "string option \<Rightarrow> string \<Rightarrow> string" where
  "or_else v otherwise = (case v of None \<Rightarrow> otherwise | Some s \<Rightarrow> if s = [] then otherwise else s)"

definition set_attribute :: "string \<Rightarrow> string \<Rightarrow> span option \<Rightarrow> span option" where
  "set_attribute k v s = map_option (\<lambda>s. s \<lparr> sp_attributes := (k, v) # filter (\<lambda>(k', _). k' \<noteq> k) (sp_attributes s) \<rparr>) s"

definition add_exception :: "span option \<Rightarrow> span option" where
  "add_exception s = map_option (\<lambda>s. s \<lparr> sp_status := ERROR \<rparr>) s"

text \<open>\<open>enrich_span\<close> around the handling of a request.\<close>

definition enrich_span ::
  "string option \<Rightarrow> string option \<Rightarrow> string option \<Rightarrow> (span option \<Rightarrow> span option) \<Rightarrow> span option \<Rightarrow> span option" where
  "enrich_span user_id user_role request_id request s =
     (let s1 = set_attribute ''request.id'' (or_else request_id [])
            (set_attribute ''user.role'' (or_else user_role []) (set_attribute ''user.id'' (or_else user_id []) s))
      in map_option (\<lambda>s2. if sp_status s2 = UNSET then s2 \<lparr> sp_status := OK \<rparr> else s2) (request s1))"

section \<open>Logging\<close>

text \<open>What \<open>RequestIdFilter\<close> stamps onto a record.\<close>

definition request_id_filter :: "string option \<Rightarrow> string option \<Rightarrow> string option \<Rightarrow> string option \<Rightarrow> (string \<times> string) list" where
  "request_id_filter request_id user_id community_id user_role =
     [(''request_id'', or_else request_id ''-''), (''user_id'', or_else user_id ''-''),
      (''community_id'', or_else community_id ''-''), (''user_role'', or_else user_role ''-'')]"

datatype formatter = PlainFormatter | JsonFormatter

datatype level = DEBUG_LEVEL | INFO_LEVEL

text \<open>The console handlers of the root logger and its level.\<close>

definition configure_logging :: "settings \<Rightarrow> formatter list \<times> level" where
  "configure_logging c =
     (case ENV c of
        LOCAL \<Rightarrow> ([PlainFormatter], DEBUG_LEVEL)
      | STAGING \<Rightarrow> ([JsonFormatter], INFO_LEVEL)
      | _ \<Rightarrow> ([], INFO_LEVEL))"

section \<open>Lemmas\<close>

lemma require_all_iff: "require_all rs = Inr () \<longleftrightarrow> list_all fst rs"
  by (induction rs rule: require_all.induct) (auto simp: require_def)

lemma validated:
  "validate_env_config c = Inr c' \<longleftrightarrow> c' = c \<and>
     (ENV c \<noteq> LOCAL \<longrightarrow> origins_of (ALLOW_ORIGIN c) \<noteq> [] \<and> CHR ''*'' \<notin> set (ALLOW_ORIGIN c) \<and>
        strip (CRM_DATABASE_URL c) \<noteq> [] \<and> strip (LOCAL_DATABASE_URL c) \<noteq> []) \<and>
     (ENV c \<in> {STAGING, PRODUCTION} \<longrightarrow> strip (NATS_URL c) \<noteq> [] \<and> strip (STORAGE_ENDPOINT c) \<noteq> [] \<and>
        strip (STORAGE_ACCESS_KEY c) \<noteq> [] \<and> strip (STORAGE_SECRET_KEY c) \<noteq> []) \<and>
     (ENV c = PRODUCTION \<longrightarrow> LOGGING_TOKEN c \<noteq> [] \<and> LOGGING_LOGS_URL c \<noteq> [] \<and> LOGGING_METRICS_URL c \<noteq> [])"
proof -
  have bind: "rbind r (\<lambda>_. s) = Inr x \<longleftrightarrow> r = Inr () \<and> s = Inr x" for r :: "unit result" and s :: "settings result" and x
    by (cases r) auto
  show ?thesis
    unfolding validate_env_config_def bind by (auto simp: require_all_iff simp del: require_all.simps)
qed

lemma strip_subset: "set (strip s) \<subseteq> set s"
  by (auto simp: strip_def rstrip_by_def lstrip_by_def dest!: set_dropWhileD)

lemma split_at_subset: "p \<in> set (split_at c s) \<Longrightarrow> set p \<subseteq> set s"
proof (induction s arbitrary: p)
  case (Cons x xs)
  then show ?case by (fastforce split: if_splits list.splits)
qed simp

lemma origins_subset: "x \<in> set (origins_of s) \<Longrightarrow> x \<noteq> [] \<and> set x \<subseteq> set s"
  using strip_subset split_at_subset by (fastforce simp: origins_of_def)

text \<open>
  Telemetry: an exporter is started with a configured endpoint only, an accepted production
  configuration starts both, and shutting down twice is shutting down once.
\<close>

lemma exporters_have_endpoints:
  "\<exists>xs. tm_exporters (setup_tracer_provider c t) = tm_exporters t @ xs \<and> (\<forall>(url, timeout)\<in>set xs. url \<noteq> [] \<and> timeout = 5)"
  by (auto simp: setup_tracer_provider_def EXPORTER_TIMEOUT_SECONDS_def)

lemma production_exports:
  assumes "validate_env_config c = Inr c'" "ENV c' = PRODUCTION"
  shows "map fst (tm_exporters (setup_tracer_provider c' t)) = map fst (tm_exporters t) @ [LOGGING_LOGS_URL c', LOGGING_METRICS_URL c']"
  using assms by (auto simp: validated setup_tracer_provider_def)

lemma shutdown_twice: "shutdown_telemetry b (shutdown_telemetry b t) = shutdown_telemetry b t"
  by (simp add: shutdown_telemetry_def split: option.split)

section \<open>Properties\<close>

text \<open>Outside the local environment no accepted configuration lets the service answer every origin:
  the list given to the CORS middleware is not empty, and none of its entries is blank or contains a
  wildcard. The interactive documentation is then switched off.\<close>

theorem no_wildcard_outside_local:
  assumes "validate_env_config c = Inr c'" "ENV c' \<noteq> LOCAL"
  shows "allow_origins c' \<noteq> [] \<and> list_all (\<lambda>x. x \<noteq> [] \<and> CHR ''*'' \<notin> set x) (allow_origins c') \<and> docs_urls c' = [None, None, None]"
proof -
  have c: "c' = c" "origins_of (ALLOW_ORIGIN c) \<noteq> []" "CHR ''*'' \<notin> set (ALLOW_ORIGIN c)"
    using assms by (auto simp: validated)
  then have "x \<noteq> [] \<and> CHR ''*'' \<notin> set x" if "x \<in> set (allow_origins c')" for x
    using origins_subset [of x "ALLOW_ORIGIN c"] that by (auto simp: allow_origins_def)
  then show ?thesis using assms(2) c by (simp add: list_all_iff allow_origins_def docs_urls_def)
qed

definition test_settings :: settings where
  "test_settings = (default_settings ''postgresql://crm'' ''postgresql://local'') \<lparr> ENV := TEST, ALLOW_ORIGIN := ''http://a, ,http://b'' \<rparr>"

theorem no_wildcard_outside_local_witness:
  "allow_origins test_settings \<noteq> [] \<and> docs_urls test_settings = [None, None, None]"
proof -
  have "validate_env_config test_settings = Inr test_settings" "ENV test_settings \<noteq> LOCAL"
    unfolding validated by (simp_all add: test_settings_def default_settings_def origins_of_def strip_def rstrip_by_def lstrip_by_def is_space_def)
  from no_wildcard_outside_local [OF this] show ?thesis by simp
qed

end
