(* ===== verification/Discovery.thy ===== *)
theory Discovery
  imports BruteForceAlgorithm OlagsaAlgorithm
begin

text \<open>
  What the registry holds once the packages of \<open>algorithms_implemented\<close> are discovered
  (\<open>algorithms/__init__.py\<close>), and the type soundness of the input schemas: the inputs that
  validation accepts have the types and ranges the schemas declare.
\<close>

section \<open>Typing of inputs\<close>

fun field_typed :: "field_type \<Rightarrow> input_value \<Rightarrow> bool" where
  "field_typed (IntField lo hi) (VInt i) \<longleftrightarrow>
     (case lo of None \<Rightarrow> True | Some l \<Rightarrow> l \<le> i) \<and> (case hi of None \<Rightarrow> True | Some h \<Rightarrow> i \<le> h)"
| "field_typed (FloatField lo hi) (VFloat x) \<longleftrightarrow> lo \<le> x \<and> x \<le> hi"
| "field_typed _ _ \<longleftrightarrow> False"

definition inputs_typed :: "input_schema \<Rightarrow> inputs \<Rightarrow> bool" where
  "inputs_typed schema ins \<longleftrightarrow> list_all2 (\<lambda>f e. fst e = fld_name f \<and> field_typed (fld_type f) (snd e)) schema ins"

definition defaults_typed :: "input_schema \<Rightarrow> bool" where
  "defaults_typed schema \<longleftrightarrow> list_all (\<lambda>f. case fld_default f of None \<Rightarrow> True | Some v \<Rightarrow> field_typed (fld_type f) v) schema"

lemma validate_field_typed: "validate_field co ft j = Inr v \<Longrightarrow> field_typed ft v"
  by (cases ft) (auto split: option.splits if_splits)

lemma model_validate_typed:
  assumes "defaults_typed schema" "model_validate co schema obj = Inr ins"
  shows "inputs_typed schema ins"
proof -
  obtain kvs where "obj = JObj kvs" using assms(2) by (auto simp: model_validate_def split: json.splits)
  with assms(2) have all: "list_all2 (\<lambda>f e. (case map_of kvs (fld_name f) of
        Some j \<Rightarrow> rbind (validate_field co (fld_type f) j) (\<lambda>v. Inr (fld_name f, v))
      | None \<Rightarrow> (case fld_default f of None \<Rightarrow> Inl (ValueError ''missing'') | Some v \<Rightarrow> Inr (fld_name f, v))) = Inr e) schema ins"
    by (auto simp: model_validate_def rmapM_Inr_iff split: if_splits)
  have typed: "fst e = fld_name f \<and> field_typed (fld_type f) (snd e)"
    if "f \<in> set schema" "(case map_of kvs (fld_name f) of
        Some j \<Rightarrow> rbind (validate_field co (fld_type f) j) (\<lambda>v. Inr (fld_name f, v))
      | None \<Rightarrow> (case fld_default f of None \<Rightarrow> Inl (ValueError ''missing'') | Some v \<Rightarrow> Inr (fld_name f, v))) = Inr e" for f e
  proof (cases "map_of kvs (fld_name f)")
    case None
    then show ?thesis
      using that assms(1) unfolding defaults_typed_def list_all_iff by (auto split: option.splits dest!: bspec)
  next
    case (Some j)
    then show ?thesis
      using that validate_field_typed by (cases "validate_field co (fld_type f) j") auto
  qed
  show ?thesis unfolding inputs_typed_def by (rule list.rel_mono_strong [OF all]) (rule typed)
qed

lemma repository_defaults_typed:
  "defaults_typed (md_input_schema BRUTE_FORCE_METADATA)" "defaults_typed (md_input_schema OLAGSA_METADATA)"
  by (simp_all add: defaults_typed_def BRUTE_FORCE_METADATA_def OLAGSA_METADATA_def BruteForceInput_def OlagsaInput_def)

section \<open>Discovery\<close>

text \<open>Module code that keeps the registry well-formed; \<open>init_code\<close> and \<open>algorithm_code\<close> do.\<close>

definition keeps_registry :: "(registry \<Rightarrow> py_error option \<times> registry) \<Rightarrow> bool" where
  "keeps_registry code \<longleftrightarrow> (\<forall>r. registry_inv r \<longrightarrow> registry_inv (snd (code r)))"

lemma repository_code_keeps: "keeps_registry (init_code meta)" "keeps_registry (algorithm_code cls)"
  by (auto simp: keeps_registry_def init_code_def algorithm_code_def register_implementation_inv
      intro: register_metadata_inv split: sum.splits)

lemma import_keeps: "keeps_registry code \<Longrightarrow> registry_inv (is_registry st) \<Longrightarrow> registry_inv (is_registry (snd (import_module name code st)))"
  by (auto simp: import_module_def keeps_registry_def split: prod.splits option.splits)

lemma discover_keeps:
  assumes "keeps_registry (mi_init m)" "keeps_registry (mi_algorithm m)" "registry_inv (is_registry st)"
  shows "registry_inv (is_registry (discover_package load m st))"
proof -
  obtain ok st1 where s: "import_module (mi_name m) (mi_init m) st = (ok, st1)" by (cases "import_module (mi_name m) (mi_init m) st")
  then have "registry_inv (is_registry st1)" using import_keeps [OF assms(1,3), of "mi_name m"] by simp
  then show ?thesis using assms(3) import_keeps [OF assms(2)] by (auto simp: discover_package_def s)
qed

lemma autodiscover_keeps:
  assumes "\<forall>m\<in>set mods. keeps_registry (mi_init m) \<and> keeps_registry (mi_algorithm m)" "registry_inv (is_registry st)"
  shows "registry_inv (is_registry (autodiscover load mods st))"
  using assms unfolding autodiscover_def by (induction mods arbitrary: st) (auto intro: discover_keeps)

text \<open>The packages of the repository, with the random and solver environment of OLAGSA.\<close>

definition repository_modules :: "'w env \<Rightarrow> 'w \<Rightarrow> module_info list" where
  "repository_modules env w =
     [\<lparr> mi_name = ''brute_force'', mi_ispkg = True, mi_init = init_code BRUTE_FORCE_METADATA, mi_algorithm = algorithm_code BruteForceAlgorithm_class \<rparr>,
      \<lparr> mi_name = ''olagsa'', mi_ispkg = True, mi_init = init_code OLAGSA_METADATA, mi_algorithm = algorithm_code (OlagsaAlgorithm_class env w) \<rparr>]"

definition fresh_imports :: import_state where
  "fresh_imports = \<lparr> is_registry = empty_registry, is_modules = [] \<rparr>"

lemma discovered:
  "autodiscover load (repository_modules env w) fresh_imports =
    \<lparr> is_registry = \<lparr> reg_metadata = [(''brute_force'', BRUTE_FORCE_METADATA), (''olagsa'', OLAGSA_METADATA)],
        reg_implementations = (if load then [(''brute_force'', BruteForceAlgorithm_class), (''olagsa'', OlagsaAlgorithm_class env w)] else []) \<rparr>,
      is_modules = (if load then [''brute_force'', ''brute_force.algorithm'', ''olagsa'', ''olagsa.algorithm''] else [''brute_force'', ''olagsa'']) \<rparr>"
proof -
  have names: "md_name BRUTE_FORCE_METADATA = ''brute_force''" "md_name OLAGSA_METADATA = ''olagsa''"
    by (simp_all add: BRUTE_FORCE_METADATA_def OLAGSA_METADATA_def)
  show ?thesis
    by (cases load) (simp_all add: autodiscover_def repository_modules_def fresh_imports_def discover_package_def import_module_def
        init_code_def algorithm_code_def register_metadata_def register_implementation_def registry_contains_def dict_keys_def
        empty_registry_def names BruteForceAlgorithm_class_def OlagsaAlgorithm_class_def Let_def)
qed

section \<open>Properties\<close>



text \<open>The API and the worker know the same algorithms: discovering the packages lists the metadata of
  both once and in the same order in either process; the worker also gets the class of each, the API
  none; and a second discovery changes nothing.\<close>

theorem discovery_is_complete_and_idempotent:
  "let st = autodiscover load (repository_modules env w) fresh_imports; r = is_registry st
    in list_all_metadata r = [BRUTE_FORCE_METADATA, OLAGSA_METADATA] \<and> registry_inv r \<and>
       registry_implementation r ''brute_force'' = (if load then Inr BruteForceAlgorithm_class else Inl (KeyError ''brute_force'')) \<and>
       registry_implementation r ''olagsa'' = (if load then Inr (OlagsaAlgorithm_class env w) else Inl (KeyError ''olagsa'')) \<and>
       autodiscover load (repository_modules env w) st = st"
proof -
  have names: "md_name BRUTE_FORCE_METADATA = ''brute_force''" "md_name OLAGSA_METADATA = ''olagsa''"
    by (simp_all add: BRUTE_FORCE_METADATA_def OLAGSA_METADATA_def)
  have "registry_inv (is_registry (autodiscover load (repository_modules env w) fresh_imports))"
    by (rule autodiscover_keeps) (simp_all add: repository_modules_def repository_code_keeps fresh_imports_def registry_inv_empty)
  moreover have "autodiscover load (repository_modules env w) (autodiscover load (repository_modules env w) fresh_imports) =
      autodiscover load (repository_modules env w) fresh_imports"
    unfolding discovered
    by (cases load) (simp_all add: autodiscover_def repository_modules_def discover_package_def import_module_def)
  ultimately show ?thesis
    unfolding discovered
    by (cases load) (simp_all add: Let_def list_all_metadata_def dict_values_def registry_implementation_def)
qed

end
