(* ===== verification/Processes.thy ===== *)
theory Processes
  imports WorkerMain Settings Discovery
begin

text \<open>
  The processes of the service and what each does beside its main loop: the realtime client and the
  line it logs at start-up (\<open>core/realtime/bus.py\<close>), the lifespan of the API (\<open>main.py\<close>), the start
  of a solver process, its pool's shutdown and the signal handlers (\<open>worker/main.py\<close>), and the
  heartbeat of a message (\<open>_in_progress_until_done\<close> of \<open>worker/dispatcher.py\<close>).
\<close>

section \<open>The realtime client\<close>

text \<open>The settings of the publisher, its global, and the clients that were created and are not closed.\<close>

record publisher =
  pb_enabled :: bool
  pb_url :: string
  pb_client :: "nat option"
  pb_open :: "nat set"
  pb_next :: nat

text \<open>The second log level is used when the publisher is enabled without an address; a dash is three bytes.\<close>

datatype announcement = Announced string | Misconfigured string

definition dash :: string where
  "dash = [CHR 0xE2, CHR 0x80, CHR 0x94] @ '' ''"

definition log_realtime_state :: "publisher \<Rightarrow> string \<Rightarrow> announcement" where
  "log_realtime_state p component =
     (if \<not> pb_enabled p then Announced (''Realtime disabled '' @ dash @ component @ '' publishes nothing'')
      else if pb_url p = [] then Misconfigured (''Realtime ENABLED but REALTIME_REDIS_URL is empty '' @ dash @ component @ '' publishes nothing'')
      else Announced (''Realtime publisher ready '' @ dash @ component @ '' publishing to '' @ redacted_url (pb_url p)))"

text \<open>Creating the client is taken to succeed; \<open>emit\<close> would log a refused address.\<close>

definition get_client :: "publisher \<Rightarrow> nat \<times> publisher" where
  "get_client p =
     (case pb_client p of
        Some i \<Rightarrow> (i, p)
      | None \<Rightarrow> (pb_next p, p \<lparr> pb_client := Some (pb_next p), pb_open := insert (pb_next p) (pb_open p), pb_next := pb_next p + 1 \<rparr>))"

text \<open>Closing may fail, which leaves the client open; the global is cleared all the same.\<close>

definition close_realtime :: "bool \<Rightarrow> publisher \<Rightarrow> publisher" where
  "close_realtime fails p =
     (case pb_client p of
        None \<Rightarrow> p
      | Some i \<Rightarrow> p \<lparr> pb_client := None, pb_open := (if fails then pb_open p else pb_open p - {i}) \<rparr>)"

definition one_client :: "publisher \<Rightarrow> bool" where
  "one_client p \<longleftrightarrow> pb_open p = set_option (pb_client p) \<and> (\<forall>i\<in>pb_open p. i < pb_next p)"

lemma one_client_kept:
  assumes "one_client p"
  shows "one_client (snd (get_client p))" "one_client (close_realtime False p)"
  using assms by (auto simp: one_client_def get_client_def close_realtime_def split: option.split)

lemma get_client_twice: "get_client (snd (get_client p)) = (fst (get_client p), snd (get_client p))"
  by (simp add: get_client_def split: option.split)

text \<open>
  What is logged about the address does not depend on its user and password, whatever characters
  they hold.
\<close>

lemma partition_at_first:
  assumes "CHR '':'' \<notin> set scheme"
  shows "partition_at ''://'' (scheme @ ''://'' @ rest) = Some (scheme, rest)"
  using assms by (induction scheme) auto

lemma after_last_split: "CHR ''@'' \<notin> set host \<Longrightarrow> after_last (CHR ''@'') (userinfo @ CHR ''@'' # host) = host"
  by (simp add: after_last_def takeWhile_append takeWhile_eq_all_conv [THEN iffD2])

section \<open>The lifespan of the API\<close>

definition lifespan_start :: "main_step list" where
  "lifespan_start = [LogRealtimeState, SetupTelemetry, ConnectNats, Autodiscover]"

definition lifespan :: "(main_step \<Rightarrow> bool) \<Rightarrow> unit main_act \<Rightarrow> unit main_act" where
  "lifespan raises serving =
     abind (do_steps raises lifespan_start) (\<lambda>_. abind serving (\<lambda>_. do_step raises CloseNats))"

lemma failed_discovery_keeps_connection:
  "lifespan (\<lambda>s. s = Autodiscover) serving [] = (Inl Autodiscover, [LogRealtimeState, SetupTelemetry, ConnectNats, Autodiscover])"
  by (simp add: lifespan_def lifespan_start_def abind_def do_step_def)

section \<open>Solver processes\<close>

text \<open>The initializer of a solver process, on its empty registry.\<close>

definition init_solver_process ::
  "bool \<Rightarrow> bool \<Rightarrow> module_info list \<Rightarrow> (string option \<times> log_level option) \<times> import_state" where
  "init_solver_process on_linux writable mods = (raise_oom_score on_linux writable, autodiscover True mods fresh_imports)"

text \<open>\<open>shutdown(wait=False, cancel_futures=True)\<close> of the pool the object holds at that time.\<close>

definition pool_shutdown :: "('p \<Rightarrow> 'p) \<Rightarrow> 'p solver_pool \<Rightarrow> 'p solver_pool" where
  "pool_shutdown ex_shutdown sp = sp \<lparr> sp_pool := ex_shutdown (sp_pool sp) \<rparr>"

lemma solver_process_knows_the_algorithms:
  "let r = is_registry (snd (init_solver_process on_linux writable (repository_modules env w)))
   in registry_implementation r ''brute_force'' = Inr BruteForceAlgorithm_class \<and>
      registry_implementation r ''olagsa'' = Inr (OlagsaAlgorithm_class env w)"
  by (simp add: init_solver_process_def discovered registry_implementation_def Let_def)

text \<open>A submission to a broken pool is served by a new pool of the same size.\<close>

lemma pool_rebuilt:
  assumes "ex_submit ex (sp_pool sp) = (Inl BrokenProcessPool, q)" "ex_submit ex (ex_new ex (sp_max_workers sp)) = (Inr f, q')"
  shows "pool_submit ex sp = (Inr f, \<lparr> sp_max_workers = sp_max_workers sp, sp_pool = q' \<rparr>)"
  using assms by (cases sp) (simp add: pool_submit_def)

section \<open>Signals\<close>

datatype os_signal = SIGINT | SIGTERM

datatype signal_route = LoopHandler | SignalModule

definition install_signal_handlers :: "bool \<Rightarrow> (os_signal \<Rightarrow> bool) \<Rightarrow> (os_signal \<times> signal_route) list" where
  "install_signal_handlers windows supported =
     (if windows then [(SIGINT, SignalModule), (SIGTERM, SignalModule)]
      else map (\<lambda>s. (s, if supported s then LoopHandler else SignalModule)) [SIGINT, SIGTERM])"

text \<open>The handler: set the event unless it is set.\<close>

definition set_event :: "bool \<Rightarrow> bool" where
  "set_event is_set = (if \<not> is_set then True else is_set)"

lemma every_signal_handled: "map fst (install_signal_handlers windows supported) = [SIGINT, SIGTERM]"
  by (simp add: install_signal_handlers_def)

section \<open>The heartbeat around a message\<close>

text \<open>The seconds at which the heartbeat fires while the body of a message takes \<open>d\<close> seconds.\<close>

definition in_progress_until_done :: "nat \<Rightarrow> nat list" where
  "in_progress_until_done d = map (\<lambda>k. IN_PROGRESS_INTERVAL_SECONDS * k) [1..<Suc (d div IN_PROGRESS_INTERVAL_SECONDS)]"

lemma no_beat_after_the_reply: "t \<in> set (in_progress_until_done d) \<Longrightarrow> 0 < t \<and> t \<le> d"
  by (auto simp: in_progress_until_done_def IN_PROGRESS_INTERVAL_SECONDS_def less_Suc_eq_le)

lemma beats_cover: "t \<le> d \<Longrightarrow> \<exists>b\<in>insert 0 (set (in_progress_until_done d)). b \<le> t \<and> t < b + IN_PROGRESS_INTERVAL_SECONDS"
proof -
  assume t: "t \<le> d"
  have "t div 60 \<le> d div 60" using t by (rule div_le_mono)
  then have "60 * (t div 60) \<in> insert 0 (set (in_progress_until_done d))"
    by (cases "t div 60 = 0") (auto simp: in_progress_until_done_def IN_PROGRESS_INTERVAL_SECONDS_def image_iff Bex_def)
  moreover have "60 * (t div 60) \<le> t \<and> t < 60 * (t div 60) + 60"
    using dividend_less_times_div [of 60 t] by simp
  ultimately show ?thesis unfolding IN_PROGRESS_INTERVAL_SECONDS_def by blast
qed

section \<open>Properties\<close>

text \<open>The line that announces the publisher never shows the credentials of the broker: it is the same for
  every user and password, whatever characters they hold.\<close>

theorem announcement_hides_credentials:
  assumes "CHR '':'' \<notin> set scheme" "CHR ''@'' \<notin> set host"
  shows "log_realtime_state (p \<lparr> pb_url := scheme @ ''://'' @ userinfo @ ''@'' @ host \<rparr>) component =
    log_realtime_state (p \<lparr> pb_url := scheme @ ''://'' @ other @ ''@'' @ host \<rparr>) component"
  using assms after_last_split [of host]
  by (simp add: log_realtime_state_def redacted_url_def partition_at_first [of scheme, simplified])

theorem announcement_hides_credentials_witness:
  "log_realtime_state \<lparr> pb_enabled = True, pb_url = ''redis://:p@ss://w@redis:6379/0'', pb_client = None, pb_open = {}, pb_next = 0 \<rparr> ''worker'' =
   Announced (''Realtime publisher ready '' @ dash @ ''worker publishing to redis://***@redis:6379/0'')"
proof -
  let ?p = "\<lparr> pb_enabled = True, pb_url = [], pb_client = None, pb_open = {}, pb_next = 0 \<rparr>"
  have "CHR '':'' \<notin> set ''redis''" "CHR ''@'' \<notin> set ''redis:6379/0''" by simp_all
  from announcement_hides_credentials [OF this, where p = ?p and userinfo = "'':p@ss://w''" and other = "''user''" and component = "''worker''"] show ?thesis
    by (simp add: log_realtime_state_def redacted_url_def after_last_def)
qed

end
