(* ===== verification/Concurrency.thy ===== *)
theory Concurrency
  imports Dispatcher
begin

text \<open>
  The worker's concurrency (\<open>worker/dispatcher.py\<close>): the callback that runs every message as a task
  of its own (\<open>_make_handler\<close>), the semaphore around the solves (\<open>_run_algorithm\<close>), the in-progress
  acknowledgements (\<open>_in_progress_until_done\<close>), and the cancellation of tasks at shutdown
  (\<open>_drain_inflight\<close> of \<open>worker/main.py\<close>). A step of the machine is one of these or a step of the
  broker within the settings the worker subscribes with.
\<close>

section \<open>Tasks\<close>

datatype task_phase = Preparing | Waiting | Solving | Finishing

text \<open>
  \<open>wp_tasks\<close> holds the running tasks by the number of their message, so its domain is the set
  \<open>inflight\<close>; the broker keeps what it may deliver, what it has delivered without an
  acknowledgement, and how often.
\<close>

record worker_pool =
  wp_queued :: "nat set"
  wp_unacked :: "nat set"
  wp_deliveries :: "nat \<Rightarrow> nat"
  wp_tasks :: "nat \<Rightarrow> task_phase option"

definition inflight :: "worker_pool \<Rightarrow> nat set" where
  "inflight s = dom (wp_tasks s)"

definition in_phase :: "task_phase \<Rightarrow> worker_pool \<Rightarrow> nat set" where
  "in_phase ph s = {m. wp_tasks s m = Some ph}"

text \<open>
  The callback: create the task, add it to \<open>inflight\<close>, return. (Without \<open>inflight\<close>, as unit tests
  call it, it handles the message inline; \<open>main\<close> always passes the set.)
\<close>

definition handle :: "nat \<Rightarrow> worker_pool \<Rightarrow> worker_pool" where
  "handle m s = s \<lparr> wp_tasks := (wp_tasks s)(m \<mapsto> Preparing) \<rparr>"

text \<open>The done callback: discard the task.\<close>

definition on_task_done :: "nat \<Rightarrow> worker_pool \<Rightarrow> worker_pool" where
  "on_task_done m s = s \<lparr> wp_tasks := (wp_tasks s)(m := None) \<rparr>"

text \<open>
  The consumer of the algorithm of a message delivers no more than \<open>pool\<close> unacknowledged messages
  and none more than \<open>MAX_DELIVER\<close> times; the semaphore has \<open>pool\<close> slots for all algorithms. A
  message without a task comes back when \<open>ack_wait\<close> is over.
\<close>

inductive pool_step :: "(nat \<Rightarrow> string) \<Rightarrow> nat \<Rightarrow> worker_pool \<Rightarrow> worker_pool \<Rightarrow> bool" for algorithm_of pool where
  deliver: "m \<in> wp_queued s \<Longrightarrow> wp_deliveries s m < MAX_DELIVER \<Longrightarrow>
     card {n \<in> wp_unacked s. algorithm_of n = algorithm_of m} < pool \<Longrightarrow>
     pool_step algorithm_of pool s (handle m (s \<lparr> wp_queued := wp_queued s - {m}, wp_unacked := insert m (wp_unacked s),
       wp_deliveries := (wp_deliveries s)(m := wp_deliveries s m + 1) \<rparr>))"
| ready: "m \<in> in_phase Preparing s \<Longrightarrow>
     pool_step algorithm_of pool s (s \<lparr> wp_tasks := (wp_tasks s)(m \<mapsto> Waiting) \<rparr>)"
| decided_early: "m \<in> in_phase Preparing s \<Longrightarrow>
     pool_step algorithm_of pool s (s \<lparr> wp_tasks := (wp_tasks s)(m \<mapsto> Finishing) \<rparr>)"
| acquire: "m \<in> in_phase Waiting s \<Longrightarrow> card (in_phase Solving s) < pool \<Longrightarrow>
     pool_step algorithm_of pool s (s \<lparr> wp_tasks := (wp_tasks s)(m \<mapsto> Solving) \<rparr>)"
| release: "m \<in> in_phase Solving s \<Longrightarrow>
     pool_step algorithm_of pool s (s \<lparr> wp_tasks := (wp_tasks s)(m \<mapsto> Finishing) \<rparr>)"
| acked: "m \<in> in_phase Finishing s \<Longrightarrow>
     pool_step algorithm_of pool s (on_task_done m (s \<lparr> wp_unacked := wp_unacked s - {m} \<rparr>))"
| nacked: "m \<in> in_phase Finishing s \<Longrightarrow>
     pool_step algorithm_of pool s (on_task_done m (s \<lparr> wp_unacked := wp_unacked s - {m}, wp_queued := insert m (wp_queued s) \<rparr>))"
| cancelled: "m \<in> inflight s \<Longrightarrow> pool_step algorithm_of pool s (on_task_done m s)"
| lapsed: "m \<in> wp_unacked s \<Longrightarrow> m \<notin> inflight s \<Longrightarrow>
     pool_step algorithm_of pool s (s \<lparr> wp_unacked := wp_unacked s - {m}, wp_queued := insert m (wp_queued s) \<rparr>)"

inductive_cases pool_stepE: "pool_step algorithm_of pool s s'"

inductive pool_reachable :: "(nat \<Rightarrow> string) \<Rightarrow> nat \<Rightarrow> nat set \<Rightarrow> worker_pool \<Rightarrow> bool" for algorithm_of pool ms where
  start: "pool_reachable algorithm_of pool ms
     \<lparr> wp_queued = ms, wp_unacked = {}, wp_deliveries = (\<lambda>_. 0), wp_tasks = (\<lambda>_. None) \<rparr>"
| step: "pool_reachable algorithm_of pool ms s \<Longrightarrow> pool_step algorithm_of pool s s' \<Longrightarrow> pool_reachable algorithm_of pool ms s'"

section \<open>The heartbeat of a message\<close>

text \<open>
  Every sixty seconds an attempt to renew the message, which may fail. \<open>lapses\<close> counts the
  seconds since the last renewal and tells whether they reach \<open>ack_wait\<close> by one of the attempts.
\<close>

fun lapses :: "nat \<Rightarrow> bool list \<Rightarrow> bool" where
  "lapses since [] = False"
| "lapses since (sent # beats) =
     (if ACK_WAIT_SECONDS \<le> since + IN_PROGRESS_INTERVAL_SECONDS then True
      else lapses (if sent then 0 else since + IN_PROGRESS_INTERVAL_SECONDS) beats)"

section \<open>Lemmas\<close>

definition pool_ok :: "(nat \<Rightarrow> string) \<Rightarrow> nat \<Rightarrow> nat set \<Rightarrow> worker_pool \<Rightarrow> bool" where
  "pool_ok algorithm_of pool ms s \<longleftrightarrow>
     finite (wp_unacked s) \<and> inflight s \<subseteq> wp_unacked s \<and> wp_queued s \<inter> wp_unacked s = {} \<and>
     wp_queued s \<union> wp_unacked s \<subseteq> ms \<and> card (in_phase Solving s) \<le> pool \<and>
     (\<forall>a. card {n \<in> wp_unacked s. algorithm_of n = a} \<le> pool) \<and> (\<forall>m. wp_deliveries s m \<le> MAX_DELIVER)"

lemma in_phase_inflight: "in_phase ph s \<subseteq> inflight s"
  by (auto simp: in_phase_def inflight_def)

lemma pool_ok_start: "pool_ok algorithm_of pool ms \<lparr> wp_queued = ms, wp_unacked = {}, wp_deliveries = (\<lambda>_. 0), wp_tasks = (\<lambda>_. None) \<rparr>"
  by (simp add: pool_ok_def inflight_def in_phase_def)

text \<open>A task that moves to another phase, or ends.\<close>

lemma pool_ok_solving_shrinks:
  assumes "pool_ok algorithm_of pool ms s" "\<And>n. tasks n = Some Solving \<Longrightarrow> wp_tasks s n = Some Solving" "dom tasks \<subseteq> inflight s"
  shows "pool_ok algorithm_of pool ms (s \<lparr> wp_tasks := tasks \<rparr>)"
proof -
  have "finite (in_phase Solving s)"
    using assms(1) in_phase_inflight [of Solving s] unfolding pool_ok_def by (meson finite_subset order_trans)
  moreover have "in_phase Solving (s \<lparr> wp_tasks := tasks \<rparr>) \<subseteq> in_phase Solving s" using assms(2) by (auto simp: in_phase_def)
  ultimately have "card (in_phase Solving (s \<lparr> wp_tasks := tasks \<rparr>)) \<le> card (in_phase Solving s)" by (rule card_mono)
  then show ?thesis using assms(1,3) by (auto simp: pool_ok_def inflight_def)
qed

text \<open>A message that is no longer unacknowledged.\<close>

lemma pool_ok_unacked_shrinks:
  assumes "pool_ok algorithm_of pool ms s" "m \<notin> inflight s" "Q \<subseteq> insert m (wp_queued s)" "m \<in> wp_unacked s"
  shows "pool_ok algorithm_of pool ms (s \<lparr> wp_unacked := wp_unacked s - {m}, wp_queued := Q \<rparr>)"
proof -
  have "card {n \<in> wp_unacked s - {m}. algorithm_of n = a} \<le> card {n \<in> wp_unacked s. algorithm_of n = a}" for a
    using assms(1) by (intro card_mono) (auto simp: pool_ok_def)
  then have "\<forall>a. card {n \<in> wp_unacked s - {m}. algorithm_of n = a} \<le> pool"
    using assms(1) unfolding pool_ok_def by (meson order_trans)
  then show ?thesis using assms by (auto simp: pool_ok_def inflight_def in_phase_def)
qed

lemma pool_ok_deliver:
  assumes "pool_ok algorithm_of pool ms s" "m \<in> wp_queued s" "wp_deliveries s m < MAX_DELIVER"
    and "card {n \<in> wp_unacked s. algorithm_of n = algorithm_of m} < pool"
  shows "pool_ok algorithm_of pool ms (handle m (s \<lparr> wp_queued := wp_queued s - {m}, wp_unacked := insert m (wp_unacked s),
       wp_deliveries := (wp_deliveries s)(m := wp_deliveries s m + 1) \<rparr>))"
proof -
  have fresh: "m \<notin> wp_unacked s" "wp_tasks s m = None" using assms(1,2) by (auto simp: pool_ok_def inflight_def)
  have "card {n. n = m \<and> algorithm_of n = a \<or> n \<in> wp_unacked s \<and> algorithm_of n = a} \<le> pool" for a
  proof (cases "a = algorithm_of m")
    case True
    then have "{n. n = m \<and> algorithm_of n = a \<or> n \<in> wp_unacked s \<and> algorithm_of n = a} =
        insert m {n \<in> wp_unacked s. algorithm_of n = algorithm_of m}" by auto
    then show ?thesis using assms(1,4) fresh(1) by (simp add: pool_ok_def)
  next
    case False
    then have "{n. n = m \<and> algorithm_of n = a \<or> n \<in> wp_unacked s \<and> algorithm_of n = a} =
        {n \<in> wp_unacked s. algorithm_of n = a}" by auto
    then show ?thesis using assms(1) by (simp add: pool_ok_def)
  qed
  moreover have "{n. n \<noteq> m \<and> (n \<noteq> m \<longrightarrow> wp_tasks s n = Some Solving)} = in_phase Solving s" using fresh(2) by (auto simp: in_phase_def)
  ultimately show ?thesis
    using assms(1-3) by (auto simp: pool_ok_def handle_def inflight_def in_phase_def conj_disj_distribR)
qed

lemma pool_ok_acquire:
  assumes "pool_ok algorithm_of pool ms s" "m \<in> in_phase Waiting s" "card (in_phase Solving s) < pool"
  shows "pool_ok algorithm_of pool ms (s \<lparr> wp_tasks := (wp_tasks s)(m \<mapsto> Solving) \<rparr>)"
proof -
  have "in_phase Solving (s \<lparr> wp_tasks := (wp_tasks s)(m \<mapsto> Solving) \<rparr>) = insert m (in_phase Solving s)"
    by (auto simp: in_phase_def)
  then have "card (in_phase Solving (s \<lparr> wp_tasks := (wp_tasks s)(m \<mapsto> Solving) \<rparr>)) \<le> pool"
    using assms(3) by (metis Suc_leI card_insert_le_m1 card.infinite card_insert_if finite_insert le_trans less_imp_le_nat)
  then show ?thesis using assms(1,2) by (auto simp: pool_ok_def inflight_def in_phase_def)
qed

lemma pool_step_ok:
  assumes "pool_ok algorithm_of pool ms s" "pool_step algorithm_of pool s s'"
  shows "pool_ok algorithm_of pool ms s'"
  using assms(2)
proof (cases rule: pool_step.cases)
  case (deliver m)
  with assms(1) pool_ok_deliver show ?thesis by simp
next
  case (ready m)
  with assms(1) show ?thesis by (auto intro!: pool_ok_solving_shrinks simp: in_phase_def inflight_def split: if_splits)
next
  case (decided_early m)
  with assms(1) show ?thesis by (auto intro!: pool_ok_solving_shrinks simp: in_phase_def inflight_def split: if_splits)
next
  case (acquire m)
  with assms(1) pool_ok_acquire show ?thesis by simp
next
  case (release m)
  with assms(1) show ?thesis by (auto intro!: pool_ok_solving_shrinks simp: in_phase_def inflight_def split: if_splits)
next
  case (acked m)
  let ?s = "s \<lparr> wp_tasks := (wp_tasks s)(m := None) \<rparr>"
  have "pool_ok algorithm_of pool ms ?s"
    using assms(1) by (auto intro!: pool_ok_solving_shrinks simp: inflight_def split: if_splits)
  moreover have "m \<notin> inflight ?s" "m \<in> wp_unacked ?s"
    using acked assms(1) by (auto simp: inflight_def in_phase_def pool_ok_def)
  ultimately have "pool_ok algorithm_of pool ms (?s \<lparr> wp_unacked := wp_unacked ?s - {m}, wp_queued := wp_queued s \<rparr>)"
    by (intro pool_ok_unacked_shrinks) auto
  moreover have "?s \<lparr> wp_unacked := wp_unacked ?s - {m}, wp_queued := wp_queued s \<rparr> = s'"
    using acked by (cases s) (simp add: on_task_done_def)
  ultimately show ?thesis by simp
next
  case (nacked m)
  let ?s = "s \<lparr> wp_tasks := (wp_tasks s)(m := None) \<rparr>"
  have "pool_ok algorithm_of pool ms ?s"
    using assms(1) by (auto intro!: pool_ok_solving_shrinks simp: inflight_def split: if_splits)
  moreover have "m \<notin> inflight ?s" "m \<in> wp_unacked ?s"
    using nacked assms(1) by (auto simp: inflight_def in_phase_def pool_ok_def)
  ultimately have "pool_ok algorithm_of pool ms (?s \<lparr> wp_unacked := wp_unacked ?s - {m}, wp_queued := insert m (wp_queued s) \<rparr>)"
    by (intro pool_ok_unacked_shrinks) auto
  moreover have "?s \<lparr> wp_unacked := wp_unacked ?s - {m}, wp_queued := insert m (wp_queued s) \<rparr> = s'"
    using nacked by (cases s) (simp add: on_task_done_def)
  ultimately show ?thesis by simp
next
  case (cancelled m)
  with assms(1) show ?thesis
    by (auto intro!: pool_ok_solving_shrinks simp: on_task_done_def inflight_def split: if_splits)
next
  case (lapsed m)
  with assms(1) show ?thesis by (auto intro!: pool_ok_unacked_shrinks)
qed

lemma reachable_pool_ok: "pool_reachable algorithm_of pool ms s \<Longrightarrow> pool_ok algorithm_of pool ms s"
  by (induction rule: pool_reachable.induct) (auto intro: pool_ok_start pool_step_ok)

text \<open>Nine attempts in a row without success are needed before the tenth comes too late.\<close>

lemma lapses_needs_losses:
  assumes "lapses (60 * k) beats" "k < 10"
  shows "(\<exists>i. i + 9 < length beats \<and> (\<forall>j<9. \<not> beats ! (i + j))) \<or>
    (9 - k < length beats \<and> (\<forall>j<9 - k. \<not> beats ! j))"
  using assms
proof (induction beats arbitrary: k)
  case (Cons sent beats)
  show ?case
  proof (cases "k = 9")
    case True
    then show ?thesis by simp
  next
    case False
    then have k: "k < 9" using Cons.prems(2) by simp
    then have rest: "lapses (60 * (if sent then 0 else k + 1)) beats"
      using Cons.prems(1) by (auto simp: add.commute ACK_WAIT_SECONDS_def IN_PROGRESS_INTERVAL_SECONDS_def split: if_splits)
    have bound: "(if sent then 0 else k + 1) < 10" using k by simp
    from Cons.IH [OF rest bound] show ?thesis
    proof
      assume "\<exists>i. i + 9 < length beats \<and> (\<forall>j<9. \<not> beats ! (i + j))"
      then obtain i where "i + 9 < length beats" "\<forall>j<9. \<not> beats ! (i + j)" by blast
      then have "Suc i + 9 < length (sent # beats) \<and> (\<forall>j<9. \<not> (sent # beats) ! (Suc i + j))" by simp
      then show ?thesis by blast
    next
      assume run: "9 - (if sent then 0 else k + 1) < length beats \<and> (\<forall>j<9 - (if sent then 0 else k + 1). \<not> beats ! j)"
      show ?thesis
      proof (cases sent)
        case True
        with run have "1 + 9 < length (sent # beats) \<and> (\<forall>j<9. \<not> (sent # beats) ! (1 + j))" by simp
        then show ?thesis by blast
      next
        case False
        have "\<not> (sent # beats) ! j" if "j < 9 - k" for j
          using that run False by (cases j) auto
        moreover have "9 - k < length (sent # beats)" using run False k by auto
        ultimately show ?thesis by blast
      qed
    qed
  qed
qed simp

section \<open>Properties\<close>



text \<open>A few lost in-progress acknowledgements never let a message lapse: as long as among any nine
  consecutive ones at least one gets through, a generation of any length is never redelivered
  while it runs.\<close>

theorem heartbeat_tolerates_losses:
  assumes "\<And>i. i + 9 < length beats \<Longrightarrow> \<exists>j<9. beats ! (i + j)"
  shows "\<not> lapses 0 beats"
proof
  assume "lapses 0 beats"
  then have "(\<exists>i. i + 9 < length beats \<and> (\<forall>j<9. \<not> beats ! (i + j))) \<or> (9 < length beats \<and> (\<forall>j<9. \<not> beats ! j))"
    using lapses_needs_losses [of 0 beats] by simp
  then obtain i where "i + 9 < length beats" "\<forall>j<9. \<not> beats ! (i + j)"
  proof
    assume "9 < length beats \<and> (\<forall>j<9. \<not> beats ! j)"
    then show ?thesis by (intro that [of 0]) auto
  qed (use that in blast)
  with assms show False by blast
qed

theorem heartbeat_tolerates_losses_witness:
  "\<not> lapses 0 ([True] @ replicate 8 False @ [True] @ replicate 8 False)"
proof (rule heartbeat_tolerates_losses)
  fix i
  assume "i + 9 < length ([True] @ replicate 8 False @ [True] @ replicate 8 False)"
  then have "i < 9" by simp
  then have "([True] @ replicate 8 False @ [True] @ replicate 8 False) ! (i + (if i = 0 then 0 else 9 - i))"
    by (simp add: nth_append)
  moreover have "(if i = 0 then 0 else 9 - i) < 9" by simp
  ultimately show "\<exists>j<9. ([True] @ replicate 8 False @ [True] @ replicate 8 False) ! (i + j)" by blast
qed

end
