(* ===== verification/Health.thy ===== *)
theory Health
  imports Queue Middleware
begin

text \<open>
  The health routes (\<open>api/health/routes.py\<close>). The probes of the CRM database and of the NATS client
  are values: whether \<open>SELECT 1\<close> answers, fails with an \<open>SQLAlchemyError\<close> or with another exception,
  which \<open>check_db\<close> does not catch, and whether the client of the process says it is connected.
\<close>

datatype db_probe = DbAnswers | SQLAlchemyError string | DbRaises string

record check =
  ck_ok :: bool
  ck_error :: "string option"

definition passed :: check where
  "passed = \<lparr> ck_ok = True, ck_error = None \<rparr>"

definition failed :: "string \<Rightarrow> check" where
  "failed message = \<lparr> ck_ok = False, ck_error = Some message \<rparr>"

definition check_db :: "db_probe \<Rightarrow> exc + check" where
  "check_db db =
     (case db of DbAnswers \<Rightarrow> Inr passed | SQLAlchemyError m \<Rightarrow> Inr (failed m) | DbRaises m \<Rightarrow> Inl (OtherException m))"

definition check_nats :: "'b nats_process \<Rightarrow> bool \<Rightarrow> check" where
  "check_nats p is_connected =
     (case fst (get_nats p) of
        Inl (NotInitialized what) \<Rightarrow> failed (what @ '' not initialized'')
      | Inl _ \<Rightarrow> failed []
      | Inr _ \<Rightarrow> if is_connected then passed else failed ''NATS client not connected'')"

definition check_json :: "check \<Rightarrow> json" where
  "check_json r = JObj ((''ok'', JBool (ck_ok r)) # (case ck_error r of None \<Rightarrow> [] | Some m \<Rightarrow> [(''error'', JStr m)]))"

definition liveness :: response where
  "liveness = \<lparr> rs_status = 200, rs_body = JObj [(''status'', JStr ''alive'')], rs_headers = [] \<rparr>"

text \<open>The response, and the points added to the counter of the health checks.\<close>

definition readiness :: "db_probe \<Rightarrow> 'b nats_process \<Rightarrow> bool \<Rightarrow> exc + response \<times> (string \<times> string) list" where
  "readiness db p is_connected =
     rbind (check_db db) (\<lambda>db_result.
       let checks = [(''database'', db_result), (''nats'', check_nats p is_connected)];
           points = map (\<lambda>(component, r). (component, if ck_ok r then ''true'' else ''false'')) checks;
           is_ready = list_all (\<lambda>(_, r). ck_ok r) checks
       in Inr (\<lparr> rs_status = (if is_ready then 200 else 503),
                 rs_body = JObj [(''status'', JStr (if is_ready then ''healthy'' else ''unhealthy'')),
                                 (''checks'', JObj (map (\<lambda>(component, r). (component, check_json r)) checks))],
                 rs_headers = [] \<rparr>, points))"

definition health :: "db_probe \<Rightarrow> 'b nats_process \<Rightarrow> bool \<Rightarrow> exc + response \<times> (string \<times> string) list" where
  "health db p is_connected = readiness db p is_connected"

text \<open>The exported specification of the interface (\<open>scripts/export_openapi.py\<close>) leaves these routes out.\<close>

definition export_spec :: "(string \<times> json) list \<Rightarrow> (string \<times> json) list" where
  "export_spec spec =
     (let paths = (case map_of spec ''paths'' of Some (JObj kvs) \<Rightarrow> kvs | _ \<Rightarrow> [])
      in dict_set ''paths'' (JObj (filter (\<lambda>(path, methods). take 7 path \<noteq> ''/health'') paths)) spec)"

lemma exported_paths:
  assumes "map_of spec ''paths'' = Some (JObj kvs)"
  shows "map_of (export_spec spec) ''paths'' = Some (JObj (filter (\<lambda>(path, methods). take 7 path \<noteq> ''/health'') kvs))"
    "key \<noteq> ''paths'' \<Longrightarrow> map_of (export_spec spec) key = map_of spec key"
  using assms by (simp_all add: export_spec_def)

section \<open>Properties\<close>

text \<open>The readiness probe tells what it found: it answers 200 when the database answers and the process
  holds a connected client, and 503 otherwise; both checks are counted with their result. A process
  that has never called \<open>init_nats\<close>, or has closed the connection, is not ready.\<close>

theorem readiness_answers:
  assumes "readiness db p is_connected = Inr (rs, points)"
  shows "rs_status rs = (if db = DbAnswers \<and> np_client p \<noteq> None \<and> is_connected then 200 else 503) \<and>
    points = [(''database'', if db = DbAnswers then ''true'' else ''false''),
              (''nats'', if np_client p \<noteq> None \<and> is_connected then ''true'' else ''false'')]"
  using assms
  by (auto simp: readiness_def check_db_def check_nats_def get_nats_def abind_def aget_def araise_def areturn_def passed_def failed_def Let_def
      split: db_probe.splits option.splits)

theorem readiness_answers_witness:
  "\<exists>rs. readiness DbAnswers \<lparr> np_broker = (), np_client = None, np_jetstream = None, np_open = [], np_next = 0, np_slept = [] \<rparr> True =
      Inr (rs, [(''database'', ''true''), (''nats'', ''false'')]) \<and> rs_status rs = 503"
proof -
  let ?p = "\<lparr> np_broker = (), np_client = None, np_jetstream = None, np_open = [], np_next = 0, np_slept = [] \<rparr>"
  obtain rs points where r: "readiness DbAnswers ?p True = Inr (rs, points)"
    by (simp add: readiness_def check_db_def Let_def)
  from readiness_answers [OF r] r show ?thesis by simp
qed

end
