(* ===== verification/Metrics.thy ===== *)
theory Metrics
  imports WorkerMain Dispatching
begin

text \<open>
  The instruments of \<open>core/metrics.py\<close>: what the gauge of the queue depth observes of the snapshot
  the worker's poller keeps, and which points the message handler adds to the counter of messages.
  The points are a function of the run; the instruments themselves are library objects.
\<close>

section \<open>Instruments\<close>

datatype instrument_kind = Counter | Histogram | ObservableGauge

record instrument =
  in_kind :: instrument_kind
  in_name :: string
  in_unit :: string

definition generations_created :: instrument where
  "generations_created = \<lparr> in_kind = Counter, in_name = ''generations.created.total'', in_unit = ''1'' \<rparr>"

definition generations_completed :: instrument where
  "generations_completed = \<lparr> in_kind = Counter, in_name = ''generations.completed.total'', in_unit = ''1'' \<rparr>"

definition generation_duration :: instrument where
  "generation_duration = \<lparr> in_kind = Histogram, in_name = ''generation.duration.seconds'', in_unit = ''s'' \<rparr>"

definition worker_messages :: instrument where
  "worker_messages = \<lparr> in_kind = Counter, in_name = ''worker.messages.total'', in_unit = ''1'' \<rparr>"

definition health_checks :: instrument where
  "health_checks = \<lparr> in_kind = Counter, in_name = ''health.checks.total'', in_unit = ''1'' \<rparr>"

definition queue_depth_gauge :: instrument where
  "queue_depth_gauge = \<lparr> in_kind = ObservableGauge, in_name = ''nats.queue.depth'', in_unit = ''1'' \<rparr>"

section \<open>The queue depth\<close>

record observation =
  ob_value :: int
  ob_attributes :: "(string \<times> string) list"

definition queue_depth_callback :: "(string \<times> int) list \<Rightarrow> observation list" where
  "queue_depth_callback queue_depth_snapshot =
     map (\<lambda>(algorithm, value). \<lparr> ob_value = value, ob_attributes = [(''algorithm'', algorithm)] \<rparr>) queue_depth_snapshot"

text \<open>The last answer about an algorithm in the rounds before the shutdown.\<close>

fun last_answer :: "string \<Rightarrow> (bool \<times> poll_round_env) list \<Rightarrow> int option \<Rightarrow> int option" where
  "last_answer algorithm [] known = known"
| "last_answer algorithm ((shutdown_set, env) # rounds) known =
     (if shutdown_set then known
      else last_answer algorithm rounds (case pr_pending env algorithm of None \<Rightarrow> known | Some n \<Rightarrow> Some n))"

lemma poll_algorithms_value:
  "map_of (fst (poll_algorithms pending names (s, b))) a =
     (if a \<in> set names then (case pending a of None \<Rightarrow> map_of s a | Some n \<Rightarrow> Some n) else map_of s a)"
  by (induction names arbitrary: s b) (auto split: option.split)

lemma poll_algorithms_distinct: "distinct (dict_keys s) \<Longrightarrow> distinct (dict_keys (fst (poll_algorithms pending names (s, b))))"
  by (induction names arbitrary: s b) (auto simp: distinct_dict_set split: option.split)

lemma poll_round_snapshot: "po_snapshot (poll_round names env st) = fst (poll_algorithms (pr_pending env) names (po_snapshot st, False))"
  by (simp add: poll_round_def case_prod_beta Let_def)

lemma polled_value:
  "a \<in> set names \<Longrightarrow> map_of (po_snapshot (poll_queue_depth names rounds st)) a = last_answer a rounds (map_of (po_snapshot st) a)"
  by (induction names rounds st rule: poll_queue_depth.induct) (simp_all add: poll_round_snapshot poll_algorithms_value)

lemma polled_distinct: "distinct (dict_keys (po_snapshot st)) \<Longrightarrow> distinct (dict_keys (po_snapshot (poll_queue_depth names rounds st)))"
  by (induction names rounds st rule: poll_queue_depth.induct) (simp_all add: poll_round_snapshot poll_algorithms_distinct)

lemma observed_value:
  assumes "distinct (dict_keys snapshot)"
  shows "\<lparr> ob_value = v, ob_attributes = [(''algorithm'', a)] \<rparr> \<in> set (queue_depth_callback snapshot) \<longleftrightarrow> map_of snapshot a = Some v"
  using assms by (auto simp: queue_depth_callback_def dict_keys_def)

text \<open>The gauge reports for every algorithm the last depth the broker answered, however long ago: an
  outage of the broker is not visible in it. No algorithm is reported twice.\<close>

theorem gauge_reports_last_answer:
  assumes "a \<in> set names" "distinct (dict_keys (po_snapshot st))"
  shows "\<lparr> ob_value = v, ob_attributes = [(''algorithm'', a)] \<rparr> \<in> set (queue_depth_callback (po_snapshot (poll_queue_depth names rounds st))) \<longleftrightarrow>
    last_answer a rounds (map_of (po_snapshot st) a) = Some v"
  using observed_value [OF polled_distinct [OF assms(2)]] polled_value [OF assms(1)] by simp

theorem gauge_reports_last_answer_witness:
  "\<lparr> ob_value = 4, ob_attributes = [(''algorithm'', ''olagsa'')] \<rparr> \<in> set (queue_depth_callback (po_snapshot
     (poll_queue_depth [''olagsa''] [(False, \<lparr> pr_pending = (\<lambda>_. Some 4), pr_touchable = True \<rparr>), (False, \<lparr> pr_pending = (\<lambda>_. None), pr_touchable = True \<rparr>)]
       \<lparr> po_snapshot = [], po_heartbeats = 0 \<rparr>)))"
  by (subst gauge_reports_last_answer) (simp_all add: dict_keys_def)

section \<open>The counter of messages\<close>

text \<open>The outcome labels added to \<open>worker_messages\<close> by a run of the handler, each after its reply.\<close>

definition after_call :: "(world, worker_exc, unit) act \<Rightarrow> world \<Rightarrow> string \<Rightarrow> string list" where
  "after_call m w label = (case m w of (Inl _, _) \<Rightarrow> [] | (Inr _, _) \<Rightarrow> [label])"

definition message_points :: "worker_env \<Rightarrow> algorithm_metadata \<Rightarrow> msg \<Rightarrow> world \<Rightarrow> string list" where
  "message_points env meta m w =
     (case decode_event (msg_data m) of
        None \<Rightarrow> after_call (send_reply Ack) w ''drop_decode''
      | Some ev \<Rightarrow>
          (case generation_id_of (de_data ev) of
             None \<Rightarrow> after_call (send_reply Ack) w ''drop_invalid_id''
           | Some gid \<Rightarrow>
               (case process env meta gid m w of
                  (Inl (TransientError _), v) \<Rightarrow> after_call (send_reply (Nak NAK_RETRY_DELAY_SECONDS)) v ''nak''
                | (Inl _, v) \<Rightarrow>
                    after_call (abind (save_failure (we_byte_length env) gid ''unhandled_worker_error'') (\<lambda>_. send_reply Ack)) v ''ack_unhandled''
                | (Inr _, _) \<Rightarrow> [])))"

lemma reply_after_call:
  "after_call (send_reply r) w x = [y] \<Longrightarrow> y = x \<and> replies (snd (send_reply r w)) = replies w @ [r]"
  by (cases "send_reply r w") (auto simp: after_call_def dest: send_reply_outcome split: sum.splits)

lemma failure_after_call:
  assumes "after_call (abind (save_failure bl gid reason) (\<lambda>_. send_reply Ack)) w x = [y]"
  shows "y = x \<and> replies (snd (abind (save_failure bl gid reason) (\<lambda>_. send_reply Ack) w)) = replies w @ [Ack]"
proof (cases "save_failure bl gid reason w")
  case (Pair r v)
  note saved = save_failure_frame(2) [OF Pair]
  from Pair assms obtain u where "r = Inr u" and "after_call (send_reply Ack) v x = [y]"
    by (cases r) (simp_all add: after_call_def abind_def)
  with reply_after_call [OF this(2)] saved Pair show ?thesis by (simp add: abind_def)
qed

lemma handler_fails:
  assumes "decode_event (msg_data m) = Some ev" "generation_id_of (de_data ev) = Some gid" "process env meta gid m w = (Inl e, v)"
  shows "handle_message env meta m w =
    (case e of TransientError _ \<Rightarrow> send_reply (Nak NAK_RETRY_DELAY_SECONDS)
     | _ \<Rightarrow> abind (save_failure (we_byte_length env) gid ''unhandled_worker_error'') (\<lambda>_. send_reply Ack)) v"
proof -
  have "(atry (process env meta gid m) :: (world, worker_exc, worker_exc + terminal) act) w = (Inr (Inl e), v)"
    using assms(3) by (simp add: atry_def)
  then show ?thesis using assms(1,2) by (cases e) (simp_all add: handle_message_def abind_def [of "atry _"])
qed

text \<open>A point on the counter tells the reply: the message was handed back when the label is \<open>nak\<close>, and
  acknowledged otherwise.\<close>

theorem counted_messages_are_answered:
  assumes "message_points env meta m w = [label]" "\<forall>gid g. generations_t w gid = Some g \<longrightarrow> g_id g = gid"
  shows "replies (snd (handle_message env meta m w)) = replies w @ [if label = ''nak'' then Nak NAK_RETRY_DELAY_SECONDS else Ack]"
proof (cases "decode_event (msg_data m)")
  case None
  then show ?thesis using assms(1) reply_after_call by (fastforce simp: message_points_def handle_message_def)
next
  case (Some ev)
  show ?thesis
  proof (cases "generation_id_of (de_data ev)")
    case None
    then show ?thesis using assms(1) Some reply_after_call by (fastforce simp: message_points_def handle_message_def)
  next
    case (Some gid)
    obtain p v where p: "process env meta gid m w = (p, v)" by (cases "process env meta gid m w")
    have kept: "replies v = replies w" using process_outcome(2) [OF p] assms(2) by blast
    note run = \<open>decode_event (msg_data m) = Some ev\<close> Some p
    show ?thesis
    proof (cases p)
      case (Inr k)
      then show ?thesis using assms(1) run by (simp add: message_points_def)
    next
      case (Inl e)
      show ?thesis
      proof (cases "\<exists>x. e = TransientError x")
        case True
        then obtain x where e: "e = TransientError x" by blast
        then have "after_call (send_reply (Nak NAK_RETRY_DELAY_SECONDS)) v ''nak'' = [label]"
          using assms(1) run Inl by (simp add: message_points_def)
        from reply_after_call [OF this] show ?thesis
          using handler_fails [OF run(1,2) run(3) [unfolded Inl]] e kept by simp
      next
        case False
        let ?fail = "abind (save_failure (we_byte_length env) gid ''unhandled_worker_error'') (\<lambda>_. send_reply Ack)"
        have "after_call ?fail v ''ack_unhandled'' = [label]" "handle_message env meta m w = ?fail v"
          using assms(1) run Inl False handler_fails [OF run(1,2) run(3) [unfolded Inl]]
          by (cases e; simp add: message_points_def)+
        with failure_after_call kept show ?thesis by fastforce
      qed
    qed
  qed
qed

text \<open>A message whose handling ends as it should is not counted.\<close>

theorem settled_messages_are_not_counted:
  assumes "message_generation m = Some gid" "process env meta gid m w = (Inr k, v)"
  shows "message_points env meta m w = []"
  using assms by (auto simp: message_points_def message_generation_def bind_eq_Some_conv)

end
