(* ===== verification/Databases.thy ===== *)
theory Databases
  imports Settings
begin

text \<open>
  The two engines of \<open>core/database/database.py\<close> as the arguments they are created with. Their pools
  and sessions are objects of SQLAlchemy; what a session commits is in \<open>Platform\<close> and \<open>ApiRoutes\<close>.
\<close>

datatype connect_arg = DefaultTlsContext

definition build_connect_args :: "bool \<Rightarrow> (string \<times> connect_arg) list" where
  "build_connect_args setting_db_ssl = (if \<not> setting_db_ssl then [] else [(''ssl'', DefaultTlsContext)])"

record engine =
  en_url :: string
  en_pool_pre_ping :: bool
  en_pool_size :: int
  en_max_overflow :: int
  en_pool_recycle :: int
  en_pool_timeout :: int
  en_connect_args :: "(string \<times> connect_arg) list"

definition crm_engine :: "settings \<Rightarrow> engine" where
  "crm_engine c = \<lparr> en_url = CRM_DATABASE_URL c, en_pool_pre_ping = True, en_pool_size = CRM_DB_POOL_SIZE c,
     en_max_overflow = CRM_DB_MAX_OVERFLOW c, en_pool_recycle = CRM_DB_POOL_RECYCLE c, en_pool_timeout = CRM_DB_POOL_TIMEOUT c,
     en_connect_args = build_connect_args (CRM_DB_SSL c) \<rparr>"

definition local_engine :: "settings \<Rightarrow> engine" where
  "local_engine c = \<lparr> en_url = LOCAL_DATABASE_URL c, en_pool_pre_ping = True, en_pool_size = LOCAL_DB_POOL_SIZE c,
     en_max_overflow = LOCAL_DB_MAX_OVERFLOW c, en_pool_recycle = LOCAL_DB_POOL_RECYCLE c, en_pool_timeout = LOCAL_DB_POOL_TIMEOUT c,
     en_connect_args = build_connect_args (LOCAL_DB_SSL c) \<rparr>"

definition encrypted :: "engine \<Rightarrow> bool" where
  "encrypted e \<longleftrightarrow> map_of (en_connect_args e) ''ssl'' \<noteq> None"

section \<open>Properties\<close>

lemma encrypted_iff: "encrypted (crm_engine c) \<longleftrightarrow> CRM_DB_SSL c" "encrypted (local_engine c) \<longleftrightarrow> LOCAL_DB_SSL c"
  by (simp_all add: encrypted_def crm_engine_def local_engine_def build_connect_args_def)

text \<open>The encryption of the database connections follows its own settings, not the environment, and
  the validator does not look at them: every accepted configuration is accepted with encryption
  switched off as well, in production too.\<close>

theorem encryption_is_not_required:
  assumes "validate_env_config c = Inr c'"
  shows "\<exists>d. validate_env_config (c \<lparr> CRM_DB_SSL := False, LOCAL_DB_SSL := False \<rparr>) = Inr d \<and> ENV d = ENV c' \<and>
    \<not> encrypted (crm_engine d) \<and> \<not> encrypted (local_engine d)"
  using assms by (auto simp: validated encrypted_iff)

definition production_settings :: settings where
  "production_settings = (default_settings ''postgresql://crm'' ''postgresql://local'') \<lparr> ENV := PRODUCTION, ALLOW_ORIGIN := ''https://a'',
     NATS_URL := ''nats://n'', STORAGE_ENDPOINT := ''http://s'', STORAGE_ACCESS_KEY := ''k'', STORAGE_SECRET_KEY := ''s'',
     LOGGING_TOKEN := ''t'', LOGGING_LOGS_URL := ''http://l'', LOGGING_METRICS_URL := ''http://m'' \<rparr>"

lemma production_accepted: "validate_env_config production_settings = Inr production_settings"
  unfolding validated
  by (simp add: production_settings_def default_settings_def origins_of_def strip_def rstrip_by_def lstrip_by_def is_space_def)

theorem encryption_is_not_required_witness:
  "\<exists>d. validate_env_config d = Inr d \<and> ENV d = PRODUCTION \<and> \<not> encrypted (crm_engine d)"
proof -
  from encryption_is_not_required [OF production_accepted]
  obtain d where "validate_env_config (production_settings \<lparr> CRM_DB_SSL := False, LOCAL_DB_SSL := False \<rparr>) = Inr d"
    "ENV d = ENV production_settings" "\<not> encrypted (crm_engine d)" by blast
  then show ?thesis by (intro exI [of _ d]) (auto simp: validated production_settings_def)
qed

end
