(* ===== verification/Spec2Isabelle.thy ===== *)
theory Spec2Isabelle
  imports BruteForceAlgorithm OlagsaAlgorithm ApiServing Interleaving Processes Concurrency Health Metrics Databases
begin

text \<open>
  Verification of the OptimCE allocation key generation service.

  The program. A community of energy consumers shares a local production. An allocation key
  splits the production into at most three successive iterations and says which share of each
  iteration every consumer is offered. A manager asks the API for keys, from an uploaded
  file or from the meter readings of the CRM; the API checks the request, stores the file and a
  row with the status pending, and publishes a message. The worker of the chosen algorithm takes
  the message, loads the data, solves in a process of its own, writes the keys and the verdict,
  replies to the broker and releases the file.

  How the development is laid out. Every theory models the files named in its own header, and
  every definition carries the name of the function or class it translates.

  \<^item> Vocabulary: \<open>Prelude\<close> (Python exceptions, vectors, dictionaries), \<open>PyText\<close> and \<open>Regex\<close>
    (strings and the patterns the code uses), \<open>Effects\<close> (state transformers that may raise, with
    the logics \<open>yields\<close> and \<open>valid\<close>), \<open>AppErrors\<close> (\<open>core/errors\<close>, \<open>shared/custom_errors.py\<close>).
  \<^item> Algorithms: \<open>AlgorithmBase\<close> and \<open>Discovery\<close> (\<open>algorithms\<close>), \<open>BruteForce\<close>, \<open>BruteForceGenerator\<close>
    and \<open>BruteForceAlgorithm\<close> (\<open>brute_force\<close>), \<open>OlagsaGeometry\<close>, \<open>OlagsaSolver\<close>, \<open>OlagsaGA\<close> and
    \<open>OlagsaAlgorithm\<close> (\<open>olagsa\<close>).
  \<^item> Data: \<open>DataLoading\<close>, \<open>CrmData\<close> (\<open>shared\<close>), \<open>UploadShape\<close> (\<open>api/generation/upload_shape.py\<close>).
  \<^item> Platform: \<open>Platform\<close> (the tables, the object store, the audit log, the outcome of every outside
    call), \<open>Realtime\<close> (\<open>core/realtime\<close>), \<open>Queue\<close> (\<open>core/queue\<close>), \<open>Settings\<close> (\<open>core/config.py\<close>,
    \<open>core/tracing.py\<close>, \<open>core/logging.py\<close>), \<open>Databases\<close> (\<open>core/database/database.py\<close>), \<open>Metrics\<close>
    (\<open>core/metrics.py\<close>), \<open>Processes\<close> (lifespan, solver processes, signals).
  \<^item> Worker: \<open>Persistence\<close> (\<open>worker/persistence.py\<close>), \<open>Dispatcher\<close> and \<open>Concurrency\<close>
    (\<open>worker/dispatcher.py\<close>), \<open>WorkerMain\<close> (\<open>worker/main.py\<close>); what is proved of the handler is in
    \<open>Dispatching\<close>.
  \<^item> API: \<open>Security\<close> (\<open>core/security\<close>), \<open>Middleware\<close> (\<open>core/middleware\<close>, \<open>core/i18n.py\<close>, \<open>main.py\<close>),
    \<open>ApiRepository\<close>, \<open>ApiService\<close>, \<open>ApiRoutes\<close> (\<open>api/generation\<close>), \<open>Health\<close> (\<open>api/health\<close>).
  \<^item> The composed system: \<open>ApiServing\<close> (requests end to end), \<open>Tenancy\<close>, \<open>Requests\<close> (what requests do
    to an invariant), \<open>Consistency\<close>, \<open>Lifecycle\<close>, \<open>Refinement\<close>, \<open>Tasks\<close> and \<open>Interleaving\<close> (requests and
    messages cut at every access to the database).

  What the lemmas show.

  \<^item> Algorithms. The locale \<open>energy_distribution\<close> states what a distribution function promises (the
    whole production is handed out, consumption splits into used energy and an open rest) and is
    interpreted on the three functions of the code; \<open>minimal_distribution\<close> adds that the pro rata
    rule leaves no avoidable surplus. On them rests the optimality of the brute-force search. For
    OLAGSA: the species space covers every candidate, a solved key balances its energy, scoring and
    building a key take the same course, and a run ends in ranked, well-formed keys or in one
    of three kinds of exceptions.
  \<^item> Worker. The locale \<open>guarded_update\<close>, interpreted on \<open>claim\<close>, gives one verdict per generation in
    every interleaving of claims. Case by case the handler acknowledges decided generations only,
    keeps the file of a pending one, and bounds the deliveries. \<open>Concurrency\<close> is a step relation of
    the tasks, the semaphore and the broker with its invariant by rule induction.
  \<^item> System. \<open>system_step\<close> is a request, a message or a change elsewhere. The tables stay consistent, a
    request leaves other communities alone and its answer does not depend on them (a relational
    logic, \<open>blind\<close>), every step is a path of the life cycle, and a message refines one atomic
    decision. Two locales are the interfaces to an invariant: \<open>request_invariant\<close>, whose laws are about
    single statements and whose lemmas are about whole routes, and \<open>pipeline_invariant\<close> for the worker.
    The request of a generation never changes and no id is used twice (\<open>evolves\<close>).
  \<^item> Interleaving. A step of \<open>task_step\<close> is one read that starts a task, or one write that follows from
    what a task read. What each task knows is stable under the writes of all others (\<open>busy_ok\<close>), so the
    tables are consistent at every moment, every access is at most one step of the life cycle, a write
    never reaches another community, and a late save decides the request that was read, or nothing.
    Requests and messages are runs of these steps: both locales are interpreted on the worlds a task
    can reach.
  \<^item> Start and stop. The settings are validated, connecting ends after a bounded wait, a durable
    consumer ends up with the declared settings, and the shutdown runs every step.
  \<^item> Faults. Some properties state what the code does where it differs from what it means to do: the
    reward of infeasible candidates, the counter of generations without improvement, the audit
    entries that are never committed, the late mark that discards a success, the file that stays
    behind, the connections that are forgotten, the encryption that no environment requires.

  Modelling choices and bounds.

  \<^item> Floating point numbers are exact reals: rounding, infinities and nan are outside the model. Python
    integers are unbounded; there is no machine arithmetic in the program. Text is bytes.
  \<^item> All functions are total; there is no fuel. Loops that are not structural (\<open>read_loop\<close>,
    \<open>connect_from\<close>, the generations of the search) have a termination proof; the poll of the queue
    depth and the heartbeat are given the list of their rounds.
  \<^item> Code outside the repository is a parameter: pandas, the CSV and Excel readers, zip archives, cvxpy,
    the random generators, pydantic's number parsing, the collation of the database, JetStream and
    the process pool. What is used of it is a named hypothesis (\<open>rng_ok\<close>, the optimality conditions
    of the solver, \<open>documented_broker\<close>), and the witnesses instantiate it.
  \<^item> The roles of users are an instance of \<open>linorder\<close> (by rank), so the role the service picks is a maximum.
  \<^item> Every call to a database, the object store, the broker or the realtime server asks the world how it
    ends, so a statement about all worlds covers all patterns of failures.
  \<^item> A request, and the handling of a message, is one step of \<open>system_step\<close>. \<open>task_step\<close> splits both at
    their reads and writes of the tables. The conditional update of a save locks the row it claims, and
    the mark of a failed publication depends on its read only for the row to be there, so each of
    the two is one write. A task may end at any moment, which
    covers cancelled requests, crashed workers and replies that are lost. In \<open>api_request\<close> itself a
    request that outlives its time limit keeps an arbitrary effect.

  Not modelled: log lines and the points of the counters other than the one of the message handler
  (no decision reads them), the pools behind the two engines, timestamps of rows, CORS headers and
  instrumentation, the generated OpenAPI schema, the re-exports and dependency providers of the
  packages, and the callbacks of the broker client, which only log.
\<close>

end
